(* ===== verification/Go_Prelude.thy ===== *)
theory Go_Prelude
  imports Complex_Main "HOL-Library.Word"
begin

text \<open>
  Shared vocabulary of the development: the Go values the program passes around
  (UUIDs, timestamps, 64-bit floats, contexts), Go's \<open>error\<close> values with the chain that
  \<open>fmt.Errorf\<close> builds with its \<open>%w\<close> verb, and the list lemmas the components share.

  Conventions used by every theory.
  \<^item> A Go function that returns \<open>error\<close> is a function into \<open>error option\<close>; \<open>None\<close> is
    \<open>nil\<close>. A Go function that returns \<open>(T, error)\<close> is a function into \<open>error + T\<close>.
  \<^item> Go's \<open>int\<close> is \<open>int\<close>. The only arithmetic the program does on such values is
    \<open>version + 1\<close> on a version that was read from a four-byte column, so the 64-bit
    bound is never met (theory \<open>Commands\<close> proves the bound).
  \<^item> A stateful function takes the state last and returns it with its result.
\<close>

section \<open>Named collections of facts\<close>

named_theorems handler_defs \<open>the bodies of the event handlers of the product view\<close>
named_theorems call_frames \<open>what one call to the database leaves alone in its session\<close>

section \<open>Go values\<close>

text \<open>
  \<open>uuid.UUID\<close> is an array of sixteen bytes; \<open>uuid.Nil\<close> is the zero value. A
  \<open>time.Time\<close> is a number of microseconds since Go's zero time, the resolution of the
  columns that store it.
\<close>

type_synonym uuid = "128 word"

abbreviation uuid_Nil :: uuid where
  "uuid_Nil \<equiv> 0"

type_synonym time = int

text \<open>
  A \<open>float64\<close> is a finite number or one of the three special values. The program never
  computes with floats, it only compares, stores and encodes them, so a finite float is
  represented by the rational it denotes.
\<close>

datatype float64 = Finite rat | NaN | PosInf | NegInf

text \<open>The comparison \<open><=\<close> of Go: false as soon as one side is NaN.\<close>

fun f64_le :: "float64 \<Rightarrow> float64 \<Rightarrow> bool" where
  "f64_le NaN _ = False"
| "f64_le _ NaN = False"
| "f64_le NegInf _ = True"
| "f64_le _ PosInf = True"
| "f64_le (Finite a) (Finite b) = (a \<le> b)"
| "f64_le _ _ = False"

text \<open>
  A \<open>context.Context\<close> matters to the program only through the key \<open>txKey\<close>: it either
  carries an open transaction or it does not.
\<close>

datatype ctx = Background | TxCtx

section \<open>Go errors\<close>

text \<open>
  The leaves are the error values the sources create or test for. \<open>PgError code\<close> is a
  \<open>*pgconn.PgError\<close> with its SQLSTATE, \<open>DriverError\<close> any other failure a driver or a
  broker reports, \<open>NewError\<close> an error made by \<open>errors.New\<close> or by \<open>fmt.Errorf\<close> without
  \<open>%w\<close>. \<open>Wrap msg e\<close> is \<open>fmt.Errorf(msg + ": %w", e)\<close>, and \<open>PermanentError e\<close> is the
  wrapper type of the back-off library.
\<close>

datatype error =
    ErrConcurrency
  | ErrOutOfOrderEvent
  | ErrorProductNotFound
  | ContextCanceled
  | DriverError
  | PgError string
  | ErrTxClosed
  | ErrTxCommitRollback
  | ErrStreamNotFound
  | ErrTimeout
  | NewError string
  | Wrap string error
  | PermanentError error

text \<open>\<open>errors.Is\<close>: the error itself or one it wraps.\<close>

fun errors_Is :: "error \<Rightarrow> error \<Rightarrow> bool" where
  "errors_Is (Wrap m e) t = (Wrap m e = t \<or> errors_Is e t)"
| "errors_Is (PermanentError e) t = (PermanentError e = t \<or> errors_Is e t)"
| "errors_Is e t = (e = t)"

text \<open>\<open>errors.As\<close> into a \<open>*pgconn.PgError\<close>: the code of the first one in the chain.\<close>

fun as_PgError :: "error \<Rightarrow> string option" where
  "as_PgError (PgError c) = Some c"
| "as_PgError (Wrap _ e) = as_PgError e"
| "as_PgError (PermanentError e) = as_PgError e"
| "as_PgError _ = None"

text \<open>\<open>errors.As\<close> into a \<open>*backoff.PermanentError\<close>: what the first one in the chain wraps.\<close>

fun as_Permanent :: "error \<Rightarrow> error option" where
  "as_Permanent (PermanentError e) = Some e"
| "as_Permanent (Wrap _ e) = as_Permanent e"
| "as_Permanent _ = None"

lemma errors_Is_refl [simp]: "errors_Is e e"
  by (cases e) auto

section \<open>Results\<close>

text \<open>The early return \<open>if err != nil { return fmt.Errorf(msg, err) }\<close> of a value-returning call.\<close>

fun wrapE :: "string \<Rightarrow> error + 'a \<Rightarrow> error + 'a" where
  "wrapE m (Inl e) = Inl (Wrap m e)"
| "wrapE m (Inr x) = Inr x"

lemma wrapE_eq_Inr [simp]: "wrapE m r = Inr x \<longleftrightarrow> r = Inr x"
  by (cases r) auto

lemma wrapE_eq_Inl [simp]: "wrapE m r = Inl e \<longleftrightarrow> (\<exists>e'. r = Inl e' \<and> e = Wrap m e')"
  by (cases r) auto

text \<open>A loop that stops at the first error and collects the values it made.\<close>

fun mapE :: "('a \<Rightarrow> error + 'b) \<Rightarrow> 'a list \<Rightarrow> error + 'b list" where
  "mapE f [] = Inr []"
| "mapE f (x # xs) =
     (case f x of
        Inl e \<Rightarrow> Inl e
      | Inr y \<Rightarrow> (case mapE f xs of Inl e \<Rightarrow> Inl e | Inr ys \<Rightarrow> Inr (y # ys)))"

lemma mapE_Inr_iff: "mapE f xs = Inr ys \<longleftrightarrow> list_all2 (\<lambda>x y. f x = Inr y) xs ys"
proof (induction xs arbitrary: ys)
  case Nil
  then show ?case by (cases ys) auto
next
  case (Cons x xs)
  show ?case
    by (auto simp: list_all2_Cons1 Cons.IH [symmetric] split: sum.splits)
qed

lemma mapE_all_Inr: "(\<And>x. x \<in> set xs \<Longrightarrow> f x = Inr (g x)) \<Longrightarrow> mapE f xs = Inr (map g xs)"
  by (induction xs) auto

lemma mapE_append:
  "mapE f (xs @ ys) =
     (case mapE f xs of
        Inl e \<Rightarrow> Inl e
      | Inr xs' \<Rightarrow> (case mapE f ys of Inl e \<Rightarrow> Inl e | Inr ys' \<Rightarrow> Inr (xs' @ ys')))"
  by (induction xs) (auto split: sum.splits)

lemma mapE_Inl_elem: "mapE f xs = Inl e \<Longrightarrow> \<exists>x \<in> set xs. f x = Inl e"
  by (induction xs) (auto split: sum.splits)

lemma length_mapE: "mapE f xs = Inr ys \<Longrightarrow> length ys = length xs"
  by (auto simp: mapE_Inr_iff dest: list_all2_lengthD)

section \<open>Lists\<close>

lemma notin_image_iff: "y \<notin> f ` A \<longleftrightarrow> (\<forall>x \<in> A. f x \<noteq> y)"
  by auto

lemma distinct_map_filter: "distinct (map f xs) \<Longrightarrow> distinct (map f (filter P xs))"
  by (induction xs) auto

lemma distinct_map_inj: "distinct (map f xs) \<Longrightarrow> x \<in> set xs \<Longrightarrow> y \<in> set xs \<Longrightarrow> f x = f y \<Longrightarrow> x = y"
  by (auto simp: distinct_map dest: inj_onD)

lemma filter_key_unique:
  "distinct (map f xs) \<Longrightarrow> x \<in> set xs \<Longrightarrow> filter (\<lambda>y. f y = f x) xs = [x]"
proof (induction xs)
  case Nil
  then show ?case by simp
next
  case (Cons z zs)
  show ?case
  proof (cases "z = x")
    case True
    with Cons.prems have "f x \<notin> f ` set zs" by simp
    then have "filter (\<lambda>y. f y = f x) zs = []" unfolding filter_empty_conv by (metis imageI)
    with True show ?thesis by simp
  next
    case False
    with Cons.prems have "f z \<noteq> f x" and "x \<in> set zs" by force+
    with Cons show ?thesis by simp
  qed
qed

text \<open>A list of integers sorted and free of repetitions is determined by its elements.\<close>

lemma sorted_key_eq:
  assumes "sorted (map f xs)" "distinct (map f xs)" "sorted (map f ys)" "distinct (map f ys)"
    and "set xs = set ys"
  shows "xs = ys"
proof -
  have "inj_on f (set xs)" using assms(2) by (simp add: distinct_map)
  moreover have "map f xs = map f ys"
    by (rule sorted_distinct_set_unique) (use assms in auto)
  ultimately show ?thesis using assms(5) by (metis inj_on_map_eq_map Un_absorb)
qed

section \<open>Simulation\<close>

text \<open>
  One step relation implements another: under an invariant every concrete step is an abstract
  step or leaves the abstract state alone.
\<close>

locale simulation =
  fixes cinv :: "'c \<Rightarrow> bool" and cstep :: "'c \<Rightarrow> 'c \<Rightarrow> bool" and astep :: "'a \<Rightarrow> 'a \<Rightarrow> bool" and abs :: "'c \<Rightarrow> 'a"
  assumes inv_step: "cinv c \<Longrightarrow> cstep c c' \<Longrightarrow> cinv c'"
    and step_sim: "cinv c \<Longrightarrow> cstep c c' \<Longrightarrow> abs c' = abs c \<or> astep (abs c) (abs c')"
begin

lemma run_sim: "cstep\<^sup>*\<^sup>* c c' \<Longrightarrow> cinv c \<Longrightarrow> cinv c' \<and> astep\<^sup>*\<^sup>* (abs c) (abs c')"
proof (induction rule: rtranclp_induct)
  case base
  then show ?case by simp
next
  case (step c1 c2)
  then have inv: "cinv c1" "astep\<^sup>*\<^sup>* (abs c) (abs c1)" by simp_all
  from step_sim [OF inv(1) step.hyps(2)] have "astep\<^sup>*\<^sup>* (abs c) (abs c2)"
  proof
    assume "abs c2 = abs c1"
    with inv(2) show ?thesis by simp
  next
    assume "astep (abs c1) (abs c2)"
    with inv(2) show ?thesis by (rule rtranclp.rtrancl_into_rtrancl)
  qed
  with inv_step [OF inv(1) step.hyps(2)] show ?case by simp
qed

end

end
