(* ===== verification/Go_Json.thy ===== *)
theory Go_Json
  imports Go_Prelude
begin

text \<open>
  The part of \<open>encoding/json\<close> that the program uses: encoding of the field types that occur
  in its structs, and decoding of an object into a struct, field by field, over the values
  the struct already has. A JSON document is kept as a tree. UUIDs and timestamps are JSON
  strings in the text; the tree keeps the value such a string stands for (\<open>JUuid\<close>,
  \<open>JTime\<close>), since the program never looks at the text itself.
\<close>

section \<open>Documents\<close>

datatype json =
    JNull
  | JNumber rat
  | JString string
  | JUuid uuid
  | JTime time
  | JObject "(string \<times> json) list"

section \<open>Encoding\<close>

text \<open>Encoding a float fails with an \<open>UnsupportedValueError\<close> on NaN and the infinities.\<close>

fun enc_float :: "float64 \<Rightarrow> error + json" where
  "enc_float (Finite r) = Inr (JNumber r)"
| "enc_float _ = Inl (NewError ''json: unsupported value'')"

text \<open>\<open>Time.MarshalJSON\<close> fails when the year is outside the range from 0 to 9999.\<close>

definition year_ok :: "time \<Rightarrow> bool" where
  "year_ok t \<longleftrightarrow> - 31622400000000 \<le> t \<and> t < 315537897600000000"

definition enc_time :: "time \<Rightarrow> error + json" where
  "enc_time t = (if year_ok t then Inr (JTime t)
                 else Inl (NewError ''Time.MarshalJSON: year outside of range''))"

section \<open>Decoding\<close>

text \<open>
  Each decoder takes what the object holds under the field's key and the value the field
  has already: a missing key and \<open>null\<close> leave the field as it is, a value of another
  kind is an \<open>UnmarshalTypeError\<close>.
\<close>

abbreviation type_error :: "error + 'a" where
  "type_error \<equiv> Inl (NewError ''json: cannot unmarshal value into field'')"

fun dec_uuid :: "json option \<Rightarrow> uuid \<Rightarrow> error + uuid" where
  "dec_uuid None d = Inr d"
| "dec_uuid (Some JNull) d = Inr d"
| "dec_uuid (Some (JUuid u)) d = Inr u"
| "dec_uuid (Some _) d = type_error"

fun dec_time :: "json option \<Rightarrow> time \<Rightarrow> error + time" where
  "dec_time None d = Inr d"
| "dec_time (Some JNull) d = Inr d"
| "dec_time (Some (JTime t)) d = Inr t"
| "dec_time (Some _) d = type_error"

fun dec_string :: "json option \<Rightarrow> string \<Rightarrow> error + string" where
  "dec_string None d = Inr d"
| "dec_string (Some JNull) d = Inr d"
| "dec_string (Some (JString s)) d = Inr s"
| "dec_string (Some _) d = type_error"

fun dec_float :: "json option \<Rightarrow> float64 \<Rightarrow> error + float64" where
  "dec_float None d = Inr d"
| "dec_float (Some JNull) d = Inr d"
| "dec_float (Some (JNumber r)) d = Inr (Finite r)"
| "dec_float (Some _) d = type_error"

text \<open>A Go \<open>int\<close> takes an integral number of the 64-bit range.\<close>

definition int64 :: "int \<Rightarrow> bool" where
  "int64 n \<longleftrightarrow> - (2 ^ 63) \<le> n \<and> n < 2 ^ 63"

fun dec_int :: "json option \<Rightarrow> int \<Rightarrow> error + int" where
  "dec_int None d = Inr d"
| "dec_int (Some JNull) d = Inr d"
| "dec_int (Some (JNumber r)) d =
     (if of_int \<lfloor>r\<rfloor> = r \<and> int64 \<lfloor>r\<rfloor> then Inr \<lfloor>r\<rfloor> else type_error)"
| "dec_int (Some _) d = type_error"

text \<open>A \<open>json.RawMessage\<close> takes any value as it is.\<close>

fun dec_raw :: "json option \<Rightarrow> json \<Rightarrow> error + json" where
  "dec_raw None d = Inr d"
| "dec_raw (Some j) d = Inr j"

lemma dec_int_of_int [simp]: "int64 n \<Longrightarrow> dec_int (Some (JNumber (of_int n))) d = Inr n"
  by simp

end
