(* ===== verification/Events.thy ===== *)
theory Events
  imports Go_Json
begin

text \<open>
  Events: \<open>eventsrc/event.go\<close>, \<open>eventsrc/event_registry.go\<close>, the event types of the sample
  (\<open>sample/domain/event\<close>) and of the test helpers (\<open>testutil/event.go\<close>), and their JSON form.
\<close>

section \<open>The event types\<close>

record BaseEvent =
  ID :: uuid
  AggID :: uuid
  AggType :: string
  Ver :: int
  Ts :: time

text \<open>The three event structs of the repository have the same fields beside the embedded base.\<close>

record event_body =
  Base :: BaseEvent
  Name :: string
  Price :: float64

text \<open>
  The values of the interface \<open>Event\<close>: pointers to the two event structs of the sample, and
  the event struct that the tests use.
\<close>

datatype event =
    ProductCreated event_body
  | ProductUpdated event_body
  | TestProductCreated event_body

definition ProductCreatedEventType :: string where
  "ProductCreatedEventType = ''ProductCreated''"

definition ProductUpdatedEventType :: string where
  "ProductUpdatedEventType = ''ProductUpdated''"

fun body :: "event \<Rightarrow> event_body" where
  "body (ProductCreated b) = b"
| "body (ProductUpdated b) = b"
| "body (TestProductCreated b) = b"

fun set_body :: "event \<Rightarrow> event_body \<Rightarrow> event" where
  "set_body (ProductCreated _) b = ProductCreated b"
| "set_body (ProductUpdated _) b = ProductUpdated b"
| "set_body (TestProductCreated _) b = TestProductCreated b"

text \<open>The method \<open>EventType\<close> of each struct; a call through the interface picks one of them.\<close>

definition ProductCreated_EventType :: "event_body \<Rightarrow> string" where
  "ProductCreated_EventType e = ProductCreatedEventType"

definition ProductUpdated_EventType :: "event_body \<Rightarrow> string" where
  "ProductUpdated_EventType e = ProductUpdatedEventType"

definition TestProductCreated_EventType :: "event_body \<Rightarrow> string" where
  "TestProductCreated_EventType e = ''ProductCreated''"

declare ProductCreated_EventType_def [simp] ProductUpdated_EventType_def [simp] TestProductCreated_EventType_def [simp]

fun EventType :: "event \<Rightarrow> string" where
  "EventType (ProductCreated b) = ProductCreated_EventType b"
| "EventType (ProductUpdated b) = ProductUpdated_EventType b"
| "EventType (TestProductCreated b) = TestProductCreated_EventType b"

definition EventID :: "event \<Rightarrow> uuid" where
  "EventID e = ID (Base (body e))"

definition AggregateID :: "event \<Rightarrow> uuid" where
  "AggregateID e = AggID (Base (body e))"

definition AggregateType :: "event \<Rightarrow> string" where
  "AggregateType e = AggType (Base (body e))"

definition Version :: "event \<Rightarrow> int" where
  "Version e = Ver (Base (body e))"

definition Timestamp :: "event \<Rightarrow> time" where
  "Timestamp e = Ts (Base (body e))"

lemmas event_accessors = EventID_def AggregateID_def AggregateType_def Version_def Timestamp_def

text \<open>\<open>OutboxEvent\<close>: the row of the outbox table and the message of the broker.\<close>

record OutboxEvent =
  oe_EventID :: uuid
  oe_AggregateID :: uuid
  oe_AggregateType :: string
  oe_EventType :: string
  oe_Payload :: json
  oe_Version :: int
  oe_Ts :: time

section \<open>JSON form\<close>

text \<open>\<open>json.Marshal(evt)\<close>: the promoted fields of the embedded base come first.\<close>

definition marshal_event :: "event \<Rightarrow> error + json" where
  "marshal_event e =
     (let b = Base (body e) in
      case enc_time (Ts b) of
        Inl err \<Rightarrow> Inl err
      | Inr ts \<Rightarrow>
          (case enc_float (Price (body e)) of
             Inl err \<Rightarrow> Inl err
           | Inr price \<Rightarrow>
               Inr (JObject
                 [(''id'', JUuid (ID b)),
                  (''aggregate_id'', JUuid (AggID b)),
                  (''aggregate_type'', JString (AggType b)),
                  (''version'', JNumber (of_int (Ver b))),
                  (''ts'', ts),
                  (''name'', JString (Name (body e))),
                  (''price'', price)])))"

text \<open>\<open>json.Unmarshal(payload, evt)\<close> over the fields the target already has.\<close>

fun unmarshal_body :: "json \<Rightarrow> event_body \<Rightarrow> error + event_body" where
  "unmarshal_body (JObject kvs) d =
     (case dec_uuid (map_of kvs ''id'') (ID (Base d)) of Inl e \<Rightarrow> Inl e | Inr i \<Rightarrow>
      case dec_uuid (map_of kvs ''aggregate_id'') (AggID (Base d)) of Inl e \<Rightarrow> Inl e | Inr a \<Rightarrow>
      case dec_string (map_of kvs ''aggregate_type'') (AggType (Base d)) of Inl e \<Rightarrow> Inl e | Inr t \<Rightarrow>
      case dec_int (map_of kvs ''version'') (Ver (Base d)) of Inl e \<Rightarrow> Inl e | Inr v \<Rightarrow>
      case dec_time (map_of kvs ''ts'') (Ts (Base d)) of Inl e \<Rightarrow> Inl e | Inr ts \<Rightarrow>
      case dec_string (map_of kvs ''name'') (Name d) of Inl e \<Rightarrow> Inl e | Inr n \<Rightarrow>
      case dec_float (map_of kvs ''price'') (Price d) of Inl e \<Rightarrow> Inl e | Inr p \<Rightarrow>
      Inr \<lparr>Base = \<lparr>ID = i, AggID = a, AggType = t, Ver = v, Ts = ts\<rparr>, Name = n, Price = p\<rparr>)"
| "unmarshal_body JNull d = Inr d"
| "unmarshal_body _ d = type_error"

definition unmarshal_event :: "json \<Rightarrow> event \<Rightarrow> error + event" where
  "unmarshal_event j e =
     (case unmarshal_body j (body e) of Inl err \<Rightarrow> Inl err | Inr b \<Rightarrow> Inr (set_body e b))"

definition zero_body :: event_body where
  "zero_body = \<lparr>Base = \<lparr>ID = uuid_Nil, AggID = uuid_Nil, AggType = '''', Ver = 0, Ts = 0\<rparr>,
                Name = '''', Price = Finite 0\<rparr>"

text \<open>\<open>json.Marshal\<close> and \<open>json.Unmarshal\<close> of an \<open>OutboxEvent\<close>, whose fields have no tags.\<close>

definition marshal_outbox :: "OutboxEvent \<Rightarrow> error + json" where
  "marshal_outbox e =
     (case enc_time (oe_Ts e) of
        Inl err \<Rightarrow> Inl err
      | Inr ts \<Rightarrow>
          Inr (JObject
            [(''EventID'', JUuid (oe_EventID e)),
             (''AggregateID'', JUuid (oe_AggregateID e)),
             (''AggregateType'', JString (oe_AggregateType e)),
             (''EventType'', JString (oe_EventType e)),
             (''Payload'', oe_Payload e),
             (''Version'', JNumber (of_int (oe_Version e))),
             (''Ts'', ts)]))"

fun unmarshal_outbox :: "json \<Rightarrow> OutboxEvent \<Rightarrow> error + OutboxEvent" where
  "unmarshal_outbox (JObject kvs) d =
     (case dec_uuid (map_of kvs ''EventID'') (oe_EventID d) of Inl e \<Rightarrow> Inl e | Inr i \<Rightarrow>
      case dec_uuid (map_of kvs ''AggregateID'') (oe_AggregateID d) of Inl e \<Rightarrow> Inl e | Inr a \<Rightarrow>
      case dec_string (map_of kvs ''AggregateType'') (oe_AggregateType d) of Inl e \<Rightarrow> Inl e | Inr t \<Rightarrow>
      case dec_string (map_of kvs ''EventType'') (oe_EventType d) of Inl e \<Rightarrow> Inl e | Inr et \<Rightarrow>
      case dec_raw (map_of kvs ''Payload'') (oe_Payload d) of Inl e \<Rightarrow> Inl e | Inr p \<Rightarrow>
      case dec_int (map_of kvs ''Version'') (oe_Version d) of Inl e \<Rightarrow> Inl e | Inr v \<Rightarrow>
      case dec_time (map_of kvs ''Ts'') (oe_Ts d) of Inl e \<Rightarrow> Inl e | Inr ts \<Rightarrow>
      Inr \<lparr>oe_EventID = i, oe_AggregateID = a, oe_AggregateType = t, oe_EventType = et,
           oe_Payload = p, oe_Version = v, oe_Ts = ts\<rparr>)"
| "unmarshal_outbox JNull d = Inr d"
| "unmarshal_outbox _ d = type_error"

definition zero_outbox :: OutboxEvent where
  "zero_outbox = \<lparr>oe_EventID = uuid_Nil, oe_AggregateID = uuid_Nil, oe_AggregateType = '''',
     oe_EventType = '''', oe_Payload = JNull, oe_Version = 0, oe_Ts = 0\<rparr>"

section \<open>The registry\<close>

text \<open>
  The package variable \<open>eventRegistry\<close>, a map from type names to factories. A factory
  returns a fresh zero event, so it is represented by that event. The mutex makes each
  operation atomic. \<open>RegisterEvent\<close> panics on a second registration.
\<close>

type_synonym EventFactory = event

type_synonym registry = "string \<rightharpoonup> EventFactory"

definition RegisterEvent :: "string \<Rightarrow> EventFactory \<Rightarrow> registry \<Rightarrow> error + registry" where
  "RegisterEvent eventType factory reg =
     (case reg eventType of
        Some _ \<Rightarrow> Inl (NewError (''event type '' @ eventType @ '' is already registered''))
      | None \<Rightarrow> Inr (reg(eventType \<mapsto> factory)))"

definition CreateEvent :: "registry \<Rightarrow> string \<Rightarrow> error + event" where
  "CreateEvent reg eventType =
     (case reg eventType of
        None \<Rightarrow> Inl (NewError (''event type '' @ eventType @ '' is not registered''))
      | Some factory \<Rightarrow> Inr factory)"

text \<open>The \<open>init\<close> functions of \<open>product_created.go\<close> and \<open>product_updated.go\<close>, in that order.\<close>

definition init_ProductCreated :: "registry \<Rightarrow> error + registry" where
  "init_ProductCreated reg = RegisterEvent ProductCreatedEventType (ProductCreated zero_body) reg"

definition init_ProductUpdated :: "registry \<Rightarrow> error + registry" where
  "init_ProductUpdated reg = RegisterEvent ProductUpdatedEventType (ProductUpdated zero_body) reg"

definition eventRegistry :: registry where
  "eventRegistry =
     (case init_ProductCreated Map.empty of
        Inl _ \<Rightarrow> Map.empty
      | Inr reg \<Rightarrow> (case init_ProductUpdated reg of Inl _ \<Rightarrow> Map.empty | Inr reg' \<Rightarrow> reg'))"

section \<open>Lemmas\<close>

lemma event_type_neq [simp]:
  "ProductCreatedEventType \<noteq> ProductUpdatedEventType"
  "ProductUpdatedEventType \<noteq> ProductCreatedEventType"
  by (simp_all add: ProductCreatedEventType_def ProductUpdatedEventType_def)

lemma body_set_body [simp]: "body (set_body e b) = b"
  by (cases e) auto

lemma set_body_body [simp]: "set_body e (body e) = e"
  by (cases e) auto

lemma EventType_set_body [simp]: "EventType (set_body e b) = EventType e"
  by (cases e) auto

lemma eventRegistry_eq:
  "eventRegistry = [ProductCreatedEventType \<mapsto> ProductCreated zero_body,
                    ProductUpdatedEventType \<mapsto> ProductUpdated zero_body]"
  by (simp add: eventRegistry_def init_ProductCreated_def init_ProductUpdated_def RegisterEvent_def)

text \<open>What an event needs for its JSON form to exist and to be read back.\<close>

definition encodable :: "event \<Rightarrow> bool" where
  "encodable e \<longleftrightarrow>
     year_ok (Timestamp e) \<and> int64 (Version e) \<and> (\<exists>r. Price (body e) = Finite r)"

lemma marshal_event_Inr_iff:
  "(\<exists>j. marshal_event e = Inr j) \<longleftrightarrow>
     year_ok (Timestamp e) \<and> (\<exists>r. Price (body e) = Finite r)"
  by (cases "Price (body e)")
     (auto simp: marshal_event_def enc_time_def Timestamp_def Let_def)

lemma unmarshal_marshal_body:
  assumes "marshal_event e = Inr j" "int64 (Version e)"
  shows "unmarshal_body j d = Inr (body e)"
proof -
  obtain r where "Price (body e) = Finite r" and "year_ok (Ts (Base (body e)))"
    using assms(1) marshal_event_Inr_iff [of e] by (auto simp: Timestamp_def)
  with assms show ?thesis
    by (auto simp: marshal_event_def enc_time_def Version_def Let_def)
qed

lemma unmarshal_marshal_event:
  assumes "marshal_event e = Inr j" "int64 (Version e)"
  shows "unmarshal_event j d = Inr (set_body d (body e))"
  by (simp add: unmarshal_event_def unmarshal_marshal_body [OF assms])

text \<open>An event type of the sample: the registry maps its name back to the same constructor.\<close>

fun registered :: "event \<Rightarrow> bool" where
  "registered (TestProductCreated _) = False"
| "registered _ = True"

lemma CreateEvent_EventType:
  "registered e \<Longrightarrow> \<exists>z. CreateEvent eventRegistry (EventType e) = Inr z \<and> set_body z (body e) = e"
  by (cases e) (auto simp: CreateEvent_def eventRegistry_eq)

lemma unmarshal_marshal_outbox:
  assumes "marshal_outbox e = Inr j" "int64 (oe_Version e)"
  shows "unmarshal_outbox j d = Inr e"
  using assms by (auto simp: marshal_outbox_def enc_time_def split: if_splits)

section \<open>Properties\<close>



text \<open>
  The registry: a type can be registered once, a second registration is refused (the code
  panics) and changes nothing; a registered type creates the event of its factory, and other
  types are not affected.
\<close>

theorem RegisterEvent_CreateEvent:
  "(case RegisterEvent t e reg of
      Inl err \<Rightarrow> reg t \<noteq> None
    | Inr reg' \<Rightarrow> reg t = None \<and> CreateEvent reg' t = Inr e \<and>
        (\<exists>err. RegisterEvent t e' reg' = Inl err) \<and>
        (\<forall>t'. t' = t \<or> CreateEvent reg' t' = CreateEvent reg t'))"
  by (auto simp: RegisterEvent_def CreateEvent_def split: option.splits)

end
