(* ===== verification/Postgres.thy ===== *)
theory Postgres
  imports Events
begin

text \<open>
  The database side of \<open>infra/postgres\<close>: the tables of \<open>schema.sql\<close> (and the two view
  tables that \<open>sample/main.go\<close> and \<open>testutil/versioned_store.go\<close> create), the SQL
  statements the Go files contain, one constructor per statement text, a session that runs
  them, and \<open>DB.WithTransaction\<close> of \<open>db.go\<close>.

  The server and the network are not code of this repository. What they may do to a call is
  the parameter \<open>faults\<close> of a session, a list with one entry per call to the driver: nothing,
  or an error together with the flag that the statement was executed before its reply was
  lost. An exhausted list means no more faults, so every finite behaviour is some list. The
  rows of the outbox that other transactions have locked are the parameter \<open>locked\<close>.
\<close>

section \<open>Tables\<close>

type_synonym event_row = OutboxEvent
  \<comment> \<open>the seven columns of \<open>event_store\<close> are those of an \<open>OutboxEvent\<close>\<close>

record snapshot_row =
  sn_aggregate_id :: uuid
  sn_aggregate_type :: string
  sn_aggregate_version :: int
  sn_payload :: json

record outbox_row =
  ob_event :: OutboxEvent
  published :: bool

record view_row =
  vr_id :: uuid
  vr_name :: string
  vr_price :: int
  vr_version :: int
  vr_created_at :: time
  vr_updated_at :: time

record db =
  event_store :: "event_row list"
  snapshots :: "snapshot_row list"
  outbox :: "outbox_row list"
  processed_events :: "(uuid \<times> string) list"
  product_views :: "view_row list"
  versioned_views :: "(uuid \<times> int) list"

definition empty_db :: db where
  "empty_db = \<lparr>event_store = [], snapshots = [], outbox = [], processed_events = [],
               product_views = [], versioned_views = []\<rparr>"

text \<open>Column types: \<open>VARCHAR(255)\<close> and \<open>INT\<close>.\<close>

definition varchar255 :: "string \<Rightarrow> bool" where
  "varchar255 s \<longleftrightarrow> length s \<le> 255"

definition int4 :: "int \<Rightarrow> bool" where
  "int4 n \<longleftrightarrow> - (2 ^ 31) \<le> n \<and> n < 2 ^ 31"

section \<open>Statements\<close>

datatype stmt =
    InsertEvent event_row
  | InsertOutbox OutboxEvent
  | InsertSnapshot snapshot_row
  | UpdatePublished "uuid list"
  | InsertProcessed uuid string
  | UpsertView view_row
  | UpdateView uuid string int int time

text \<open>
  The result of a statement: the SQLSTATE of an error (\<open>22001\<close> value too long, \<open>22003\<close>
  number out of range, \<open>23505\<close> unique violation) or the number of affected rows and the new
  tables.
\<close>

fun exec_stmt :: "stmt \<Rightarrow> db \<Rightarrow> string + nat \<times> db" where
  "exec_stmt (InsertEvent r) d =
     (if \<not> varchar255 (oe_AggregateType r) \<or> \<not> varchar255 (oe_EventType r) then Inl ''22001''
      else if \<not> int4 (oe_Version r) then Inl ''22003''
      else if \<exists>x \<in> set (event_store d). oe_EventID x = oe_EventID r
                \<or> oe_AggregateID x = oe_AggregateID r \<and> oe_Version x = oe_Version r
      then Inl ''23505''
      else Inr (1, d\<lparr>event_store := event_store d @ [r]\<rparr>))"
| "exec_stmt (InsertOutbox e) d =
     (if \<not> varchar255 (oe_AggregateType e) \<or> \<not> varchar255 (oe_EventType e) then Inl ''22001''
      else if \<not> int4 (oe_Version e) then Inl ''22003''
      else if \<exists>x \<in> set (outbox d). oe_EventID (ob_event x) = oe_EventID e then Inl ''23505''
      else Inr (1, d\<lparr>outbox := outbox d @ [\<lparr>ob_event = e, published = False\<rparr>]\<rparr>))"
| "exec_stmt (InsertSnapshot r) d =
     (if \<not> varchar255 (sn_aggregate_type r) then Inl ''22001''
      else if \<not> int4 (sn_aggregate_version r) then Inl ''22003''
      else if \<exists>x \<in> set (snapshots d). sn_aggregate_id x = sn_aggregate_id r
                \<and> sn_aggregate_version x = sn_aggregate_version r
      then Inr (0, d)
      else Inr (1, d\<lparr>snapshots := snapshots d @ [r]\<rparr>))"
| "exec_stmt (UpdatePublished ids) d =
     Inr (length (filter (\<lambda>x. oe_EventID (ob_event x) \<in> set ids) (outbox d)),
          d\<lparr>outbox := map (\<lambda>x. if oe_EventID (ob_event x) \<in> set ids then x\<lparr>published := True\<rparr> else x)
                          (outbox d)\<rparr>)"
| "exec_stmt (InsertProcessed i sub) d =
     (if \<not> varchar255 sub then Inl ''22001''
      else if (i, sub) \<in> set (processed_events d) then Inl ''23505''
      else Inr (1, d\<lparr>processed_events := processed_events d @ [(i, sub)]\<rparr>))"
| "exec_stmt (UpsertView r) d =
     (if \<not> varchar255 (vr_name r) then Inl ''22001''
      else if \<not> int4 (vr_price r) \<or> \<not> int4 (vr_version r) then Inl ''22003''
      else if \<exists>x \<in> set (product_views d). vr_id x = vr_id r
      then Inr (1, d\<lparr>product_views :=
              map (\<lambda>x. if vr_id x = vr_id r
                       then x\<lparr>vr_name := vr_name r, vr_price := vr_price r,
                              vr_version := vr_version r, vr_updated_at := vr_updated_at r\<rparr>
                       else x) (product_views d)\<rparr>)
      else Inr (1, d\<lparr>product_views := product_views d @ [r]\<rparr>))"
| "exec_stmt (UpdateView i n p v t) d =
     (if \<not> int4 p \<or> \<not> int4 v then Inl ''22003''
      else if (\<exists>x \<in> set (product_views d). vr_id x = i) \<and> \<not> varchar255 n then Inl ''22001''
      else Inr (length (filter (\<lambda>x. vr_id x = i) (product_views d)),
                d\<lparr>product_views :=
                    map (\<lambda>x. if vr_id x = i
                             then x\<lparr>vr_name := n, vr_price := p, vr_version := v, vr_updated_at := t\<rparr>
                             else x) (product_views d)\<rparr>))"

definition run_stmt :: "stmt \<Rightarrow> db \<Rightarrow> db" where
  "run_stmt st d = (case exec_stmt st d of Inl _ \<Rightarrow> d | Inr (_, d') \<Rightarrow> d')"

section \<open>Sessions\<close>

text \<open>
  An open transaction is the list of its successful statements and whether an error has
  put it into the aborted state, in which the server refuses every further statement.
\<close>

record txn =
  tx_stmts :: "stmt list"
  tx_aborted :: bool

datatype fault = Fault error bool

record session =
  committed :: db
  cur_tx :: "txn option"
  faults :: "fault option list"
  locked :: "uuid list"

text \<open>What a statement of the open transaction sees: the committed rows and its own writes.\<close>

definition tx_view :: "'x session_scheme \<Rightarrow> db" where
  "tx_view s =
     (case cur_tx s of None \<Rightarrow> committed s | Some t \<Rightarrow> fold run_stmt (tx_stmts t) (committed s))"

definition next_fault :: "'x session_scheme \<Rightarrow> fault option \<times> 'x session_scheme" where
  "next_fault s = (case faults s of [] \<Rightarrow> (None, s) | f # fs \<Rightarrow> (f, s\<lparr>faults := fs\<rparr>))"

text \<open>\<open>pool.Begin\<close>.\<close>

definition pool_Begin :: "'x session_scheme \<Rightarrow> error option \<times> 'x session_scheme" where
  "pool_Begin s =
     (case next_fault s of
        (Some (Fault e _), s1) \<Rightarrow> (Some e, s1)
      | (None, s1) \<Rightarrow> (None, s1\<lparr>cur_tx := Some \<lparr>tx_stmts = [], tx_aborted = False\<rparr>\<rparr>))"

text \<open>\<open>tx.Exec\<close>: any failure leaves the transaction aborted.\<close>

definition abort_tx :: "'x session_scheme \<Rightarrow> 'x session_scheme" where
  "abort_tx s = s\<lparr>cur_tx := map_option (\<lambda>t. t\<lparr>tx_aborted := True\<rparr>) (cur_tx s)\<rparr>"

definition tx_Exec :: "stmt \<Rightarrow> 'x session_scheme \<Rightarrow> (error + nat) \<times> 'x session_scheme" where
  "tx_Exec st s =
     (case cur_tx s of
        None \<Rightarrow> (Inl ErrTxClosed, s)
      | Some t \<Rightarrow>
          (case next_fault s of
             (Some (Fault e _), s1) \<Rightarrow> (Inl e, abort_tx s1)
           | (None, s1) \<Rightarrow>
               if tx_aborted t then (Inl (PgError ''25P02''), s1)
               else (case exec_stmt st (tx_view s1) of
                       Inl code \<Rightarrow> (Inl (PgError code), abort_tx s1)
                     | Inr (n, _) \<Rightarrow> (Inr n, s1\<lparr>cur_tx := Some (t\<lparr>tx_stmts := tx_stmts t @ [st]\<rparr>)\<rparr>))))"

text \<open>\<open>tx.Query\<close> with a query given as a function of the tables the transaction sees.\<close>

definition tx_Query :: "(db \<Rightarrow> 'r) \<Rightarrow> 'x session_scheme \<Rightarrow> (error + 'r) \<times> 'x session_scheme" where
  "tx_Query q s =
     (case cur_tx s of
        None \<Rightarrow> (Inl ErrTxClosed, s)
      | Some t \<Rightarrow>
          (case next_fault s of
             (Some (Fault e _), s1) \<Rightarrow> (Inl e, abort_tx s1)
           | (None, s1) \<Rightarrow>
               if tx_aborted t then (Inl (PgError ''25P02''), s1) else (Inr (q (tx_view s1)), s1)))"

text \<open>
  \<open>tx.Commit\<close>. A commit of an aborted transaction is a rollback, which the driver reports. A
  reply that is lost leaves the client with an error although the commit took place.
\<close>

definition tx_Commit :: "'x session_scheme \<Rightarrow> error option \<times> 'x session_scheme" where
  "tx_Commit s =
     (case cur_tx s of
        None \<Rightarrow> (Some ErrTxClosed, s)
      | Some t \<Rightarrow>
          (case next_fault s of
             (Some (Fault e done), s1) \<Rightarrow>
               (Some e, s1\<lparr>committed := (if done \<and> \<not> tx_aborted t then tx_view s1 else committed s1),
                           cur_tx := None\<rparr>)
           | (None, s1) \<Rightarrow>
               if tx_aborted t then (Some ErrTxCommitRollback, s1\<lparr>cur_tx := None\<rparr>)
               else (None, s1\<lparr>committed := tx_view s1, cur_tx := None\<rparr>)))"

text \<open>\<open>defer tx.Rollback(ctx)\<close>: a no-op on a closed transaction; its error is ignored.\<close>

definition tx_Rollback :: "'x session_scheme \<Rightarrow> 'x session_scheme" where
  "tx_Rollback s = s\<lparr>cur_tx := None\<rparr>"

text \<open>\<open>pool.Exec\<close> and \<open>pool.Query\<close> run outside of the transaction, each on its own.\<close>

definition pool_Exec :: "stmt \<Rightarrow> 'x session_scheme \<Rightarrow> (error + nat) \<times> 'x session_scheme" where
  "pool_Exec st s =
     (case next_fault s of
        (Some (Fault e done), s1) \<Rightarrow>
          (Inl e, s1\<lparr>committed := (if done then run_stmt st (committed s1) else committed s1)\<rparr>)
      | (None, s1) \<Rightarrow>
          (case exec_stmt st (committed s1) of
             Inl code \<Rightarrow> (Inl (PgError code), s1)
           | Inr (n, d) \<Rightarrow> (Inr n, s1\<lparr>committed := d\<rparr>)))"

definition pool_Query :: "(db \<Rightarrow> 'r) \<Rightarrow> 'x session_scheme \<Rightarrow> (error + 'r) \<times> 'x session_scheme" where
  "pool_Query q s =
     (case next_fault s of
        (Some (Fault e _), s1) \<Rightarrow> (Inl e, s1)
      | (None, s1) \<Rightarrow> (Inr (q (committed s1)), s1))"

section \<open>\<open>DB.WithTransaction\<close>\<close>

definition WithTransaction ::
  "(ctx \<Rightarrow> 'x session_scheme \<Rightarrow> error option \<times> 'x session_scheme) \<Rightarrow> ctx
     \<Rightarrow> 'x session_scheme \<Rightarrow> error option \<times> 'x session_scheme" where
  "WithTransaction fn ctx s =
     (case pool_Begin s of
        (Some err, s1) \<Rightarrow> (Some (Wrap ''failed to begin transaction'' err), s1)
      | (None, s1) \<Rightarrow>
          (case fn TxCtx s1 of
             (Some err, s2) \<Rightarrow> (Some err, tx_Rollback s2)
           | (None, s2) \<Rightarrow> (case tx_Commit s2 of (r, s3) \<Rightarrow> (r, tx_Rollback s3))))"

section \<open>How the driver calls change a session\<close>

text \<open>A transaction that can still commit.\<close>

definition tx_open :: "'x session_scheme \<Rightarrow> bool" where
  "tx_open s \<longleftrightarrow> (\<exists>t. cur_tx s = Some t \<and> \<not> tx_aborted t)"

text \<open>The parts of a session that no statement of a transaction changes.\<close>

definition same_outside :: "'x session_scheme \<Rightarrow> 'x session_scheme \<Rightarrow> bool" where
  "same_outside s s' \<longleftrightarrow>
     committed s' = committed s \<and> locked s' = locked s \<and> session.more s' = session.more s"

lemma same_outside_refl [simp, intro]: "same_outside s s"
  by (simp add: same_outside_def)

lemma same_outside_trans [trans]: "same_outside s t \<Longrightarrow> same_outside t u \<Longrightarrow> same_outside s u"
  by (simp add: same_outside_def)

lemma same_outsideD:
  assumes "same_outside s s'"
  shows "committed s' = committed s" "locked s' = locked s" "session.more s' = session.more s"
  using assms by (simp_all add: same_outside_def)

lemma next_fault_frame:
  "next_fault s = (f, s') \<Longrightarrow> same_outside s s' \<and> cur_tx s' = cur_tx s"
  by (auto simp: next_fault_def same_outside_def split: list.splits)

lemma next_fault_none [simp]: "faults s = [] \<Longrightarrow> next_fault s = (None, s)"
  by (simp add: next_fault_def)

lemma tx_view_cong: "committed s' = committed s \<Longrightarrow> cur_tx s' = cur_tx s \<Longrightarrow> tx_view s' = tx_view s"
  by (simp add: tx_view_def cong: option.case_cong)

lemma next_fault_view: "next_fault s = (f, s') \<Longrightarrow> tx_view s' = tx_view s"
  using next_fault_frame by (metis tx_view_cong same_outsideD(1))

lemma next_faultD:
  assumes "next_fault s = (f, s')"
  shows "committed s' = committed s \<and> cur_tx s' = cur_tx s \<and> tx_view s' = tx_view s \<and>
         locked s' = locked s \<and> session.more s' = session.more s"
  using assms next_fault_frame next_fault_view by (metis same_outsideD)

lemma abort_tx_simps [simp]:
  "committed (abort_tx s) = committed s" "locked (abort_tx s) = locked s"
  "session.more (abort_tx s) = session.more s" "faults (abort_tx s) = faults s"
  "tx_view (abort_tx s) = tx_view s" "\<not> tx_open (abort_tx s)"
  "cur_tx (abort_tx s) = None \<longleftrightarrow> cur_tx s = None"
  by (auto simp: abort_tx_def tx_view_def tx_open_def split: option.splits)

lemma tx_Rollback_simps [simp]:
  "committed (tx_Rollback s) = committed s" "locked (tx_Rollback s) = locked s"
  "session.more (tx_Rollback s) = session.more s" "faults (tx_Rollback s) = faults s"
  "cur_tx (tx_Rollback s) = None"
  by (simp_all add: tx_Rollback_def)

lemma pool_Begin_frame: "pool_Begin s = (r, s') \<Longrightarrow> same_outside s s'"
  by (auto simp: pool_Begin_def same_outside_def split: prod.splits option.splits fault.splits
      dest!: next_fault_frame)

lemma pool_Begin_ok: "pool_Begin s = (None, s') \<Longrightarrow> tx_open s' \<and> tx_view s' = committed s"
  by (auto simp: pool_Begin_def tx_open_def tx_view_def same_outside_def
      split: prod.splits option.splits fault.splits dest!: next_fault_frame)

lemma tx_Exec_frame: "tx_Exec st s = (r, s') \<Longrightarrow> same_outside s s'"
  by (auto simp: tx_Exec_def same_outside_def
      split: option.splits prod.splits fault.splits if_splits sum.splits dest!: next_fault_frame)

lemma tx_Exec_ok:
  assumes "tx_Exec st s = (Inr n, s')"
  shows "tx_open s" "tx_open s'" "exec_stmt st (tx_view s) = Inr (n, tx_view s')"
proof -
  from assms obtain t s1 d where t: "cur_tx s = Some t" "\<not> tx_aborted t"
    and s1: "next_fault s = (None, s1)" "exec_stmt st (tx_view s1) = Inr (n, d)"
    and s': "s' = s1\<lparr>cur_tx := Some (t\<lparr>tx_stmts := tx_stmts t @ [st]\<rparr>)\<rparr>"
    by (auto simp: tx_Exec_def split: option.splits prod.splits fault.splits if_splits sum.splits)
  from t s' show "tx_open s" "tx_open s'" by (auto simp: tx_open_def)
  from s1 have view: "tx_view s1 = tx_view s" "cur_tx s1 = Some t" "committed s1 = committed s"
    using next_faultD [OF s1(1)] t(1) by simp_all
  then have "tx_view s' = run_stmt st (tx_view s)"
    using t(1) s' by (simp add: tx_view_def)
  with s1(2) view(1) show "exec_stmt st (tx_view s) = Inr (n, tx_view s')"
    by (simp add: run_stmt_def)
qed

lemma tx_Exec_error:
  assumes "tx_Exec st s = (Inl e, s')"
  shows "\<not> tx_open s'" "tx_view s' = tx_view s"
  using assms
  by (auto simp: tx_Exec_def tx_open_def abort_tx_def
      split: option.splits prod.splits fault.splits if_splits sum.splits dest!: next_faultD)
     (auto simp: tx_view_def)

lemma tx_Query_frame: "tx_Query q s = (r, s') \<Longrightarrow> same_outside s s' \<and> tx_view s' = tx_view s"
  by (auto simp: tx_Query_def same_outside_def
      split: option.splits prod.splits fault.splits if_splits
      dest!: next_fault_frame dest: next_fault_view)
     (auto simp: tx_view_def abort_tx_def split: option.splits)

lemma tx_Query_ok: "tx_Query q s = (Inr x, s') \<Longrightarrow> x = q (tx_view s) \<and> tx_open s \<and> tx_open s'"
  by (auto simp: tx_Query_def tx_open_def split: option.splits prod.splits fault.splits if_splits
      dest: next_fault_view next_fault_frame)

lemma tx_Commit_frame: "tx_Commit s = (r, s') \<Longrightarrow> locked s' = locked s \<and> session.more s' = session.more s"
  by (auto simp: tx_Commit_def same_outside_def
      split: option.splits prod.splits fault.splits if_splits dest!: next_fault_frame)

lemma tx_Commit_ok: "tx_Commit s = (None, s') \<Longrightarrow> tx_open s \<and> committed s' = tx_view s"
  by (auto simp: tx_Commit_def tx_open_def split: option.splits prod.splits fault.splits if_splits
      dest: next_fault_view next_fault_frame)

lemma tx_Commit_error:
  "tx_Commit s = (Some e, s') \<Longrightarrow> committed s' = committed s \<or> tx_open s \<and> committed s' = tx_view s"
  by (auto simp: tx_Commit_def tx_open_def split: option.splits prod.splits fault.splits if_splits
      dest!: next_faultD)

lemma pool_Query_frame:
  "pool_Query q s = (r, s') \<Longrightarrow> same_outside s s' \<and> cur_tx s' = cur_tx s \<and> tx_view s' = tx_view s"
  by (auto simp: pool_Query_def split: prod.splits option.splits fault.splits
      dest: next_fault_frame next_fault_view)

lemma pool_Query_ok: "pool_Query q s = (Inr x, s') \<Longrightarrow> x = q (committed s)"
  by (auto simp: pool_Query_def same_outside_def split: prod.splits option.splits fault.splits
      dest!: next_fault_frame)

declare pool_Begin_frame [call_frames] tx_Exec_frame [call_frames] tx_Query_frame [call_frames] pool_Query_frame [call_frames]

lemma pool_Exec_frame:
  "pool_Exec st s = (r, s') \<Longrightarrow>
     cur_tx s' = cur_tx s \<and> locked s' = locked s \<and> session.more s' = session.more s"
  by (auto simp: pool_Exec_def same_outside_def split: prod.splits option.splits fault.splits sum.splits
      dest!: next_fault_frame)

lemma pool_Exec_ok: "pool_Exec st s = (Inr n, s') \<Longrightarrow> exec_stmt st (committed s) = Inr (n, committed s')"
  by (auto simp: pool_Exec_def same_outside_def split: prod.splits option.splits fault.splits sum.splits
      dest!: next_fault_frame)

lemma pool_Exec_error:
  "pool_Exec st s = (Inl e, s') \<Longrightarrow>
     committed s' = committed s \<or> committed s' = run_stmt st (committed s)"
  by (auto simp: pool_Exec_def same_outside_def
      split: prod.splits option.splits fault.splits sum.splits if_splits dest!: next_fault_frame)

end
