(* ===== verification/Transactions.thy ===== *)
theory Transactions
  imports Postgres
begin

text \<open>
  The contract of the interface \<open>Transactor\<close> of \<open>cqrs/projection.go\<close> and the proof that
  \<open>DB.WithTransaction\<close> meets it. Clients (the projection and the command handlers) use the
  lemmas of the locale only.
\<close>

section \<open>The interface \<open>Transactor\<close>\<close>

text \<open>
  \<open>durable\<close> is what survives, \<open>seen\<close> what the function inside the transaction sees, and
  \<open>live\<close> says that the transaction can still commit and \<open>fresh\<close> that it has just been opened. A call that returns \<open>nil\<close> has made
  durable exactly what the function saw when it returned \<open>nil\<close>, with the transaction live. A
  call that returns an error has either not run the function, or discarded what it did inside
  the transaction, or made all of it durable (the reply to the commit was lost).
\<close>

locale transactor =
  fixes withTx :: "(ctx \<Rightarrow> 's \<Rightarrow> error option \<times> 's) \<Rightarrow> ctx \<Rightarrow> 's \<Rightarrow> error option \<times> 's"
    and durable :: "'s \<Rightarrow> 'd"
    and seen :: "'s \<Rightarrow> 'd"
    and live :: "'s \<Rightarrow> bool"
    and fresh :: "'s \<Rightarrow> bool"
  assumes fresh_seen: "fresh s \<Longrightarrow> seen s = durable s"
    and tx_ok: "withTx fn c s = (None, s') \<Longrightarrow>
      \<exists>s1 s2. durable s1 = durable s \<and> fresh s1 \<and> fn TxCtx s1 = (None, s2) \<and>
        live s2 \<and> durable s' = seen s2"
    and tx_error: "withTx fn c s = (Some e, s') \<Longrightarrow>
      durable s' = durable s \<or>
      (\<exists>s1 r s2. durable s1 = durable s \<and> fresh s1 \<and> fn TxCtx s1 = (r, s2) \<and>
         (durable s' = durable s2 \<or> r = None \<and> live s2 \<and> durable s' = seen s2))"
begin

text \<open>An invariant that the function keeps, durable and seen, survives the transaction.\<close>

lemma tx_invariant:
  assumes run: "withTx fn c s = (r, s')"
    and inv: "P (durable s)"
    and keeps: "\<And>s r s'. fn TxCtx s = (r, s') \<Longrightarrow> P (durable s) \<Longrightarrow> P (seen s) \<Longrightarrow>
      P (durable s') \<and> (r = None \<longrightarrow> live s' \<longrightarrow> P (seen s'))"
  shows "P (durable s')"
proof (cases r)
  case None
  with run obtain s1 s2 where "durable s1 = durable s" "fresh s1"
    "fn TxCtx s1 = (None, s2)" "live s2" "durable s' = seen s2"
    using tx_ok by blast
  with inv keeps [of s1 None s2] fresh_seen show ?thesis by simp
next
  case (Some e)
  with run consider "durable s' = durable s"
    | s1 r2 s2 where "durable s1 = durable s" "fresh s1" "fn TxCtx s1 = (r2, s2)"
        "durable s' = durable s2 \<or> r2 = None \<and> live s2 \<and> durable s' = seen s2"
    using tx_error by blast
  then show ?thesis
  proof cases
    case 1
    with inv show ?thesis by simp
  next
    case 2
    with inv keeps [of s1 r2 s2] fresh_seen show ?thesis by auto
  qed
qed

text \<open>
  All or nothing, for a function whose only effects are inside the transaction.
\<close>

lemma tx_atomic:
  assumes run: "withTx fn c s = (r, s')"
    and inside: "\<And>s r s'. fn TxCtx s = (r, s') \<Longrightarrow> durable s' = durable s"
  shows "r \<noteq> None \<and> durable s' = durable s \<or>
    (\<exists>s1 s2. durable s1 = durable s \<and> fresh s1 \<and> fn TxCtx s1 = (None, s2) \<and>
       live s2 \<and> durable s' = seen s2)"
proof (cases r)
  case None
  with run tx_ok show ?thesis by blast
next
  case (Some e)
  with run consider "durable s' = durable s"
    | s1 r2 s2 where "durable s1 = durable s" "fresh s1" "fn TxCtx s1 = (r2, s2)"
        "durable s' = durable s2 \<or> r2 = None \<and> live s2 \<and> durable s' = seen s2"
    using tx_error by blast
  then show ?thesis
  proof cases
    case 1
    with Some show ?thesis by simp
  next
    case 2
    with inside [OF 2(3)] Some show ?thesis by auto
  qed
qed

end

section \<open>\<open>DB.WithTransaction\<close> implements it\<close>

lemma WithTransaction_cases:
  assumes "WithTransaction fn c s = (r, s')"
  obtains (begin_failed) e where "r = Some (Wrap ''failed to begin transaction'' e)" "same_outside s s'"
  | (fn_failed) s1 e s2 where "pool_Begin s = (None, s1)" "fn TxCtx s1 = (Some e, s2)"
      "r = Some e" "s' = tx_Rollback s2"
  | (fn_done) s1 s2 s3 where "pool_Begin s = (None, s1)" "fn TxCtx s1 = (None, s2)"
      "tx_Commit s2 = (r, s3)" "s' = tx_Rollback s3"
  using assms
  by (auto simp: WithTransaction_def split: prod.splits option.splits dest: pool_Begin_frame)

lemma pool_Begin_durable:
  "pool_Begin s = (None, s1) \<Longrightarrow> committed s1 = committed s \<and> tx_view s1 = committed s \<and> tx_open s1"
  using pool_Begin_frame pool_Begin_ok by (metis same_outsideD(1))

lemma WithTransaction_ok:
  assumes "WithTransaction fn c s = (None, s')"
  obtains s1 s2 where "pool_Begin s = (None, s1)" "fn TxCtx s1 = (None, s2)" "tx_open s2"
    "committed s' = tx_view s2"
  using assms
  by (cases rule: WithTransaction_cases) (auto dest: tx_Commit_ok)

definition fresh_tx :: "'x session_scheme \<Rightarrow> bool" where
  "fresh_tx s \<longleftrightarrow> cur_tx s = Some \<lparr>tx_stmts = [], tx_aborted = False\<rparr>"

lemma fresh_tx_view: "fresh_tx s \<Longrightarrow> tx_view s = committed s"
  by (simp add: fresh_tx_def tx_view_def)

lemma pool_Begin_fresh: "pool_Begin s = (None, s1) \<Longrightarrow> committed s1 = committed s \<and> fresh_tx s1"
  by (auto simp: pool_Begin_def fresh_tx_def split: prod.splits option.splits fault.splits dest: next_faultD)

interpretation pg: transactor WithTransaction committed tx_view tx_open fresh_tx
proof
  show "tx_view s = committed s" if "fresh_tx s" for s :: "'x session_scheme"
    using that by (rule fresh_tx_view)
next
  fix fn :: "ctx \<Rightarrow> 'x session_scheme \<Rightarrow> error option \<times> 'x session_scheme" and c s s'
  assume "WithTransaction fn c s = (None, s')"
  then show "\<exists>s1 s2. committed s1 = committed s \<and> fresh_tx s1 \<and>
      fn TxCtx s1 = (None, s2) \<and> tx_open s2 \<and> committed s' = tx_view s2"
    by (rule WithTransaction_ok) (use pool_Begin_fresh in blast)
next
  fix fn :: "ctx \<Rightarrow> 'x session_scheme \<Rightarrow> error option \<times> 'x session_scheme" and c s s' e
  assume "WithTransaction fn c s = (Some e, s')"
  then show "committed s' = committed s \<or>
      (\<exists>s1 r s2. committed s1 = committed s \<and> fresh_tx s1 \<and> fn TxCtx s1 = (r, s2) \<and>
         (committed s' = committed s2 \<or> r = None \<and> tx_open s2 \<and> committed s' = tx_view s2))"
  proof (cases rule: WithTransaction_cases)
    case begin_failed
    then show ?thesis by (simp add: same_outside_def)
  next
    case (fn_failed s1 e' s2)
    then show ?thesis using pool_Begin_fresh [OF fn_failed(1)] by (metis tx_Rollback_simps(1))
  next
    case (fn_done s1 s2 s3)
    then have "committed s' = committed s2 \<or> tx_open s2 \<and> committed s' = tx_view s2"
      using tx_Commit_error [of s2 e s3] by auto
    with fn_done(2) pool_Begin_fresh [OF fn_done(1)] show ?thesis by blast
  qed
qed

text \<open>The session is left without an open transaction.\<close>

lemma WithTransaction_closed:
  "WithTransaction fn c s = (r, s') \<Longrightarrow> cur_tx s = None \<Longrightarrow> cur_tx s' = None"
  by (auto simp: WithTransaction_def pool_Begin_def split: prod.splits option.splits fault.splits
      dest: next_faultD)

text \<open>A function that hides an error of the server cannot commit.\<close>

lemma WithTransaction_aborted:
  assumes "pool_Begin s = (None, s1)" "fn TxCtx s1 = (None, s2)" "\<not> tx_open s2"
    and "WithTransaction fn c s = (r, s')"
  shows "r \<noteq> None \<and> committed s' = committed s2"
proof -
  obtain s3 where s3: "tx_Commit s2 = (r, s3)" "s' = tx_Rollback s3"
    using assms by (auto simp: WithTransaction_def split: prod.splits)
  show ?thesis
  proof (cases r)
    case None
    with s3(1) have "tx_open s2" using tx_Commit_ok by blast
    with assms(3) show ?thesis ..
  next
    case (Some e)
    with s3 assms(3) tx_Commit_error [of s2 e s3] show ?thesis by auto
  qed
qed

text \<open>Without faults the calls of the driver succeed.\<close>

abbreviation begun :: "'x session_scheme \<Rightarrow> 'x session_scheme" where
  "begun s \<equiv> s\<lparr>cur_tx := Some \<lparr>tx_stmts = [], tx_aborted = False\<rparr>\<rparr>"

lemma pool_Begin_nofault [simp]: "faults s = [] \<Longrightarrow> pool_Begin s = (None, begun s)"
  by (simp add: pool_Begin_def)

lemma tx_Exec_nofault:
  assumes "faults s = []" "tx_open s" "exec_stmt st (tx_view s) = Inr (n, d)"
  shows "\<exists>s'. tx_Exec st s = (Inr n, s') \<and> faults s' = [] \<and> tx_open s' \<and> tx_view s' = d \<and> same_outside s s'"
proof -
  from assms obtain s' where s': "tx_Exec st s = (Inr n, s')" "faults s' = []"
    by (auto simp: tx_Exec_def tx_open_def)
  from tx_Exec_ok(2,3) [OF s'(1)] assms(3) s' tx_Exec_frame [OF s'(1)] show ?thesis by auto
qed

lemma tx_Commit_nofault:
  assumes "faults s = []" "tx_open s"
  shows "\<exists>s'. tx_Commit s = (None, s') \<and> faults s' = [] \<and> committed s' = tx_view s \<and> cur_tx s' = None
           \<and> locked s' = locked s \<and> session.more s' = session.more s"
  using assms by (auto simp: tx_Commit_def tx_open_def)

lemma pool_Query_nofault [simp]: "faults s = [] \<Longrightarrow> pool_Query q s = (Inr (q (committed s)), s)"
  by (simp add: pool_Query_def)

lemma begun_simps [simp]:
  "tx_open (begun s)" "tx_view (begun s) = committed s" "same_outside s (begun s)"
  by (simp_all add: tx_open_def tx_view_def same_outside_def)

lemma WithTransaction_nofault:
  assumes "faults s = []" "fn TxCtx (begun s) = (None, s2)" "faults s2 = []" "tx_open s2"
  shows "\<exists>s'. WithTransaction fn c s = (None, s') \<and> faults s' = [] \<and> committed s' = tx_view s2 \<and>
           cur_tx s' = None \<and> locked s' = locked s2 \<and> session.more s' = session.more s2"
  using assms tx_Commit_nofault [OF assms(3,4)] by (auto simp: WithTransaction_def)

section \<open>Properties\<close>

text \<open>
  C22. A function that writes only through its transaction is all or nothing under
  \<open>DB.WithTransaction\<close>, whatever faults occur: either an error is returned and the committed
  tables are unchanged, or they are exactly what the function saw when it returned \<open>nil\<close> in a
  transaction that was still able to commit. In particular \<open>nil\<close> is never returned for a
  transaction that was not committed.
\<close>

theorem WithTransaction_atomic:
  assumes "WithTransaction fn c s = (r, s')"
    and "\<And>s r s'. fn TxCtx s = (r, s') \<Longrightarrow> committed s' = committed s"
  shows "r \<noteq> None \<and> committed s' = committed s \<or>
    (\<exists>s1 s2. committed s1 = committed s \<and> fresh_tx s1 \<and> fn TxCtx s1 = (None, s2) \<and>
       tx_open s2 \<and> committed s' = tx_view s2)"
  using assms by (rule pg.tx_atomic)

text \<open>A transaction with one insert, whose commit is lost by the network.\<close>

definition insert_mark :: "ctx \<Rightarrow> session \<Rightarrow> error option \<times> session" where
  "insert_mark c s = (case tx_Exec (InsertProcessed 7 ''p'') s of (Inl e, s') \<Rightarrow> (Some e, s') | (Inr _, s') \<Rightarrow> (None, s'))"

definition lost_commit :: session where
  "lost_commit = \<lparr>committed = empty_db, cur_tx = None,
     faults = [None, None, Some (Fault DriverError True)], locked = []\<rparr>"

theorem WithTransaction_atomic_witness:
  "\<exists>s'. WithTransaction insert_mark Background lost_commit = (Some DriverError, s') \<and>
     processed_events (committed s') = [(7, ''p'')] \<and>
     (\<exists>s1 s2. fresh_tx s1 \<and> insert_mark TxCtx s1 = (None, s2) \<and> committed s' = tx_view s2)"
proof -
  obtain r s' where run: "WithTransaction insert_mark Background lost_commit = (r, s')" by fastforce
  have r: "r = Some DriverError" "processed_events (committed s') = [(7, ''p'')]"
    using run by (simp_all add: WithTransaction_def insert_mark_def lost_commit_def pool_Begin_def
        next_fault_def tx_Exec_def tx_Commit_def tx_view_def tx_Rollback_def run_stmt_def varchar255_def
        empty_db_def split: prod.splits) auto
  have frame: "committed s' = committed s" if "insert_mark TxCtx s = (r, s')" for s r s'
    using that by (auto simp: insert_mark_def split: prod.splits sum.splits dest!: tx_Exec_frame same_outsideD(1))
  have "r \<noteq> None \<and> committed s' = committed lost_commit \<or>
    (\<exists>s1 s2. committed s1 = committed lost_commit \<and> fresh_tx s1 \<and> insert_mark TxCtx s1 = (None, s2) \<and>
       tx_open s2 \<and> committed s' = tx_view s2)"
    by (rule WithTransaction_atomic [OF run]) (rule frame)
  moreover have "committed s' \<noteq> committed lost_commit" using r(2) by (auto simp: lost_commit_def empty_db_def)
  ultimately have "\<exists>s1 s2. fresh_tx s1 \<and> insert_mark TxCtx s1 = (None, s2) \<and> committed s' = tx_view s2"
    by blast
  with run r show ?thesis by blast
qed

end
