(* ===== verification/Idempotency.thy ===== *)
theory Idempotency
  imports Transactions
begin

text \<open>
  The interfaces \<open>IdempotencyStore\<close> and \<open>VersionedStore\<close> of \<open>cqrs/projection.go\<close>, the
  implementation of the first in \<open>infra/postgres/idempotency.go\<close> and the implementation of the
  second that the tests use (\<open>testutil/versioned_store.go\<close>).
\<close>

section \<open>\<open>infra/postgres/idempotency.go\<close>\<close>

definition IsProcessed :: "ctx \<Rightarrow> uuid \<Rightarrow> string \<Rightarrow> 'x session_scheme \<Rightarrow> (error + bool) \<times> 'x session_scheme" where
  "IsProcessed ctx eventID subscriberID s =
     (case pool_Query (\<lambda>d. (eventID, subscriberID) \<in> set (processed_events d)) s of
        (Inl err, s1) \<Rightarrow> (Inl (Wrap ''failed to check for processed event'' err), s1)
      | (Inr exists, s1) \<Rightarrow> (Inr exists, s1))"

definition MarkAsProcessed :: "ctx \<Rightarrow> uuid \<Rightarrow> string \<Rightarrow> 'x session_scheme \<Rightarrow> error option \<times> 'x session_scheme" where
  "MarkAsProcessed ctx eventID subscriberID s =
     (case ctx of
        Background \<Rightarrow> (Some (NewError ''MarkAsProcessed must be called within a transaction''), s)
      | TxCtx \<Rightarrow>
          (case tx_Exec (InsertProcessed eventID subscriberID) s of
             (Inl err, s1) \<Rightarrow>
               if as_PgError err = Some ''23505'' then (None, s1)
               else (Some (Wrap ''failed to mark event as processed'' err), s1)
           | (Inr _, s1) \<Rightarrow> (None, s1)))"

section \<open>\<open>testutil/versioned_store.go\<close>\<close>

definition VersionedRepository_GetVersion ::
  "ctx \<Rightarrow> uuid \<Rightarrow> 'x session_scheme \<Rightarrow> (error + int) \<times> 'x session_scheme" where
  "VersionedRepository_GetVersion ctx aggregateID s =
     (case pool_Query (\<lambda>d. map_of (versioned_views d) aggregateID) s of
        (Inl err, s1) \<Rightarrow> (Inl (Wrap ''failed to get versioned view version'' err), s1)
      | (Inr None, s1) \<Rightarrow> (Inr 0, s1)
      | (Inr (Some version), s1) \<Rightarrow> (Inr version, s1))"

section \<open>The interface \<open>IdempotencyStore\<close>\<close>

text \<open>
  \<open>marks\<close> are the pairs of an event and a subscriber that count as processed. \<open>MarkAsProcessed\<close>
  may return \<open>nil\<close> without having recorded anything, but then the transaction it was called in
  cannot commit.
\<close>

locale idempotency_store = transactor withTx durable seen live fresh
  for withTx :: "(ctx \<Rightarrow> 's \<Rightarrow> error option \<times> 's) \<Rightarrow> ctx \<Rightarrow> 's \<Rightarrow> error option \<times> 's"
    and durable :: "'s \<Rightarrow> 'd" and seen :: "'s \<Rightarrow> 'd" and live :: "'s \<Rightarrow> bool"
    and fresh :: "'s \<Rightarrow> bool" +
  fixes isProcessed :: "ctx \<Rightarrow> uuid \<Rightarrow> string \<Rightarrow> 's \<Rightarrow> (error + bool) \<times> 's"
    and markAsProcessed :: "ctx \<Rightarrow> uuid \<Rightarrow> string \<Rightarrow> 's \<Rightarrow> error option \<times> 's"
    and marks :: "'d \<Rightarrow> (uuid \<times> string) set"
    and rest :: "'d \<Rightarrow> 'v"
  assumes isProcessed_ok: "isProcessed c i sub s = (Inr b, s') \<Longrightarrow> b \<longleftrightarrow> (i, sub) \<in> marks (durable s)"
    and isProcessed_frame: "isProcessed c i sub s = (r, s') \<Longrightarrow> durable s' = durable s"
    and mark_frame: "markAsProcessed c i sub s = (e, s') \<Longrightarrow> durable s' = durable s"
    and mark_ok: "markAsProcessed c i sub s = (None, s') \<Longrightarrow> live s' \<Longrightarrow>
      (i, sub) \<notin> marks (seen s) \<and> marks (seen s') = insert (i, sub) (marks (seen s)) \<and>
      rest (seen s') = rest (seen s)"
begin

text \<open>Marking alone, in a transaction of its own.\<close>

lemma mark_alone:
  assumes "withTx (\<lambda>txCtx. markAsProcessed txCtx i sub) c s = (r, s')"
  shows "r \<noteq> None \<and> durable s' = durable s \<or>
    marks (durable s') = insert (i, sub) (marks (durable s)) \<and> rest (durable s') = rest (durable s)"
proof -
  from tx_atomic [OF assms] mark_frame
  have "r \<noteq> None \<and> durable s' = durable s \<or>
    (\<exists>s1 s2. durable s1 = durable s \<and> fresh s1 \<and> markAsProcessed TxCtx i sub s1 = (None, s2) \<and>
       live s2 \<and> durable s' = seen s2)" by blast
  then show ?thesis
  proof (elim disjE exE conjE)
    fix s1 s2
    assume "durable s1 = durable s" "fresh s1" "markAsProcessed TxCtx i sub s1 = (None, s2)" "live s2"
      "durable s' = seen s2"
    with mark_ok [of TxCtx i sub s1 s2] fresh_seen [of s1] show ?thesis by simp
  qed simp
qed

lemma mark_alone_ok:
  assumes "withTx (\<lambda>txCtx. markAsProcessed txCtx i sub) c s = (None, s')"
  shows "(i, sub) \<in> marks (durable s')" "(i, sub) \<notin> marks (durable s)"
proof -
  from tx_ok [OF assms] obtain s1 s2 where "durable s1 = durable s" "fresh s1"
    "markAsProcessed TxCtx i sub s1 = (None, s2)" "live s2" "durable s' = seen s2" by blast
  with mark_ok [of TxCtx i sub s1 s2] fresh_seen [of s1]
  show "(i, sub) \<in> marks (durable s')" "(i, sub) \<notin> marks (durable s)" by auto
qed

end

section \<open>The interface \<open>VersionedStore\<close>\<close>

locale versioned_store =
  fixes getVersion :: "ctx \<Rightarrow> uuid \<Rightarrow> 's \<Rightarrow> (error + int) \<times> 's"
    and durable :: "'s \<Rightarrow> 'd"
    and version :: "uuid \<Rightarrow> 'd \<Rightarrow> int"
  assumes getVersion_ok: "getVersion c i s = (Inr v, s') \<Longrightarrow> v = version i (durable s)"
    and getVersion_frame: "getVersion c i s = (r, s') \<Longrightarrow> durable s' = durable s"

section \<open>The implementations\<close>

lemma IsProcessed_frame: "IsProcessed c i sub s = (r, s') \<Longrightarrow> same_outside s s' \<and> cur_tx s' = cur_tx s"
  by (auto simp: IsProcessed_def split: prod.splits sum.splits dest: call_frames)

lemma IsProcessed_ok:
  assumes "IsProcessed c i sub s = (Inr b, s')"
  shows "b \<longleftrightarrow> (i, sub) \<in> set (processed_events (committed s))"
proof -
  let ?q = "\<lambda>d. (i, sub) \<in> set (processed_events d)"
  from assms have "pool_Query ?q s = (Inr b, s')"
    by (auto simp: IsProcessed_def split: prod.splits sum.splits)
  from pool_Query_ok [OF this] show ?thesis .
qed

lemma MarkAsProcessed_frame: "MarkAsProcessed c i sub s = (r, s') \<Longrightarrow> same_outside s s'"
  by (auto simp: MarkAsProcessed_def split: ctx.splits prod.splits sum.splits if_splits dest: call_frames)

text \<open>The three ways in which \<open>MarkAsProcessed\<close> ends inside a transaction.\<close>

lemma MarkAsProcessed_ok:
  assumes "MarkAsProcessed c i sub s = (None, s')" "tx_open s'"
  shows "(i, sub) \<notin> set (processed_events (tx_view s))" "varchar255 sub" "tx_open s"
    "tx_view s' = (tx_view s)\<lparr>processed_events := processed_events (tx_view s) @ [(i, sub)]\<rparr>"
proof -
  from assms obtain n where ex: "tx_Exec (InsertProcessed i sub) s = (Inr n, s')"
    by (auto simp: MarkAsProcessed_def split: ctx.splits prod.splits sum.splits if_splits
        dest: tx_Exec_error(1))
  from tx_Exec_ok(3) [OF ex] show "(i, sub) \<notin> set (processed_events (tx_view s))" "varchar255 sub"
    "tx_view s' = (tx_view s)\<lparr>processed_events := processed_events (tx_view s) @ [(i, sub)]\<rparr>"
    by (auto split: if_splits)
  from tx_Exec_ok(1) [OF ex] show "tx_open s" .
qed

text \<open>
  A mark that exists already: the function returns \<open>nil\<close>, as its comment says, but the server
  has put the transaction into the aborted state.
\<close>

lemma MarkAsProcessed_duplicate:
  assumes "(i, sub) \<in> set (processed_events (tx_view s))" "varchar255 sub" "tx_open s" "faults s = []"
  shows "MarkAsProcessed TxCtx i sub s = (None, abort_tx s)"
  using assms by (auto simp: MarkAsProcessed_def tx_Exec_def tx_open_def)

lemma MarkAsProcessed_nofault:
  assumes "(i, sub) \<notin> set (processed_events (tx_view s))" "varchar255 sub" "tx_open s" "faults s = []"
  shows "\<exists>s'. MarkAsProcessed TxCtx i sub s = (None, s') \<and> faults s' = [] \<and> tx_open s' \<and> same_outside s s' \<and>
    tx_view s' = (tx_view s)\<lparr>processed_events := processed_events (tx_view s) @ [(i, sub)]\<rparr>"
proof -
  have "exec_stmt (InsertProcessed i sub) (tx_view s) =
      Inr (1, (tx_view s)\<lparr>processed_events := processed_events (tx_view s) @ [(i, sub)]\<rparr>)"
    using assms(1,2) by simp
  from tx_Exec_nofault [OF assms(4,3) this] show ?thesis by (auto simp: MarkAsProcessed_def)
qed

text \<open>The tables other than \<open>processed_events\<close>.\<close>

definition other_tables :: "db \<Rightarrow> db" where
  "other_tables d = d\<lparr>processed_events := []\<rparr>"

interpretation pg_idemp: idempotency_store WithTransaction committed tx_view tx_open fresh_tx
  IsProcessed MarkAsProcessed "\<lambda>d. set (processed_events d)" other_tables
proof unfold_locales
  fix c i sub and s s' :: "'x session_scheme" and b
  assume "IsProcessed c i sub s = (Inr b, s')"
  then show "b \<longleftrightarrow> (i, sub) \<in> set (processed_events (committed s))" by (rule IsProcessed_ok)
next
  fix c i sub and s s' :: "'x session_scheme" and r
  assume "IsProcessed c i sub s = (r, s')"
  then show "committed s' = committed s" using IsProcessed_frame same_outsideD(1) by blast
next
  fix c i sub and s s' :: "'x session_scheme" and r
  assume "MarkAsProcessed c i sub s = (r, s')"
  then show "committed s' = committed s" using MarkAsProcessed_frame same_outsideD(1) by blast
next
  fix c i sub and s s' :: "'x session_scheme"
  assume "MarkAsProcessed c i sub s = (None, s')" "tx_open s'"
  from MarkAsProcessed_ok [OF this]
  show "(i, sub) \<notin> set (processed_events (tx_view s)) \<and>
    set (processed_events (tx_view s')) = insert (i, sub) (set (processed_events (tx_view s))) \<and>
    other_tables (tx_view s') = other_tables (tx_view s)"
    by (simp add: other_tables_def)
qed

lemma VersionedRepository_GetVersion_frame:
  "VersionedRepository_GetVersion c i s = (r, s') \<Longrightarrow> same_outside s s'"
  by (auto simp: VersionedRepository_GetVersion_def split: prod.splits sum.splits option.splits
      dest: call_frames)

lemma VersionedRepository_GetVersion_ok:
  assumes "VersionedRepository_GetVersion c i s = (Inr v, s')"
  shows "v = (case map_of (versioned_views (committed s)) i of None \<Rightarrow> 0 | Some w \<Rightarrow> w)"
proof -
  let ?q = "\<lambda>d. map_of (versioned_views d) i"
  from assms obtain w where q: "pool_Query ?q s = (Inr w, s')" and v: "v = (case w of None \<Rightarrow> 0 | Some w \<Rightarrow> w)"
    by (auto simp: VersionedRepository_GetVersion_def split: prod.splits sum.splits option.splits)
  from pool_Query_ok [OF q] v show ?thesis by simp
qed

interpretation test_views: versioned_store VersionedRepository_GetVersion committed
  "\<lambda>i d. case map_of (versioned_views d) i of None \<Rightarrow> 0 | Some w \<Rightarrow> w"
  by unfold_locales
     (use VersionedRepository_GetVersion_ok VersionedRepository_GetVersion_frame same_outsideD(1) in blast)+

section \<open>Properties\<close>



end
