(* ===== verification/Projections.thy ===== *)
theory Projections
  imports Idempotency
begin

text \<open>
  \<open>cqrs/projection.go\<close>: the decorator that makes an event handler idempotent, ordered and
  retried, over the interfaces of theory \<open>Idempotency\<close>. The package
  \<open>github.com/cenkalti/backoff/v5\<close> is not code of this repository: its functions \<open>Permanent\<close>
  and \<open>Retry\<close> are the parameters \<open>permanent\<close> and \<open>retry\<close>, and what its documentation says of
  them is the hypothesis \<open>backoff_lib\<close>.
\<close>

section \<open>The decorator\<close>

type_synonym 's operation = "'s \<Rightarrow> error option \<times> 's"
type_synonym 's retry_function = "int \<Rightarrow> 's operation \<Rightarrow> 's operation"

text \<open>The methods of the interfaces, and the function types. A function runs in a state of type \<open>'s\<close>.\<close>

type_synonym 's IsProcessed_method = "ctx \<Rightarrow> uuid \<Rightarrow> string \<Rightarrow> 's \<Rightarrow> (error + bool) \<times> 's"
type_synonym 's MarkAsProcessed_method = "ctx \<Rightarrow> uuid \<Rightarrow> string \<Rightarrow> 's operation"
type_synonym 's GetVersion_method = "ctx \<Rightarrow> uuid \<Rightarrow> 's \<Rightarrow> (error + int) \<times> 's"
type_synonym 's TransactionalHandler = "ctx \<Rightarrow> 's operation"
type_synonym 's WithTransaction_method = "'s TransactionalHandler \<Rightarrow> ctx \<Rightarrow> 's operation"
type_synonym 's ProjectionHandler = "ctx \<Rightarrow> OutboxEvent \<Rightarrow> 's operation"

text \<open>An interface value of the struct is its methods. Durations are in nanoseconds.\<close>

record 's Projection =
  subscriberID :: string
  idemp_IsProcessed :: "'s IsProcessed_method"
  idemp_MarkAsProcessed :: "'s MarkAsProcessed_method"
  version_GetVersion :: "'s GetVersion_method"
  tx_WithTransaction :: "'s WithTransaction_method"
  projection_handler :: "'s ProjectionHandler"
  maxElapsedTime :: int

type_synonym 's ProjectionOption = "'s Projection \<Rightarrow> 's Projection"

definition WithMaxElapsedTime :: "int \<Rightarrow> 's ProjectionOption" where
  "WithMaxElapsedTime d h = h\<lparr>maxElapsedTime := d\<rparr>"

definition NewProjection ::
  "string \<Rightarrow> 's IsProcessed_method \<Rightarrow> 's MarkAsProcessed_method \<Rightarrow> 's GetVersion_method
     \<Rightarrow> 's WithTransaction_method \<Rightarrow> 's ProjectionHandler \<Rightarrow> 's ProjectionOption list \<Rightarrow> 's Projection" where
  "NewProjection sub isP markP getV withTx hdl opts =
     fold (\<lambda>opt h. opt h) opts
       \<lparr>subscriberID = sub, idemp_IsProcessed = isP, idemp_MarkAsProcessed = markP,
        version_GetVersion = getV, tx_WithTransaction = withTx, projection_handler = hdl,
        maxElapsedTime = 60000000000\<rparr>"

text \<open>The function run in the transaction of step 3.\<close>

definition project_tx :: "'s Projection \<Rightarrow> OutboxEvent \<Rightarrow> ctx \<Rightarrow> 's operation" where
  "project_tx h evt txCtx s =
     (case projection_handler h txCtx evt s of
        (Some err, s1) \<Rightarrow> (Some (Wrap ''handler business logic failed'' err), s1)
      | (None, s1) \<Rightarrow>
          (case idemp_MarkAsProcessed h txCtx (oe_EventID evt) (subscriberID h) s1 of
             (Some err, s2) \<Rightarrow> (Some (Wrap ''failed to mark event as processed'' err), s2)
           | (None, s2) \<Rightarrow> (None, s2)))"

text \<open>The closure \<open>operation\<close>.\<close>

definition attempt :: "(error option \<Rightarrow> error option) \<Rightarrow> 's Projection \<Rightarrow> ctx \<Rightarrow> OutboxEvent \<Rightarrow> 's operation" where
  "attempt permanent h ctx evt s =
     (case version_GetVersion h ctx (oe_AggregateID evt) s of
        (Inl err, s1) \<Rightarrow> (Some (Wrap ''failed to get current view version'' err), s1)
      | (Inr currentVersion, s1) \<Rightarrow>
          if oe_Version evt \<le> currentVersion then
            (case tx_WithTransaction h
                    (\<lambda>txCtx. idemp_MarkAsProcessed h txCtx (oe_EventID evt) (subscriberID h)) ctx s1 of
               (r, s2) \<Rightarrow> (permanent r, s2))
          else if oe_Version evt \<noteq> currentVersion + 1 then (permanent (Some ErrOutOfOrderEvent), s1)
          else
            (case tx_WithTransaction h (project_tx h evt) ctx s1 of
               (Some txErr, s2) \<Rightarrow>
                 if errors_Is txErr ContextCanceled then (permanent (Some txErr), s2) else (Some txErr, s2)
             | (None, s2) \<Rightarrow> (None, s2)))"

definition Projection_Handle ::
  "(error option \<Rightarrow> error option) \<Rightarrow> 's retry_function \<Rightarrow> 's Projection \<Rightarrow> ctx \<Rightarrow> OutboxEvent \<Rightarrow> 's operation" where
  "Projection_Handle permanent retry h ctx evt s =
     (case idemp_IsProcessed h ctx (oe_EventID evt) (subscriberID h) s of
        (Inl err, s1) \<Rightarrow> (Some (Wrap ''failed to check for event idempotency'' err), s1)
      | (Inr isProcessed, s1) \<Rightarrow>
          if isProcessed then (None, s1)
          else
            (case retry (maxElapsedTime h) (attempt permanent h ctx evt) s1 of
               (Some err, s2) \<Rightarrow> (Some err, s2)
             | (None, s2) \<Rightarrow> (None, s2)))"

section \<open>The back-off library\<close>

text \<open>
  What \<open>Retry\<close> may do: run the operation until it succeeds, stop at once at a permanent error
  (whose wrapper it may take off), give up at another error, or wait and run it again. While it
  waits, others may change the state as \<open>wait\<close> allows.
\<close>

inductive retry_run ::
  "('s \<Rightarrow> 's \<Rightarrow> bool) \<Rightarrow> 's operation \<Rightarrow> 's \<Rightarrow> error option \<Rightarrow> 's \<Rightarrow> bool"
  for wait :: "'s \<Rightarrow> 's \<Rightarrow> bool" and op :: "'s operation" where
  succeeds: "op s = (None, s') \<Longrightarrow> retry_run wait op s None s'"
| stops: "op s = (Some e, s') \<Longrightarrow> as_Permanent e = Some e0 \<Longrightarrow> e' \<in> {e, e0} \<Longrightarrow>
    retry_run wait op s (Some e') s'"
| gives_up: "op s = (Some e, s') \<Longrightarrow> as_Permanent e = None \<Longrightarrow> retry_run wait op s (Some e') s'"
| again: "op s = (Some e, s1) \<Longrightarrow> as_Permanent e = None \<Longrightarrow> wait s1 s2 \<Longrightarrow>
    retry_run wait op s2 r s' \<Longrightarrow> retry_run wait op s r s'"

definition backoff_lib ::
  "('s \<Rightarrow> 's \<Rightarrow> bool) \<Rightarrow> (error option \<Rightarrow> error option) \<Rightarrow> 's retry_function \<Rightarrow> bool" where
  "backoff_lib wait permanent retry \<longleftrightarrow>
     permanent None = None \<and> (\<forall>e. permanent (Some e) = Some (PermanentError e)) \<and>
     (\<forall>d op s r s'. retry d op s = (r, s') \<longrightarrow> retry_run wait op s r s')"

lemma backoff_libD:
  assumes "backoff_lib wait permanent retry"
  shows "permanent None = None" "permanent (Some e) = Some (PermanentError e)"
    "retry d op s = (r, s') \<Longrightarrow> retry_run wait op s r s'"
  using assms by (auto simp: backoff_lib_def)

text \<open>An operation whose first run ends with success or with a permanent error is run once.\<close>

lemma retry_run_once:
  assumes "retry_run wait op s r s'" "op s = (r0, s1)" "\<And>e. r0 = Some e \<Longrightarrow> as_Permanent e \<noteq> None"
  shows "s' = s1 \<and> (r = None \<longleftrightarrow> r0 = None)"
  using assms(1)
proof cases
  case again
  with assms(2,3) show ?thesis by auto
qed (use assms(2,3) in auto)

lemma retry_run_mono:
  assumes "retry_run wait op s r s'" "\<And>a b. wait a b \<Longrightarrow> wait' a b"
  shows "retry_run wait' op s r s'"
  using assms by (induction rule: retry_run.induct) (auto intro: retry_run.intros)

lemma backoff_lib_mono:
  assumes "backoff_lib wait permanent retry" "\<And>a b. wait a b \<Longrightarrow> wait' a b"
  shows "backoff_lib wait' permanent retry"
  unfolding backoff_lib_def
proof (intro conjI allI impI)
  fix d op s r s'
  assume "retry d op s = (r, s')"
  from retry_run_mono [OF backoff_libD(3) [OF assms(1) this] assms(2)] show "retry_run wait' op s r s'" .
qed (use backoff_libD(1,2) [OF assms(1)] in auto)

text \<open>A library that keeps the hypothesis: a bounded number of attempts with no waiting.\<close>

fun retry_times :: "nat \<Rightarrow> 's operation \<Rightarrow> 's operation" where
  "retry_times n op s =
     (case op s of
        (None, s') \<Rightarrow> (None, s')
      | (Some e, s') \<Rightarrow>
          (case as_Permanent e of
             Some e0 \<Rightarrow> (Some e0, s')
           | None \<Rightarrow> (case n of 0 \<Rightarrow> (Some e, s') | Suc m \<Rightarrow> retry_times m op s')))"

lemmas retry_times_unfold = retry_times.simps
declare retry_times.simps [simp del]

lemma retry_times_run: "retry_times n op s = (r, s') \<Longrightarrow> retry_run (=) op s r s'"
proof (induction n op s rule: retry_times.induct)
  case (1 n op s)
  obtain r0 s0 where op: "op s = (r0, s0)" by fastforce
  show ?case
  proof (cases r0)
    case None
    with 1(2) op show ?thesis by (subst (asm) retry_times_unfold) (auto intro: retry_run.succeeds)
  next
    case (Some e)
    show ?thesis
    proof (cases "as_Permanent e")
      case (Some e0)
      with 1(2) op \<open>r0 = Some e\<close> have "r = Some e0" "s' = s0"
        by (subst (asm) retry_times_unfold, simp)+
      with op \<open>r0 = Some e\<close> Some retry_run.stops [of op s e s0 e0 e0] show ?thesis by simp
    next
      case None
      show ?thesis
      proof (cases n)
        case 0
        with None 1(2) op \<open>r0 = Some e\<close> show ?thesis
          by (subst (asm) retry_times_unfold) (auto intro: retry_run.gives_up)
      next
        case (Suc m)
        with None 1(2) op \<open>r0 = Some e\<close> have "retry_times m op s0 = (r, s')"
          by (subst (asm) retry_times_unfold) simp
        with 1(1) op \<open>r0 = Some e\<close> None Suc have "retry_run (=) op s0 r s'" by auto
        with op \<open>r0 = Some e\<close> None show ?thesis by (blast intro: retry_run.again)
      qed
    qed
  qed
qed

lemma backoff_lib_times: "backoff_lib (=) (map_option PermanentError) (\<lambda>d. retry_times n)"
  by (auto simp: backoff_lib_def retry_times_run)

section \<open>What the decorator promises\<close>

locale projecting =
  idempotency_store withTx durable seen live fresh isProcessed markAsProcessed marks rest +
  versioned_store getVersion durable version
  for withTx :: "(ctx \<Rightarrow> 's operation) \<Rightarrow> ctx \<Rightarrow> 's operation"
    and durable :: "'s \<Rightarrow> 'd" and seen :: "'s \<Rightarrow> 'd" and live :: "'s \<Rightarrow> bool"
    and fresh :: "'s \<Rightarrow> bool"
    and isProcessed :: "ctx \<Rightarrow> uuid \<Rightarrow> string \<Rightarrow> 's \<Rightarrow> (error + bool) \<times> 's"
    and markAsProcessed :: "ctx \<Rightarrow> uuid \<Rightarrow> string \<Rightarrow> 's \<Rightarrow> error option \<times> 's"
    and marks :: "'d \<Rightarrow> (uuid \<times> string) set" and rest :: "'d \<Rightarrow> 'v"
    and getVersion :: "ctx \<Rightarrow> uuid \<Rightarrow> 's \<Rightarrow> (error + int) \<times> 's"
    and version :: "uuid \<Rightarrow> 'd \<Rightarrow> int" +
  assumes version_rest: "rest d = rest d' \<Longrightarrow> version i d = version i d'"
begin

abbreviation proj :: "string \<Rightarrow> (ctx \<Rightarrow> OutboxEvent \<Rightarrow> 's operation) \<Rightarrow> int \<Rightarrow> 's Projection" where
  "proj sub hdl t \<equiv>
     \<lparr>subscriberID = sub, idemp_IsProcessed = isProcessed, idemp_MarkAsProcessed = markAsProcessed,
      version_GetVersion = getVersion, tx_WithTransaction = withTx, projection_handler = hdl,
      maxElapsedTime = t\<rparr>"

abbreviation project :: "string \<Rightarrow> (ctx \<Rightarrow> OutboxEvent \<Rightarrow> 's operation) \<Rightarrow> OutboxEvent \<Rightarrow> ctx \<Rightarrow> 's operation" where
  "project sub hdl \<equiv> project_tx (proj sub hdl 0)"

lemma project_any_time: "project_tx (proj sub hdl t) = project sub hdl"
  by (intro ext) (simp add: project_tx_def split: prod.split option.split)

lemma attempt_cases:
  assumes "attempt permanent (proj sub hdl t) c evt s = (r, s')"
  obtains (no_version) "r \<noteq> None" "durable s' = durable s"
  | (stale) s1 r1 where "oe_Version evt \<le> version (oe_AggregateID evt) (durable s)" "durable s1 = durable s"
      "withTx (\<lambda>txCtx. markAsProcessed txCtx (oe_EventID evt) sub) c s1 = (r1, s')" "r = permanent r1"
  | (gap) "oe_Version evt > version (oe_AggregateID evt) (durable s) + 1"
      "r = permanent (Some ErrOutOfOrderEvent)" "durable s' = durable s"
  | (next_one) s1 r1 where "oe_Version evt = version (oe_AggregateID evt) (durable s) + 1"
      "durable s1 = durable s" "withTx (project sub hdl evt) c s1 = (r1, s')"
      "r = r1 \<or> (\<exists>e. r1 = Some e \<and> r = permanent (Some e))"
proof -
  obtain v s1 where s1: "getVersion c (oe_AggregateID evt) s = (v, s1)" by fastforce
  note fr = getVersion_frame [OF s1]
  show thesis
  proof (cases v)
    case (Inl e)
    with assms s1 fr no_version show thesis by (auto simp: attempt_def)
  next
    case (Inr cur)
    have cur: "cur = version (oe_AggregateID evt) (durable s)" using getVersion_ok s1 Inr by blast
    consider "oe_Version evt \<le> cur" | "oe_Version evt > cur + 1" | "oe_Version evt = cur + 1" by linarith
    then show thesis
    proof cases
      case 1
      obtain r1 s2 where "withTx (\<lambda>txCtx. markAsProcessed txCtx (oe_EventID evt) sub) c s1 = (r1, s2)"
        by fastforce
      with 1 assms s1 fr Inr cur show thesis by (intro stale [of s1 r1]) (auto simp: attempt_def)
    next
      case 2
      with assms s1 fr Inr cur show thesis by (intro gap) (auto simp: attempt_def)
    next
      case 3
      obtain r1 s2 where tx: "withTx (project sub hdl evt) c s1 = (r1, s2)" by fastforce
      have "s' = s2 \<and> (r = r1 \<or> (\<exists>e. r1 = Some e \<and> r = permanent (Some e)))"
        using 3 assms s1 Inr tx by (cases r1) (auto simp: attempt_def project_any_time [of sub hdl t] split: if_splits)
      with 3 fr cur tx show thesis by (intro next_one [of s1 r1]) simp_all
    qed
  qed
qed

text \<open>An attempt that returns \<open>nil\<close> has recorded the event.\<close>

lemma project_marks:
  assumes "withTx (project sub hdl evt) c s = (None, s')"
  shows "(oe_EventID evt, sub) \<in> marks (durable s')"
proof -
  from tx_ok [OF assms] obtain s1 s2 where
    "project sub hdl evt TxCtx s1 = (None, s2)" and l: "live s2" and s': "durable s' = seen s2" by blast
  then obtain s3 where "markAsProcessed TxCtx (oe_EventID evt) sub s3 = (None, s2)"
    by (auto simp: project_tx_def split: prod.splits option.splits)
  from mark_ok [OF this l] s' show ?thesis by simp
qed

lemma attempt_marks:
  assumes "attempt permanent (proj sub hdl t) c evt s = (None, s')" "backoff_lib wait permanent retry"
  shows "(oe_EventID evt, sub) \<in> marks (durable s')"
  using assms(1)
proof (cases rule: attempt_cases)
  case (stale s1 r1)
  with backoff_libD(1,2) [OF assms(2)] have "r1 = None" by (cases r1) auto
  with stale mark_alone_ok(1) show ?thesis by blast
next
  case (next_one s1 r1)
  with backoff_libD(2) [OF assms(2)] have "r1 = None" by auto
  with next_one project_marks show ?thesis by blast
qed (use backoff_libD(2) [OF assms(2)] in auto)

lemma retry_marks:
  assumes "retry_run wait (attempt permanent (proj sub hdl t) c evt) s r s'"
    and "backoff_lib wait permanent retry" "r = None"
  shows "(oe_EventID evt, sub) \<in> marks (durable s')"
  using assms
proof (induction rule: retry_run.induct)
  case succeeds
  then show ?case using attempt_marks by blast
qed auto

lemma Handle_cases:
  assumes "Projection_Handle permanent retry (proj sub hdl t) c evt s = (r, s')"
    and "backoff_lib wait permanent retry"
  obtains (unknown) "r \<noteq> None" "durable s' = durable s"
  | (duplicate) "r = None" "(oe_EventID evt, sub) \<in> marks (durable s)" "durable s' = durable s"
  | (fresh) s1 where "(oe_EventID evt, sub) \<notin> marks (durable s)" "durable s1 = durable s"
      "retry_run wait (attempt permanent (proj sub hdl t) c evt) s1 r s'"
proof -
  obtain b s1 where s1: "isProcessed c (oe_EventID evt) sub s = (b, s1)" by fastforce
  note fr = isProcessed_frame [OF s1]
  show thesis
  proof (cases b)
    case (Inl e)
    with assms s1 fr unknown show thesis by (auto simp: Projection_Handle_def)
  next
    case (Inr x)
    have x: "x \<longleftrightarrow> (oe_EventID evt, sub) \<in> marks (durable s)" using isProcessed_ok s1 Inr by blast
    show thesis
    proof (cases x)
      case True
      with assms s1 fr Inr x show thesis by (intro duplicate) (auto simp: Projection_Handle_def)
    next
      case False
      obtain r2 s2 where rt: "retry t (attempt permanent (proj sub hdl t) c evt) s1 = (r2, s2)" by fastforce
      with False assms(1) s1 Inr have "(r, s') = (r2, s2)"
        by (cases r2) (auto simp: Projection_Handle_def)
      with rt backoff_libD(3) [OF assms(2) rt] False x fr show thesis by (intro fresh [of s1]) auto
    qed
  qed
qed

text \<open>An event that is recorded already changes nothing.\<close>

lemma Handle_duplicate:
  assumes "Projection_Handle permanent retry (proj sub hdl t) c evt s = (r, s')"
    and "backoff_lib wait permanent retry" "(oe_EventID evt, sub) \<in> marks (durable s)"
  shows "durable s' = durable s"
  using assms(1,2) by (cases rule: Handle_cases) (use assms(3) in blast)+

text \<open>A \<open>nil\<close> result means that the event is recorded as processed for the subscriber.\<close>

lemma Handle_marks:
  assumes "Projection_Handle permanent retry (proj sub hdl t) c evt s = (None, s')"
    and "backoff_lib wait permanent retry"
  shows "(oe_EventID evt, sub) \<in> marks (durable s')"
  using assms
proof (cases rule: Handle_cases)
  case (fresh s1)
  then show ?thesis using retry_marks assms(2) by blast
qed auto

text \<open>
  Invariants. What the handler keeps when it is called with the next event of an aggregate, and
  one more mark does not disturb, survives any number of attempts, failures included.
\<close>

definition handler_keeps :: "('d \<Rightarrow> bool) \<Rightarrow> (ctx \<Rightarrow> OutboxEvent \<Rightarrow> 's operation) \<Rightarrow> OutboxEvent \<Rightarrow> bool" where
  "handler_keeps P hdl evt \<longleftrightarrow>
     (\<forall>s r s'. hdl TxCtx evt s = (r, s') \<longrightarrow> P (durable s) \<longrightarrow> fresh s \<longrightarrow>
        oe_Version evt = version (oe_AggregateID evt) (durable s) + 1 \<longrightarrow>
        P (durable s') \<and> (r = None \<longrightarrow> P (seen s')))"

definition marks_stable :: "('d \<Rightarrow> bool) \<Rightarrow> bool" where
  "marks_stable P \<longleftrightarrow>
     (\<forall>d d' m. rest d' = rest d \<longrightarrow> marks d' = insert m (marks d) \<longrightarrow> P d \<longrightarrow> P d')"

lemma project_keeps:
  assumes "project sub hdl evt TxCtx s = (r, s')" "P (durable s)" "fresh s"
    and "oe_Version evt = version (oe_AggregateID evt) (durable s) + 1"
    and "handler_keeps P hdl evt" "marks_stable P"
  shows "P (durable s') \<and> (r = None \<longrightarrow> live s' \<longrightarrow> P (seen s'))"
proof -
  obtain r1 s1 where s1: "hdl TxCtx evt s = (r1, s1)" by fastforce
  with assms(2-5) have k: "P (durable s1)" "r1 = None \<longrightarrow> P (seen s1)"
    unfolding handler_keeps_def by blast+
  obtain r2 s2 where s2: "markAsProcessed TxCtx (oe_EventID evt) sub s1 = (r2, s2)" by fastforce
  note fr = mark_frame [OF s2]
  have "P (seen s2)" if "r1 = None" "r2 = None" "live s2"
    using mark_ok [OF s2 [unfolded that(2)] that(3)] k(2) that(1) assms(6) unfolding marks_stable_def by blast
  with assms(1) s1 s2 fr k show ?thesis
    by (auto simp: project_tx_def split: option.splits)
qed

lemma attempt_keeps:
  assumes "attempt permanent (proj sub hdl t) c evt s = (r, s')" "P (durable s)"
    and "handler_keeps P hdl evt" "marks_stable P"
  shows "P (durable s')"
  using assms(1)
proof (cases rule: attempt_cases)
  case (stale s1 r1)
  from mark_alone [OF stale(3)] show ?thesis
    using stale(2) assms(2,4) unfolding marks_stable_def by metis
next
  case (next_one s1 r1)
  have keep: "P (durable s3) \<and> (r = None \<longrightarrow> live s3 \<longrightarrow> P (seen s3))"
    if "project sub hdl evt TxCtx s2 = (r, s3)" "durable s2 = durable s1" "fresh s2" for s2 r s3
    using project_keeps [OF that(1) _ that(3)] that(2) next_one(1,2) assms(2-4) by simp
  show ?thesis
  proof (cases r1)
    case None
    with next_one(3) tx_ok keep show ?thesis by metis
  next
    case (Some e)
    with next_one(2,3) tx_error [of "project sub hdl evt" c s1 e s'] keep assms(2) show ?thesis by metis
  qed
qed (use assms(2) in auto)

lemma retry_keeps:
  assumes "retry_run wait (attempt permanent (proj sub hdl t) c evt) s r s'" "P (durable s)"
    and "\<And>s s'. wait s s' \<Longrightarrow> P (durable s) \<Longrightarrow> P (durable s')"
    and "handler_keeps P hdl evt" "marks_stable P"
  shows "P (durable s')"
  using assms
proof (induction rule: retry_run.induct)
  case (again s e s1 s2 r s')
  from again.hyps(1) again.prems(1,3,4) have "P (durable s1)" by (rule attempt_keeps)
  with again show ?case by blast
qed (blast intro: attempt_keeps)+

lemma Handle_keeps:
  assumes "Projection_Handle permanent retry (proj sub hdl t) c evt s = (r, s')"
    and "backoff_lib wait permanent retry" "P (durable s)"
    and "\<And>s s'. wait s s' \<Longrightarrow> P (durable s) \<Longrightarrow> P (durable s')"
    and "handler_keeps P hdl evt" "marks_stable P"
  shows "P (durable s')"
  using assms(1,2)
proof (cases rule: Handle_cases)
  case (fresh s1)
  then show ?thesis using retry_keeps [OF fresh(3)] assms(3-) by metis
qed (use assms(3) in simp_all)

text \<open>
  An event that is not the next one of its aggregate changes nothing but the marks, whatever
  the handler does: the handler is not called.
\<close>

lemma Handle_not_next:
  assumes "Projection_Handle permanent retry (proj sub hdl t) c evt s = (r, s')"
    and "backoff_lib wait permanent retry" "\<And>s s'. wait s s' \<Longrightarrow> durable s' = durable s"
    and "oe_Version evt \<noteq> version (oe_AggregateID evt) (durable s) + 1"
  shows "rest (durable s') = rest (durable s)"
proof (rule Handle_keeps [OF assms(1,2), where P = "\<lambda>d. rest d = rest (durable s)"])
  show "handler_keeps (\<lambda>d. rest d = rest (durable s)) hdl evt"
    unfolding handler_keeps_def using assms(4) version_rest by metis
qed (auto simp: marks_stable_def assms(3))

text \<open>An event from beyond the next version is refused and leaves no trace.\<close>

lemma attempt_gap:
  assumes "attempt permanent (proj sub hdl t) c evt s = (r, s')"
    and "oe_Version evt > version (oe_AggregateID evt) (durable s) + 1" "backoff_lib wait permanent retry"
  shows "r \<noteq> None \<and> durable s' = durable s"
  using assms(1) by (cases rule: attempt_cases) (use assms(2) backoff_libD(2) [OF assms(3)] in auto)

lemma Handle_gap:
  assumes "Projection_Handle permanent retry (proj sub hdl t) c evt s = (r, s')"
    and "backoff_lib wait permanent retry" "\<And>s s'. wait s s' \<Longrightarrow> durable s' = durable s"
    and "oe_Version evt > version (oe_AggregateID evt) (durable s) + 1"
    and "(oe_EventID evt, sub) \<notin> marks (durable s)"
  shows "r \<noteq> None \<and> durable s' = durable s"
  using assms(1,2)
proof (cases rule: Handle_cases)
  case (fresh s1)
  have "r \<noteq> None \<and> durable s' = d" if "retry_run wait (attempt permanent (proj sub hdl t) c evt) s1 r s'"
    "durable s1 = d" "oe_Version evt > version (oe_AggregateID evt) d + 1" for d
    using that
  proof (induction rule: retry_run.induct)
    case (again s e s1 s2 r s')
    then show ?case using attempt_gap assms(2,3) by metis
  qed (use attempt_gap assms(2) in blast)+
  with fresh assms(4) show ?thesis by simp
qed (use assms(5) in auto)

text \<open>
  The effect of a handler that writes only through its transaction is committed together with
  the mark, or not at all.
\<close>

lemma attempt_atomic:
  assumes "attempt permanent (proj sub hdl t) c evt s = (r, s')"
    and inside: "\<And>s r s'. hdl TxCtx evt s = (r, s') \<Longrightarrow> durable s' = durable s"
  shows "durable s' = durable s \<or> (oe_EventID evt, sub) \<in> marks (durable s')"
  using assms(1)
proof (cases rule: attempt_cases)
  case (stale s1 r1)
  with mark_alone [OF stale(3)] show ?thesis by auto
next
  case (next_one s1 r1)
  have keep: "durable s3 = durable s2" if run: "project sub hdl evt TxCtx s2 = (r, s3)" for s2 r s3
  proof -
    obtain r4 s4 where s4: "hdl TxCtx evt s2 = (r4, s4)" by fastforce
    obtain r5 s5 where s5: "markAsProcessed TxCtx (oe_EventID evt) sub s4 = (r5, s5)" by fastforce
    from run s4 s5 have "s3 = s4 \<or> s3 = s5"
      by (cases r4; cases r5) (auto simp: project_tx_def)
    with inside [OF s4] mark_frame [OF s5] show ?thesis by auto
  qed
  have marks: "(oe_EventID evt, sub) \<in> marks (seen s3)"
    if "project sub hdl evt TxCtx s2 = (None, s3)" "live s3" for s2 s3
  proof -
    from that(1) obtain s4 where "markAsProcessed TxCtx (oe_EventID evt) sub s4 = (None, s3)"
      by (auto simp: project_tx_def split: prod.splits option.splits)
    from mark_ok [OF this that(2)] show ?thesis by simp
  qed
  from tx_atomic [OF next_one(3) keep] next_one(2) marks show ?thesis by fastforce
qed auto

lemma Handle_atomic:
  assumes "Projection_Handle permanent retry (proj sub hdl t) c evt s = (r, s')"
    and "backoff_lib wait permanent retry" "\<And>s s'. wait s s' \<Longrightarrow> durable s' = durable s"
    and inside: "\<And>s r s'. hdl TxCtx evt s = (r, s') \<Longrightarrow> durable s' = durable s"
  shows "durable s' = durable s \<or> (oe_EventID evt, sub) \<in> marks (durable s')"
  using assms(1,2)
proof (cases rule: Handle_cases)
  case (fresh s1)
  have "durable s' = d \<or> (oe_EventID evt, sub) \<in> marks (durable s')"
    if "retry_run wait (attempt permanent (proj sub hdl t) c evt) s1 r s'"
      "durable s1 = d \<or> (oe_EventID evt, sub) \<in> marks (durable s1)" for d
    using that
  proof (induction rule: retry_run.induct)
    case (again s e s1 s2 r s')
    from attempt_atomic [OF again.hyps(1) inside] again.prems assms(3) [OF again.hyps(3)]
    have "durable s2 = d \<or> (oe_EventID evt, sub) \<in> marks (durable s2)" by auto
    then show ?case by (rule again.IH)
  qed (use attempt_atomic [OF _ inside] in fastforce)+
  with fresh show ?thesis by blast
qed auto

end

end
