(* ===== verification/Product_View.thy ===== *)
theory Product_View
  imports Projections
begin

text \<open>
  The read side of the sample: \<open>sample/query/view\<close>, \<open>sample/query/repository\<close>,
  \<open>sample/query/projection\<close> and \<open>sample/query/query\<close>, wired together as in \<open>sample/main.go\<close>.

  The column \<open>price\<close> has type \<open>INT\<close> while the struct has a \<open>float64\<close>. How the driver sends a
  \<open>float64\<close> to such a column and how it reads one back is code of \<open>pgx\<close>: the parameters
  \<open>enc :: float64 \<Rightarrow> error + int\<close> and \<open>dec :: int \<Rightarrow> error + float64\<close>.
\<close>

section \<open>\<open>sample/query/repository\<close>\<close>

record ProductView =
  pv_ID :: uuid
  pv_Name :: string
  pv_Price :: float64
  pv_CreatedAt :: time
  pv_UpdatedAt :: time
  pv_Version :: int

definition view_of :: "uuid \<Rightarrow> db \<Rightarrow> view_row option" where
  "view_of i d = find (\<lambda>r. vr_id r = i) (product_views d)"

definition ProductViewRepository_GetVersion ::
  "ctx \<Rightarrow> uuid \<Rightarrow> 'x session_scheme \<Rightarrow> (error + int) \<times> 'x session_scheme" where
  "ProductViewRepository_GetVersion ctx aggregateID s =
     (case pool_Query (view_of aggregateID) s of
        (Inl err, s1) \<Rightarrow> (Inl (Wrap ''failed to get product view version'' err), s1)
      | (Inr None, s1) \<Rightarrow> (Inr 0, s1)
      | (Inr (Some row), s1) \<Rightarrow> (Inr (vr_version row), s1))"

text \<open>An argument that cannot be encoded for its column is refused before the statement is sent.\<close>

definition SaveProductView ::
  "(float64 \<Rightarrow> error + int) \<Rightarrow> ctx \<Rightarrow> ProductView \<Rightarrow> 'x session_scheme \<Rightarrow> error option \<times> 'x session_scheme" where
  "SaveProductView enc ctx view s =
     (case enc (pv_Price view) of
        Inl err \<Rightarrow> (Some (Wrap ''failed to save product view'' err), s)
      | Inr price \<Rightarrow>
          (case pool_Exec (UpsertView \<lparr>vr_id = pv_ID view, vr_name = pv_Name view, vr_price = price,
                     vr_version = pv_Version view, vr_created_at = pv_CreatedAt view,
                     vr_updated_at = pv_UpdatedAt view\<rparr>) s of
             (Inl err, s1) \<Rightarrow> (Some (Wrap ''failed to save product view'' err), s1)
           | (Inr _, s1) \<Rightarrow> (None, s1)))"

definition UpdateProductView ::
  "(float64 \<Rightarrow> error + int) \<Rightarrow> ctx \<Rightarrow> ProductView \<Rightarrow> 'x session_scheme \<Rightarrow> error option \<times> 'x session_scheme" where
  "UpdateProductView enc ctx view s =
     (case enc (pv_Price view) of
        Inl err \<Rightarrow> (Some (Wrap ''failed to update product view'' err), s)
      | Inr price \<Rightarrow>
          (case pool_Exec (UpdateView (pv_ID view) (pv_Name view) price (pv_Version view) (pv_UpdatedAt view)) s of
             (Inl err, s1) \<Rightarrow> (Some (Wrap ''failed to update product view'' err), s1)
           | (Inr _, s1) \<Rightarrow> (None, s1)))"

definition GetProductViewByID ::
  "(int \<Rightarrow> error + float64) \<Rightarrow> ctx \<Rightarrow> uuid \<Rightarrow> 'x session_scheme
     \<Rightarrow> (error + ProductView option) \<times> 'x session_scheme" where
  "GetProductViewByID dec ctx aggregateID s =
     (case pool_Query (view_of aggregateID) s of
        (Inl err, s1) \<Rightarrow> (Inl (Wrap ''failed to get product view by ID'' err), s1)
      | (Inr None, s1) \<Rightarrow> (Inr None, s1)
      | (Inr (Some row), s1) \<Rightarrow>
          (case dec (vr_price row) of
             Inl err \<Rightarrow> (Inl (Wrap ''failed to get product view by ID'' err), s1)
           | Inr price \<Rightarrow>
               (Inr (Some \<lparr>pv_ID = vr_id row, pv_Name = vr_name row, pv_Price = price,
                           pv_CreatedAt = vr_created_at row, pv_UpdatedAt = vr_updated_at row,
                           pv_Version = vr_version row\<rparr>), s1)))"

section \<open>\<open>sample/query/query\<close>\<close>

record GetProductByID =
  gp_ID :: uuid

definition GetProductByIDHandler_Query ::
  "(int \<Rightarrow> error + float64) \<Rightarrow> ctx \<Rightarrow> GetProductByID \<Rightarrow> 'x session_scheme
     \<Rightarrow> (error + ProductView) \<times> 'x session_scheme" where
  "GetProductByIDHandler_Query dec ctx query s =
     (case GetProductViewByID dec ctx (gp_ID query) s of
        (Inl err, s1) \<Rightarrow> (Inl (Wrap ''get product view by id failed'' err), s1)
      | (Inr None, s1) \<Rightarrow> (Inl (Wrap ''product not found'' ErrorProductNotFound), s1)
      | (Inr (Some productView), s1) \<Rightarrow> (Inr productView, s1))"

section \<open>\<open>sample/query/projection\<close>\<close>

text \<open>An error of the repository is logged and the method goes on to return \<open>nil\<close>.\<close>

definition handleProductCreated ::
  "(float64 \<Rightarrow> error + int) \<Rightarrow> ctx \<Rightarrow> OutboxEvent \<Rightarrow> 'x session_scheme \<Rightarrow> error option \<times> 'x session_scheme" where
  "handleProductCreated enc ctx evt s =
     (case unmarshal_body (oe_Payload evt) zero_body of
        Inl err \<Rightarrow> (Some (Wrap ''failed to unmarshal ProductCreated event'' err), s)
      | Inr productCreatedEvt \<Rightarrow>
          (case SaveProductView enc ctx
                  \<lparr>pv_ID = AggID (Base productCreatedEvt), pv_Name = Name productCreatedEvt,
                   pv_Price = Price productCreatedEvt, pv_CreatedAt = oe_Ts evt,
                   pv_UpdatedAt = oe_Ts evt, pv_Version = oe_Version evt\<rparr> s of
             (_, s1) \<Rightarrow> (None, s1)))"

definition handleProductUpdated ::
  "(float64 \<Rightarrow> error + int) \<Rightarrow> ctx \<Rightarrow> OutboxEvent \<Rightarrow> 'x session_scheme \<Rightarrow> error option \<times> 'x session_scheme" where
  "handleProductUpdated enc ctx evt s =
     (case unmarshal_body (oe_Payload evt) zero_body of
        Inl err \<Rightarrow> (Some (Wrap ''failed to unmarshal ProductUpdated event'' err), s)
      | Inr productUpdatedEvt \<Rightarrow>
          (case UpdateProductView enc ctx
                  \<lparr>pv_ID = AggID (Base productUpdatedEvt), pv_Name = Name productUpdatedEvt,
                   pv_Price = Price productUpdatedEvt, pv_CreatedAt = 0,
                   pv_UpdatedAt = oe_Ts evt, pv_Version = oe_Version evt\<rparr> s of
             (_, s1) \<Rightarrow> (None, s1)))"

definition ProductProjectionHandler_Handle ::
  "(float64 \<Rightarrow> error + int) \<Rightarrow> ctx \<Rightarrow> OutboxEvent \<Rightarrow> 'x session_scheme \<Rightarrow> error option \<times> 'x session_scheme" where
  "ProductProjectionHandler_Handle enc ctx evt s =
     (if oe_EventType evt = ProductCreatedEventType then handleProductCreated enc ctx evt s
      else if oe_EventType evt = ProductUpdatedEventType then handleProductUpdated enc ctx evt s
      else (None, s))"

text \<open>The projection that \<open>main\<close> subscribes to the topic \<open>products\<close>.\<close>

definition productProjection :: "(float64 \<Rightarrow> error + int) \<Rightarrow> 'x session_scheme Projection" where
  "productProjection enc =
     NewProjection ''ProductProjection'' IsProcessed MarkAsProcessed ProductViewRepository_GetVersion
       WithTransaction (ProductProjectionHandler_Handle enc) []"

declare ProductProjectionHandler_Handle_def [handler_defs] handleProductCreated_def [handler_defs]
  handleProductUpdated_def [handler_defs] SaveProductView_def [handler_defs] UpdateProductView_def [handler_defs]

section \<open>The view as a versioned store\<close>

definition view_version :: "uuid \<Rightarrow> db \<Rightarrow> int" where
  "view_version i d = (case view_of i d of None \<Rightarrow> 0 | Some row \<Rightarrow> vr_version row)"

lemma GetVersion_frame:
  "ProductViewRepository_GetVersion c i s = (r, s') \<Longrightarrow> same_outside s s' \<and> cur_tx s' = cur_tx s"
  by (auto simp: ProductViewRepository_GetVersion_def split: prod.splits sum.splits option.splits
      dest: call_frames)

lemma GetVersion_ok:
  assumes "ProductViewRepository_GetVersion c i s = (Inr v, s')"
  shows "v = view_version i (committed s)"
proof -
  from assms obtain w where q: "pool_Query (view_of i) s = (Inr w, s')"
    and v: "v = (case w of None \<Rightarrow> 0 | Some row \<Rightarrow> vr_version row)"
    by (auto simp: ProductViewRepository_GetVersion_def split: prod.splits sum.splits option.splits)
  from pool_Query_ok [OF q] v show ?thesis by (simp add: view_version_def)
qed

lemma GetVersion_nofault:
  "faults s = [] \<Longrightarrow> ProductViewRepository_GetVersion c i s = (Inr (view_version i (committed s)), s)"
  by (auto simp: ProductViewRepository_GetVersion_def view_version_def split: option.split)

interpretation product_view: versioned_store ProductViewRepository_GetVersion committed view_version
  by unfold_locales (use GetVersion_ok GetVersion_frame same_outsideD(1) in blast)+

lemma view_version_other: "other_tables d = other_tables d' \<Longrightarrow> view_version i d = view_version i d'"
proof -
  assume "other_tables d = other_tables d'"
  then have "product_views d = product_views d'" by (cases d, cases d') (simp add: other_tables_def)
  then show ?thesis by (simp add: view_version_def view_of_def)
qed

interpretation pg_projection: projecting WithTransaction committed tx_view tx_open fresh_tx
  IsProcessed MarkAsProcessed "\<lambda>d. set (processed_events d)" other_tables
  ProductViewRepository_GetVersion view_version
  by unfold_locales (rule view_version_other)

interpretation test_projection: projecting WithTransaction committed tx_view tx_open fresh_tx
  IsProcessed MarkAsProcessed "\<lambda>d. set (processed_events d)" other_tables
  VersionedRepository_GetVersion "\<lambda>i d. case map_of (versioned_views d) i of None \<Rightarrow> 0 | Some w \<Rightarrow> w"
proof unfold_locales
  fix d d' :: db and i
  assume "other_tables d = other_tables d'"
  then have "versioned_views d = versioned_views d'" by (cases d, cases d') (simp add: other_tables_def)
  then show "(case map_of (versioned_views d) i of None \<Rightarrow> 0 | Some w \<Rightarrow> w) =
    (case map_of (versioned_views d') i of None \<Rightarrow> 0 | Some w \<Rightarrow> w)" by simp
qed

lemma productProjection_eq:
  "productProjection enc =
     pg_projection.proj ''ProductProjection'' (ProductProjectionHandler_Handle enc) 60000000000"
  by (simp add: productProjection_def NewProjection_def)

lemma productProjection_sel [simp]:
  "subscriberID (productProjection enc) = ''ProductProjection''"
  "idemp_IsProcessed (productProjection enc) = IsProcessed"
  "idemp_MarkAsProcessed (productProjection enc) = MarkAsProcessed"
  "version_GetVersion (productProjection enc) = ProductViewRepository_GetVersion"
  "tx_WithTransaction (productProjection enc) = WithTransaction"
  "projection_handler (productProjection enc) = ProductProjectionHandler_Handle enc"
  "maxElapsedTime (productProjection enc) = 60000000000"
  by (simp_all add: productProjection_eq)

end
