(* ===== verification/View_Consistency.thy ===== *)
theory View_Consistency
  imports Product_View
begin

text \<open>
  The view under any sequence of deliveries: in any order, with repetitions, and with any faults
  of the database. Every row of the view always shows the event of its version.
\<close>

section \<open>What the handler does to the tables\<close>

definition event_data :: "OutboxEvent \<Rightarrow> event_body" where
  "event_data e = projr (unmarshal_body (oe_Payload e) zero_body)"

text \<open>An event whose payload decodes and names the aggregate of its envelope.\<close>

definition good_event :: "OutboxEvent \<Rightarrow> bool" where
  "good_event e \<longleftrightarrow> (\<exists>b. unmarshal_body (oe_Payload e) zero_body = Inr b \<and> AggID (Base b) = oe_AggregateID e)"

lemma good_event_data:
  "good_event e \<Longrightarrow> unmarshal_body (oe_Payload e) zero_body = Inr (event_data e) \<and>
     AggID (Base (event_data e)) = oe_AggregateID e"
  by (auto simp: good_event_def event_data_def)

text \<open>The statement that an event stands for, if its price fits the column.\<close>

definition view_stmt :: "(float64 \<Rightarrow> error + int) \<Rightarrow> OutboxEvent \<Rightarrow> stmt option" where
  "view_stmt enc e =
     (case enc (Price (event_data e)) of
        Inl _ \<Rightarrow> None
      | Inr p \<Rightarrow>
          if oe_EventType e = ProductCreatedEventType
          then Some (UpsertView \<lparr>vr_id = oe_AggregateID e, vr_name = Name (event_data e), vr_price = p,
                 vr_version = oe_Version e, vr_created_at = oe_Ts e, vr_updated_at = oe_Ts e\<rparr>)
          else if oe_EventType e = ProductUpdatedEventType
          then Some (UpdateView (oe_AggregateID e) (Name (event_data e)) p (oe_Version e) (oe_Ts e))
          else None)"

text \<open>
  The handler returns \<open>nil\<close> for every good event, whether or not its statement was executed: the
  session is either left alone or the result of the statement is forgotten.
\<close>

lemma handler_result:
  assumes "good_event e" "ProductProjectionHandler_Handle enc c e s = (r, s')"
  shows "r = None \<and>
    s' = (case view_stmt enc e of None \<Rightarrow> s | Some st \<Rightarrow> snd (pool_Exec st s))"
  using good_event_data [OF assms(1)] assms(2)
  by (auto simp: handler_defs view_stmt_def
      split: if_splits sum.splits prod.splits)

lemma pool_Exec_effect:
  "pool_Exec st s = (r, s') \<Longrightarrow> committed s' = committed s \<or> committed s' = run_stmt st (committed s)"
  by (cases r) (auto simp: run_stmt_def dest: pool_Exec_ok pool_Exec_error)

lemma handler_effect:
  assumes "good_event e" "ProductProjectionHandler_Handle enc c e s = (r, s')"
  obtains "committed s' = committed s" "cur_tx s' = cur_tx s"
  | st where "view_stmt enc e = Some st" "committed s' = run_stmt st (committed s)" "cur_tx s' = cur_tx s"
proof (cases "view_stmt enc e")
  case None
  with handler_result [OF assms] that(1) show thesis by simp
next
  case (Some st)
  obtain r1 s1 where x: "pool_Exec st s = (r1, s1)" by fastforce
  with Some handler_result [OF assms] have "s' = s1" by simp
  with Some pool_Exec_effect [OF x] pool_Exec_frame [OF x] that show thesis by auto
qed

section \<open>The invariant of the view\<close>

definition row_shows :: "(float64 \<Rightarrow> error + int) \<Rightarrow> OutboxEvent \<Rightarrow> view_row \<Rightarrow> bool" where
  "row_shows enc e r \<longleftrightarrow> oe_AggregateID e = vr_id r \<and> oe_Version e = vr_version r \<and>
     vr_name r = Name (event_data e) \<and> enc (Price (event_data e)) = Inr (vr_price r) \<and>
     vr_updated_at r = oe_Ts e"

definition row_created_by :: "OutboxEvent \<Rightarrow> view_row \<Rightarrow> bool" where
  "row_created_by e r \<longleftrightarrow> oe_AggregateID e = vr_id r \<and> oe_Version e = 1 \<and>
     oe_EventType e = ProductCreatedEventType \<and> vr_created_at r = oe_Ts e"

definition view_inv :: "(float64 \<Rightarrow> error + int) \<Rightarrow> OutboxEvent set \<Rightarrow> db \<Rightarrow> bool" where
  "view_inv enc evs d \<longleftrightarrow>
     distinct (map vr_id (product_views d)) \<and>
     (\<forall>r \<in> set (product_views d). (\<exists>e \<in> evs. row_shows enc e r) \<and> (\<exists>e \<in> evs. row_created_by e r))"

lemma view_of_iff:
  assumes "distinct (map vr_id (product_views d))"
  shows "view_of i d = Some r \<longleftrightarrow> r \<in> set (product_views d) \<and> vr_id r = i"
  using assms by (auto simp: view_of_def find_Some_iff in_set_conv_nth distinct_conv_nth)

lemma view_of_None_iff: "view_of i d = None \<longleftrightarrow> (\<forall>r \<in> set (product_views d). vr_id r \<noteq> i)"
  by (auto simp: view_of_def find_None_iff)

lemma view_inv_update:
  assumes "view_inv enc evs d" "e \<in> evs"
    and "\<And>x. vr_id (f x) = vr_id x \<and> vr_created_at (f x) = vr_created_at x"
    and "\<And>x. f x = x \<or> row_shows enc e (f x)"
  shows "view_inv enc evs (d\<lparr>product_views := map f (product_views d)\<rparr>)"
proof -
  have "map vr_id (map f (product_views d)) = map vr_id (product_views d)" using assms(3) by simp
  then have "distinct (map vr_id (map f (product_views d)))"
    using assms(1) unfolding view_inv_def by (simp only:)
  moreover have "row_created_by e' (f x) = row_created_by e' x" for e' x
    using assms(3) by (simp add: row_created_by_def)
  moreover have "\<exists>e \<in> evs. row_shows enc e (f x)" if "x \<in> set (product_views d)" for x
    using that assms(1,2) assms(4) [of x] by (auto simp: view_inv_def)
  ultimately show ?thesis using assms(1) by (auto simp: view_inv_def)
qed

lemma view_inv_insert:
  assumes "view_inv enc evs d" "e \<in> evs" "row_shows enc e row" "row_created_by e row"
    and "\<forall>x \<in> set (product_views d). vr_id x \<noteq> vr_id row"
  shows "view_inv enc evs (d\<lparr>product_views := product_views d @ [row]\<rparr>)"
  using assms by (auto simp: view_inv_def)

lemma run_stmt_view_inv:
  assumes "view_inv enc evs d" "e \<in> evs" "view_stmt enc e = Some st"
    and "oe_Version e = view_version (oe_AggregateID e) d + 1"
  shows "view_inv enc evs (run_stmt st d)"
proof -
  obtain p where p: "enc (Price (event_data e)) = Inr p"
    using assms(3) by (auto simp: view_stmt_def split: sum.splits)
  define row where "row = \<lparr>vr_id = oe_AggregateID e, vr_name = Name (event_data e), vr_price = p,
        vr_version = oe_Version e, vr_created_at = oe_Ts e, vr_updated_at = oe_Ts e\<rparr>"
  define upd where "upd = (\<lambda>x :: view_row. if vr_id x = oe_AggregateID e
      then x\<lparr>vr_name := Name (event_data e), vr_price := p, vr_version := oe_Version e,
             vr_updated_at := oe_Ts e\<rparr> else x)"
  have updated: "view_inv enc evs (d\<lparr>product_views := map upd (product_views d)\<rparr>)"
    by (rule view_inv_update [OF assms(1,2)]) (use p in \<open>auto simp: upd_def row_shows_def\<close>)
  have inserted: "view_inv enc evs (d\<lparr>product_views := product_views d @ [row]\<rparr>)"
    if "\<forall>x \<in> set (product_views d). vr_id x \<noteq> oe_AggregateID e" "oe_EventType e = ProductCreatedEventType"
  proof (rule view_inv_insert [OF assms(1,2)])
    from that(1) have "view_of (oe_AggregateID e) d = None" by (simp add: view_of_None_iff)
    with assms(4) have "oe_Version e = 1" by (simp add: view_version_def)
    with that p show "row_shows enc e row" "row_created_by e row"
      by (simp_all add: row_def row_shows_def row_created_by_def)
  qed (use that(1) in \<open>simp add: row_def\<close>)
  consider "st = UpsertView row" "oe_EventType e = ProductCreatedEventType"
    | "st = UpdateView (oe_AggregateID e) (Name (event_data e)) p (oe_Version e) (oe_Ts e)"
    using assms(3) p by (auto simp: view_stmt_def row_def split: if_splits)
  then show ?thesis
  proof cases
    case 1
    then have "run_stmt st d \<in> {d, d\<lparr>product_views := map upd (product_views d)\<rparr>} \<or>
        run_stmt st d = d\<lparr>product_views := product_views d @ [row]\<rparr> \<and>
        (\<forall>x \<in> set (product_views d). vr_id x \<noteq> oe_AggregateID e)"
      by (auto simp: run_stmt_def row_def upd_def)
    with 1 updated inserted assms(1) show ?thesis by auto
  next
    case 2
    then have "run_stmt st d \<in> {d, d\<lparr>product_views := map upd (product_views d)\<rparr>}"
      by (auto simp: run_stmt_def upd_def)
    with updated assms(1) show ?thesis by auto
  qed
qed

section \<open>Deliveries\<close>

text \<open>One message handed to the projection, and a sequence of messages.\<close>

definition deliver ::
  "(error option \<Rightarrow> error option) \<Rightarrow> 'x session_scheme retry_function \<Rightarrow> (float64 \<Rightarrow> error + int)
     \<Rightarrow> OutboxEvent \<Rightarrow> 'x session_scheme operation" where
  "deliver permanent retry enc evt s = Projection_Handle permanent retry (productProjection enc) Background evt s"

fun deliver_all ::
  "(error option \<Rightarrow> error option) \<Rightarrow> 'x session_scheme retry_function \<Rightarrow> (float64 \<Rightarrow> error + int)
     \<Rightarrow> OutboxEvent list \<Rightarrow> 'x session_scheme \<Rightarrow> 'x session_scheme" where
  "deliver_all permanent retry enc [] s = s"
| "deliver_all permanent retry enc (evt # evts) s =
     deliver_all permanent retry enc evts (snd (deliver permanent retry enc evt s))"

text \<open>While the library waits, nobody else writes to the tables of the view.\<close>

definition quiet_wait :: "'x session_scheme \<Rightarrow> 'x session_scheme \<Rightarrow> bool" where
  "quiet_wait s s' \<longleftrightarrow> committed s' = committed s"

lemma handler_keeps_product:
  assumes "good_event e"
    and "\<And>d st. P d \<Longrightarrow> view_stmt enc e = Some st \<Longrightarrow>
      oe_Version e = view_version (oe_AggregateID e) d + 1 \<Longrightarrow> P (run_stmt st d)"
  shows "pg_projection.handler_keeps P (ProductProjectionHandler_Handle enc :: ctx \<Rightarrow> OutboxEvent \<Rightarrow> 'x session_scheme operation) e"
  unfolding pg_projection.handler_keeps_def
proof (intro allI impI)
  fix s s' :: "'x session_scheme" and r
  assume run: "ProductProjectionHandler_Handle enc TxCtx e s = (r, s')" and P: "P (committed s)"
    and fresh: "fresh_tx s" and v: "oe_Version e = view_version (oe_AggregateID e) (committed s) + 1"
  from assms(1) run have "P (committed s') \<and> cur_tx s' = cur_tx s"
    by (rule handler_effect) (use P v assms(2) in auto)
  with fresh fresh_tx_view [of s'] show "P (committed s') \<and> (r = None \<longrightarrow> P (tx_view s'))"
    by (simp add: fresh_tx_def)
qed

text \<open>Whatever the statements of an event and a further mark keep, a delivery keeps.\<close>

lemma deliver_keeps:
  assumes "backoff_lib quiet_wait permanent retry" "deliver permanent retry enc e s = (r, s')"
    and "good_event e" "P (committed s)" "pg_projection.marks_stable P"
    and "\<And>d st. P d \<Longrightarrow> view_stmt enc e = Some st \<Longrightarrow>
      oe_Version e = view_version (oe_AggregateID e) d + 1 \<Longrightarrow> P (run_stmt st d)"
  shows "P (committed s')"
proof (rule pg_projection.Handle_keeps [OF assms(2) [unfolded deliver_def productProjection_eq] assms(1)])
  show "P (committed s)" by (rule assms(4))
  show "pg_projection.marks_stable P" by (rule assms(5))
  show "pg_projection.handler_keeps P (ProductProjectionHandler_Handle enc) e"
    using handler_keeps_product assms(3,6) by blast
qed (simp add: quiet_wait_def)

lemma other_tables_views: "other_tables d' = other_tables d \<Longrightarrow> product_views d' = product_views d"
  by (cases d, cases d') (simp add: other_tables_def)

lemma view_inv_marks_stable: "pg_projection.marks_stable (view_inv enc evs)"
  unfolding pg_projection.marks_stable_def view_inv_def using other_tables_views by metis

lemma deliver_all_view_inv:
  assumes "backoff_lib quiet_wait permanent retry" "view_inv enc evs (committed s)"
    and "\<And>e. e \<in> set deliveries \<Longrightarrow> e \<in> evs \<and> good_event e"
  shows "view_inv enc evs (committed (deliver_all permanent retry enc deliveries s))"
  using assms(2,3)
proof (induction deliveries arbitrary: s)
  case Nil
  then show ?case by simp
next
  case (Cons e es)
  obtain r s' where d: "deliver permanent retry enc e s = (r, s')" by fastforce
  have e: "good_event e" "e \<in> evs" using Cons.prems(2) by auto
  have "view_inv enc evs (committed s')"
    using deliver_keeps [OF assms(1) d e(1) Cons.prems(1) view_inv_marks_stable] run_stmt_view_inv e(2) by blast
  with Cons d show ?case by simp
qed

section \<open>A lost event\<close>

text \<open>
  An event that is marked as processed while the view does not show it is never applied, and
  every later event of its aggregate is out of order: the view of the aggregate never changes
  again, whatever is delivered.
\<close>

text \<open>Events of one aggregate with the same version are the same event.\<close>

definition versions_unique :: "OutboxEvent set \<Rightarrow> bool" where
  "versions_unique evs \<longleftrightarrow>
     (\<forall>e \<in> evs. \<forall>e' \<in> evs. oe_AggregateID e = oe_AggregateID e' \<longrightarrow> oe_Version e = oe_Version e' \<longrightarrow>
        oe_EventID e = oe_EventID e')"

lemma run_stmt_view_frame:
  assumes "view_stmt enc e = Some st"
  shows "processed_events (run_stmt st d) = processed_events d"
    "i \<noteq> oe_AggregateID e \<Longrightarrow> view_of i (run_stmt st d) = view_of i d"
proof -
  have upd: "find (\<lambda>r. vr_id r = i) (map f rows) = find (\<lambda>r. vr_id r = i) rows"
    if "\<And>x. vr_id (f x) = vr_id x" "\<And>x. vr_id x = i \<Longrightarrow> f x = x" for f and rows :: "view_row list"
    using that by (induction rows) auto
  have ins: "find (\<lambda>r. vr_id r = i) (rows @ [row]) = find (\<lambda>r. vr_id r = i) rows"
    if "vr_id row \<noteq> i" for row and rows :: "view_row list"
    using that by (induction rows) auto
  show "processed_events (run_stmt st d) = processed_events d"
    using assms by (auto simp: view_stmt_def run_stmt_def split: sum.splits if_splits)
  show "view_of i (run_stmt st d) = view_of i d" if "i \<noteq> oe_AggregateID e"
    using assms that
    by (auto simp: view_stmt_def run_stmt_def view_of_def ins split: sum.splits if_splits intro!: upd)
qed

definition lost :: "OutboxEvent \<Rightarrow> view_row option \<Rightarrow> db \<Rightarrow> bool" where
  "lost e v d \<longleftrightarrow> view_of (oe_AggregateID e) d = v \<and>
     (oe_EventID e, ''ProductProjection'') \<in> set (processed_events d)"

lemma lost_marks_stable: "pg_projection.marks_stable (lost e v)"
  unfolding pg_projection.marks_stable_def
proof (intro allI impI)
  fix d d' m
  assume "other_tables d' = other_tables d" "lost e v d"
    and "set (processed_events d') = insert m (set (processed_events d))"
  then show "lost e v d'" using other_tables_views [of d' d] by (simp add: lost_def view_of_def)
qed

lemma deliver_lost:
  assumes "backoff_lib quiet_wait permanent retry" "deliver permanent retry enc e' s = (r, s')"
    and "good_event e'" "e \<in> evs" "e' \<in> evs" "versions_unique evs" "lost e v (committed s)"
    and "oe_Version e = (case v of None \<Rightarrow> 0 | Some row \<Rightarrow> vr_version row) + 1"
  shows "lost e v (committed s')"
proof (cases "oe_AggregateID e' = oe_AggregateID e \<and> oe_Version e' = oe_Version e")
  case True
  then have "oe_EventID e' = oe_EventID e"
    using assms(6) [unfolded versions_unique_def, rule_format, OF assms(5,4)] by blast
  then have "(oe_EventID e', ''ProductProjection'') \<in> set (processed_events (committed s))"
    using assms(7) by (simp add: lost_def)
  then have "committed s' = committed s"
    by (rule pg_projection.Handle_duplicate [OF assms(2) [unfolded deliver_def productProjection_eq] assms(1)])
  with assms(7) show ?thesis by simp
next
  case False
  show ?thesis
  proof (rule deliver_keeps [OF assms(1-3,7) lost_marks_stable])
    fix d st
    assume l: "lost e v d" and st: "view_stmt enc e' = Some st"
      and ver: "oe_Version e' = view_version (oe_AggregateID e') d + 1"
    have "oe_AggregateID e' \<noteq> oe_AggregateID e"
    proof
      assume same: "oe_AggregateID e' = oe_AggregateID e"
      with l ver assms(8) have "oe_Version e' = oe_Version e" by (simp add: lost_def view_version_def)
      with same False show False by simp
    qed
    with l run_stmt_view_frame [OF st] show "lost e v (run_stmt st d)" by (simp add: lost_def)
  qed
qed

lemma deliver_all_lost:
  assumes "backoff_lib quiet_wait permanent retry" "versions_unique evs" "e \<in> evs"
    and "\<And>e'. e' \<in> set deliveries \<Longrightarrow> e' \<in> evs \<and> good_event e'" "lost e v (committed s)"
    and "oe_Version e = (case v of None \<Rightarrow> 0 | Some row \<Rightarrow> vr_version row) + 1"
  shows "lost e v (committed (deliver_all permanent retry enc deliveries s))"
  using assms(4,5)
proof (induction deliveries arbitrary: s)
  case Nil
  then show ?case by simp
next
  case (Cons e' es)
  obtain r s' where d: "deliver permanent retry enc e' s = (r, s')" by fastforce
  from Cons.prems have "lost e v (committed s')"
    by (intro deliver_lost [OF assms(1) d _ assms(3) _ assms(2) _ assms(6)]) auto
  with Cons d show ?case by simp
qed

end
