(* ===== verification/View_Progress.thy ===== *)
theory View_Progress
  imports View_Consistency "HOL-Library.Sublist"
begin

text \<open>
  The projection on a database that does not fail: a function on tables that it implements, and
  the proof that the view catches up with a stream as soon as the deliveries contain the stream
  in order, whatever else is delivered in between.
\<close>

section \<open>The specification\<close>

definition marked :: "OutboxEvent \<Rightarrow> db \<Rightarrow> bool" where
  "marked e d \<longleftrightarrow> (oe_EventID e, ''ProductProjection'') \<in> set (processed_events d)"

definition mark_db :: "OutboxEvent \<Rightarrow> db \<Rightarrow> db" where
  "mark_db e d = d\<lparr>processed_events := processed_events d @ [(oe_EventID e, ''ProductProjection'')]\<rparr>"

definition apply_event :: "(float64 \<Rightarrow> error + int) \<Rightarrow> OutboxEvent \<Rightarrow> db \<Rightarrow> db" where
  "apply_event enc e d = (case view_stmt enc e of None \<Rightarrow> d | Some st \<Rightarrow> run_stmt st d)"

definition project_db :: "(float64 \<Rightarrow> error + int) \<Rightarrow> OutboxEvent \<Rightarrow> db \<Rightarrow> db" where
  "project_db enc e d =
     (let v = view_version (oe_AggregateID e) d in
      if marked e d then d
      else if oe_Version e \<le> v then mark_db e d
      else if oe_Version e \<noteq> v + 1 then d
      else mark_db e (apply_event enc e d))"

text \<open>The answer to the broker: an error for an event from beyond the next version only.\<close>

definition refused :: "OutboxEvent \<Rightarrow> db \<Rightarrow> bool" where
  "refused e d \<longleftrightarrow> \<not> marked e d \<and> oe_Version e > view_version (oe_AggregateID e) d + 1"

section \<open>The implementation meets it\<close>

lemma pool_Exec_nofault: "faults s = [] \<Longrightarrow> snd (pool_Exec st s) = s\<lparr>committed := run_stmt st (committed s)\<rparr>"
  by (auto simp: pool_Exec_def run_stmt_def split: sum.split)

lemma handler_nofault:
  assumes "good_event e" "faults s = []"
  shows "ProductProjectionHandler_Handle enc c e s = (None, s\<lparr>committed := apply_event enc e (committed s)\<rparr>)"
proof -
  obtain r s' where h: "ProductProjectionHandler_Handle enc c e s = (r, s')" by fastforce
  from handler_result [OF assms(1) h] h pool_Exec_nofault [OF assms(2)] show ?thesis
    by (simp add: apply_event_def split: option.split)
qed

lemma sub_fits [simp]: "varchar255 ''ProductProjection''"
  by (simp add: varchar255_def)

lemma mark_tx_nofault:
  assumes "faults s = []" "\<not> marked e (committed s)"
  shows "\<exists>s'. WithTransaction (\<lambda>txCtx. MarkAsProcessed txCtx (oe_EventID e) ''ProductProjection'') c s = (None, s') \<and>
    faults s' = [] \<and> committed s' = mark_db e (committed s)"
proof -
  obtain s2 where "MarkAsProcessed TxCtx (oe_EventID e) ''ProductProjection'' (begun s) = (None, s2)"
    "faults s2 = []" "tx_open s2" "tx_view s2 = mark_db e (committed s)"
    using MarkAsProcessed_nofault [of "oe_EventID e" "''ProductProjection''" "begun s"] assms
    by (auto simp: marked_def mark_db_def)
  with WithTransaction_nofault [where fn = "\<lambda>txCtx. MarkAsProcessed txCtx (oe_EventID e) ''ProductProjection''"
      and c = c, OF assms(1)]
  show ?thesis by auto
qed

lemma project_tx_nofault:
  assumes "faults s = []" "\<not> marked e (committed s)" "good_event e"
  shows "\<exists>s'. WithTransaction (project_tx (productProjection enc) e) c s = (None, s') \<and>
    faults s' = [] \<and> committed s' = mark_db e (apply_event enc e (committed s))"
proof -
  let ?s1 = "(begun s)\<lparr>committed := apply_event enc e (committed s)\<rparr>"
  have h: "ProductProjectionHandler_Handle enc TxCtx e (begun s) = (None, ?s1)"
    using handler_nofault [OF assms(3), of "begun s" enc TxCtx] assms(1) by simp
  have view: "tx_view ?s1 = apply_event enc e (committed s)" by (simp add: tx_view_def)
  have "processed_events (apply_event enc e (committed s)) = processed_events (committed s)"
    by (auto simp: apply_event_def run_stmt_view_frame(1) split: option.split)
  then obtain s2 where m: "MarkAsProcessed TxCtx (oe_EventID e) ''ProductProjection'' ?s1 = (None, s2)"
    "faults s2 = []" "tx_open s2" "tx_view s2 = mark_db e (apply_event enc e (committed s))"
    using MarkAsProcessed_nofault [of "oe_EventID e" "''ProductProjection''" ?s1] assms(1,2) view
    by (auto simp: marked_def mark_db_def tx_open_def)
  then have "project_tx (productProjection enc) e TxCtx (begun s) = (None, s2)"
    using h by (simp add: project_tx_def)
  from WithTransaction_nofault [where fn = "project_tx (productProjection enc) e" and c = c, OF assms(1) this m(2,3)] m(4)
  show ?thesis by auto
qed

lemma attempt_nofault:
  assumes "backoff_lib quiet_wait permanent retry" "faults s = []" "good_event e" "\<not> marked e (committed s)"
  shows "\<exists>r s'. attempt permanent (productProjection enc) c e s = (r, s') \<and> faults s' = [] \<and>
    committed s' = project_db enc e (committed s) \<and>
    r = (if refused e (committed s) then Some (PermanentError ErrOutOfOrderEvent) else None)"
proof -
  let ?v = "view_version (oe_AggregateID e) (committed s)"
  note gv = GetVersion_nofault [OF assms(2)]
  note perm = backoff_libD(1,2) [OF assms(1)]
  consider "oe_Version e \<le> ?v" | "oe_Version e > ?v + 1" | "oe_Version e = ?v + 1" by linarith
  then show ?thesis
  proof cases
    case 1
    obtain s' where "WithTransaction (\<lambda>txCtx. MarkAsProcessed txCtx (oe_EventID e) ''ProductProjection'') c s = (None, s')"
      "faults s' = []" "committed s' = mark_db e (committed s)"
      using mark_tx_nofault [OF assms(2,4)] by blast
    with 1 gv perm assms(4) show ?thesis
      by (simp add: attempt_def project_db_def refused_def Let_def)
  next
    case 2
    with gv perm assms(2,4) show ?thesis
      by (simp add: attempt_def project_db_def refused_def Let_def)
  next
    case 3
    obtain s' where "WithTransaction (project_tx (productProjection enc) e) c s = (None, s')"
      "faults s' = []" "committed s' = mark_db e (apply_event enc e (committed s))"
      using project_tx_nofault [OF assms(2,4,3)] by blast
    with 3 gv perm assms(4) show ?thesis
      by (simp add: attempt_def project_db_def refused_def Let_def)
  qed
qed

text \<open>One delivery on a database that does not fail.\<close>

lemma deliver_nofault:
  assumes "backoff_lib quiet_wait permanent retry" "faults s = []" "good_event e"
  shows "\<exists>r s'. deliver permanent retry enc e s = (r, s') \<and> faults s' = [] \<and>
    committed s' = project_db enc e (committed s) \<and>
    (if refused e (committed s) then \<exists>err. r = Some err \<and> errors_Is err ErrOutOfOrderEvent else r = None)"
proof -
  have ip: "IsProcessed Background (oe_EventID e) ''ProductProjection'' s = (Inr (marked e (committed s)), s)"
    by (simp add: IsProcessed_def marked_def assms(2))
  show ?thesis
  proof (cases "marked e (committed s)")
    case True
    with ip assms(2) show ?thesis
      by (simp add: deliver_def Projection_Handle_def project_db_def refused_def)
  next
    case False
    obtain r0 s' where a: "attempt permanent (productProjection enc) Background e s = (r0, s')" "faults s' = []"
      "committed s' = project_db enc e (committed s)"
      and r0: "r0 = (if refused e (committed s) then Some (PermanentError ErrOutOfOrderEvent) else None)"
      using attempt_nofault [OF assms False] by blast
    obtain r s2 where rt: "retry 60000000000
        (attempt permanent (productProjection enc) Background e) s = (r, s2)" by fastforce
    have dl: "deliver permanent retry enc e s = (r, s2)"
      using ip False rt by (cases r) (simp_all add: deliver_def Projection_Handle_def)
    note run = backoff_libD(3) [OF assms(1) rt]
    have once: "s2 = s'" "r = None \<longleftrightarrow> r0 = None"
      using retry_run_once [OF run a(1)] r0 by (auto split: if_splits)
    have "errors_Is err ErrOutOfOrderEvent" if "r = Some err" "refused e (committed s)" for err
      using run a(1) r0 that by (cases rule: retry_run.cases) auto
    with dl a once r0 show ?thesis by (auto split: if_splits)
  qed
qed

lemma deliver_all_nofault:
  assumes "backoff_lib quiet_wait permanent retry" "faults s = []" "\<And>e. e \<in> set es \<Longrightarrow> good_event e"
  shows "faults (deliver_all permanent retry enc es s) = [] \<and>
    committed (deliver_all permanent retry enc es s) = fold (project_db enc) es (committed s)"
  using assms(2,3)
proof (induction es arbitrary: s)
  case Nil
  then show ?case by simp
next
  case (Cons e es)
  obtain r s' where "deliver permanent retry enc e s = (r, s')" "faults s' = []"
    "committed s' = project_db enc e (committed s)"
    using deliver_nofault [OF assms(1) Cons.prems(1)] Cons.prems(2) by (meson list.set_intros(1))
  with Cons show ?case by simp
qed

section \<open>Catching up\<close>

text \<open>
  An event that the view can take: it decodes, its values fit the columns, and it is a creation
  exactly when it is the first of its stream.
\<close>

definition fits :: "(float64 \<Rightarrow> error + int) \<Rightarrow> OutboxEvent \<Rightarrow> bool" where
  "fits enc e \<longleftrightarrow> good_event e \<and> varchar255 (Name (event_data e)) \<and> int4 (oe_Version e) \<and> 1 \<le> oe_Version e \<and>
     (\<exists>p. enc (Price (event_data e)) = Inr p \<and> int4 p) \<and>
     oe_EventType e = (if oe_Version e = 1 then ProductCreatedEventType else ProductUpdatedEventType)"

lemma find_map_same:
  "(\<And>x. vr_id (f x) = vr_id x) \<Longrightarrow>
     find (\<lambda>r. vr_id r = i) (map f rows) = map_option f (find (\<lambda>r. vr_id r = i) rows)"
  by (induction rows) auto

lemma find_append_new:
  "\<forall>x \<in> set rows. vr_id x \<noteq> i \<Longrightarrow> vr_id row = i \<Longrightarrow> find (\<lambda>r. vr_id r = i) (rows @ [row]) = Some row"
  by (induction rows) auto

lemma view_version_apply:
  assumes "fits enc e" "oe_Version e = view_version (oe_AggregateID e) d + 1"
  shows "view_version (oe_AggregateID e) (apply_event enc e d) = oe_Version e"
proof -
  let ?i = "oe_AggregateID e"
  obtain p where p: "enc (Price (event_data e)) = Inr p" "int4 p" using assms(1) by (auto simp: fits_def)
  have sz: "varchar255 (Name (event_data e))" "int4 (oe_Version e)" using assms(1) by (simp_all add: fits_def)
  show ?thesis
  proof (cases "\<exists>x \<in> set (product_views d). vr_id x = ?i")
    case True
    then obtain y where y: "find (\<lambda>r. vr_id r = ?i) (product_views d) = Some y"
      using view_of_None_iff [of ?i d] by (auto simp: view_of_def)
    moreover have "vr_id y = ?i" using y by (auto simp: find_Some_iff)
    ultimately show ?thesis using True p sz assms(1)
      by (auto simp: apply_event_def view_stmt_def run_stmt_def view_version_def view_of_def find_map_same fits_def)
  next
    case False
    then have "view_of ?i d = None" by (simp add: view_of_None_iff)
    then have "oe_Version e = 1" using assms(2) by (simp add: view_version_def)
    with False p sz assms(1) show ?thesis
      by (auto simp: apply_event_def view_stmt_def run_stmt_def view_version_def view_of_def find_append_new fits_def)
  qed
qed

lemma view_version_apply_other:
  "i \<noteq> oe_AggregateID e \<Longrightarrow> view_version i (apply_event enc e d) = view_version i d"
  by (auto simp: apply_event_def view_version_def run_stmt_view_frame(2) split: option.split)

lemma mark_db_views [simp]:
  "view_version i (mark_db e d) = view_version i d" "marked e' (mark_db e d) \<longleftrightarrow> marked e' d \<or> oe_EventID e' = oe_EventID e"
  by (auto simp: mark_db_def view_version_def view_of_def marked_def)

lemma marked_apply [simp]: "marked e' (apply_event enc e d) \<longleftrightarrow> marked e' d"
  by (auto simp: apply_event_def marked_def run_stmt_view_frame(1) split: option.split)

text \<open>The version after one delivery.\<close>

lemma project_db_version:
  assumes "fits enc e"
  shows "view_version i (project_db enc e d) =
    (if i = oe_AggregateID e \<and> \<not> marked e d \<and> oe_Version e = view_version i d + 1 then oe_Version e
     else view_version i d)"
  using assms view_version_apply [OF assms] view_version_apply_other [of i e enc d]
  by (auto simp: project_db_def Let_def)

lemma project_db_marked:
  "marked e' (project_db enc e d) \<longleftrightarrow>
     marked e' d \<or> oe_EventID e' = oe_EventID e \<and> \<not> refused e d"
proof (cases "marked e d")
  case True
  then have "oe_EventID e' = oe_EventID e \<Longrightarrow> marked e' d" by (simp add: marked_def)
  with True show ?thesis by (auto simp: project_db_def)
qed (auto simp: project_db_def refused_def Let_def)

text \<open>No event is marked that the view has not reached.\<close>

definition no_loss :: "OutboxEvent set \<Rightarrow> db \<Rightarrow> bool" where
  "no_loss evs d \<longleftrightarrow> (\<forall>e \<in> evs. marked e d \<longrightarrow> oe_Version e \<le> view_version (oe_AggregateID e) d)"

lemma project_db_no_loss:
  assumes "no_loss evs d" "fits enc e" "e \<in> evs" "inj_on oe_EventID evs"
  shows "no_loss evs (project_db enc e d)"
  unfolding no_loss_def
proof (intro ballI impI)
  fix e'
  assume e': "e' \<in> evs" "marked e' (project_db enc e d)"
  show "oe_Version e' \<le> view_version (oe_AggregateID e') (project_db enc e d)"
  proof (cases "marked e' d")
    case True
    with assms(1) e'(1) have "oe_Version e' \<le> view_version (oe_AggregateID e') d" by (simp add: no_loss_def)
    then show ?thesis by (auto simp: project_db_version [OF assms(2)])
  next
    case False
    with e' have "oe_EventID e' = oe_EventID e" "\<not> refused e d" by (simp_all add: project_db_marked)
    with e'(1) assms(3,4) have "e' = e" by (meson inj_onD)
    with False \<open>\<not> refused e d\<close> show ?thesis
      by (auto simp: project_db_version [OF assms(2)] refused_def)
  qed
qed

lemma project_all_no_loss:
  assumes "no_loss evs d" "\<And>e. e \<in> set ds \<Longrightarrow> fits enc e \<and> e \<in> evs" "inj_on oe_EventID evs"
  shows "no_loss evs (fold (project_db enc) ds d)"
  using assms by (induction ds arbitrary: d) (auto simp: project_db_no_loss)

lemma project_all_version_mono:
  assumes "\<And>e. e \<in> set ds \<Longrightarrow> fits enc e"
  shows "view_version i d \<le> view_version i (fold (project_db enc) ds d)"
  using assms
proof (induction ds arbitrary: d)
  case (Cons e ds)
  have "view_version i d \<le> view_version i (project_db enc e d)"
    using project_db_version [of enc e i d] Cons.prems by simp
  also have "\<dots> \<le> view_version i (fold (project_db enc) ds (project_db enc e d))"
    using Cons by simp
  finally show ?case by simp
qed simp

lemma project_all_version_bound:
  assumes "\<And>e. e \<in> set ds \<Longrightarrow> fits enc e" "view_version i d \<le> n"
    and "\<And>e. e \<in> set ds \<Longrightarrow> oe_AggregateID e = i \<Longrightarrow> oe_Version e \<le> n"
  shows "view_version i (fold (project_db enc) ds d) \<le> n"
  using assms
proof (induction ds arbitrary: d)
  case (Cons e ds)
  have "oe_AggregateID e = i \<longrightarrow> oe_Version e \<le> n" using Cons.prems(3) by simp
  then have "view_version i (project_db enc e d) \<le> n"
    using project_db_version [of enc e i d] Cons.prems(1,2) by auto
  with Cons show ?case by simp
qed simp

text \<open>The heart of the matter: every event of the stream is there when its turn comes.\<close>

lemma project_all_reaches:
  assumes "inj_on oe_EventID evs" "\<And>e. e \<in> set ds \<Longrightarrow> fits enc e \<and> e \<in> evs" "no_loss evs d"
    and "map oe_Version es = [k + 1..n]" "\<And>e. e \<in> set es \<Longrightarrow> oe_AggregateID e = i"
    and "subseq es ds" "k \<le> view_version i d"
  shows "n \<le> view_version i (fold (project_db enc) ds d) \<or> n < k"
  using assms(2-)
proof (induction ds arbitrary: d es k)
  case Nil
  then have "es = []" by (auto dest: list_emb_Nil2)
  with Nil.prems(3) have "n \<le> k" by simp
  with Nil.prems(6) show ?case by simp
next
  case (Cons e ds)
  have fe: "fits enc e" "e \<in> evs" using Cons.prems(1) by auto
  have nl: "no_loss evs (project_db enc e d)"
    by (rule project_db_no_loss [OF Cons.prems(2) fe assms(1)])
  note pv = project_db_version [OF fe(1), of i d]
  show ?case
  proof (cases "\<exists>es'. es = e # es' \<and> subseq es' ds")
    case True
    then obtain es' where es: "es = e # es'" "subseq es' ds" by blast
    with Cons.prems(3) have kn: "k + 1 \<le> n" by (cases "k + 1 \<le> n") simp_all
    with Cons.prems(3) es(1) have "oe_Version e = k + 1" "map oe_Version es' = [k + 1 + 1..n]"
      by (simp_all add: upto_rec1)
    moreover have "oe_AggregateID e = i" using Cons.prems(4) es(1) by simp
    moreover have "k + 1 \<le> view_version i (project_db enc e d)"
      using pv calculation(1,3) Cons.prems(2,6) fe(2) by (auto simp: no_loss_def)
    ultimately show ?thesis
      using Cons.IH [OF _ nl, of es' "k + 1"] Cons.prems(1,4) es kn by auto
  next
    case False
    with Cons.prems(5) have "subseq es ds" by (auto elim: list_emb.cases)
    moreover have "k \<le> view_version i (project_db enc e d)" using pv Cons.prems(6) by (auto split: if_splits)
    ultimately show ?thesis using Cons.IH [OF _ nl Cons.prems(3)] Cons.prems(1,4) by auto
  qed
qed

end
