(* ===== verification/Aggregates.thy ===== *)
theory Aggregates
  imports Events
begin

text \<open>
  \<open>eventsrc/aggregate.go\<close>: the base of every event-sourced aggregate. A concrete aggregate
  embeds \<open>AggregateRoot\<close>, so it is a record that extends \<open>aggregate_root\<close> and the operations
  work on any extension. The function fields \<open>applyMethod\<close> and \<open>validateState\<close>, which the
  constructor ties to the methods of the concrete aggregate, are arguments of the operations
  that call them. A method of a pointer receiver returns the aggregate it leaves behind, on
  the error paths too.
\<close>

section \<open>State and operations\<close>

record aggregate_root =
  ar_id :: uuid
  ar_aggType :: string
  ar_version :: int
  ar_events :: "event list"

type_synonym 'x apply_method = "event \<Rightarrow> 'x aggregate_root_scheme \<Rightarrow> error option \<times> 'x aggregate_root_scheme"
type_synonym 'x validate_method = "'x aggregate_root_scheme \<Rightarrow> error option"

definition NewAggregateRoot :: "string \<Rightarrow> aggregate_root" where
  "NewAggregateRoot aggType = \<lparr>ar_id = uuid_Nil, ar_aggType = aggType, ar_version = 0, ar_events = []\<rparr>"

definition AggregateRoot_ID :: "'x aggregate_root_scheme \<Rightarrow> uuid" where
  "AggregateRoot_ID a = ar_id a"

definition AggregateRoot_AggregateType :: "'x aggregate_root_scheme \<Rightarrow> string" where
  "AggregateRoot_AggregateType a = ar_aggType a"

definition AggregateRoot_Version :: "'x aggregate_root_scheme \<Rightarrow> int" where
  "AggregateRoot_Version a = ar_version a"

declare AggregateRoot_ID_def [simp] AggregateRoot_AggregateType_def [simp] AggregateRoot_Version_def [simp]

definition GetUncommittedEvents :: "'x aggregate_root_scheme \<Rightarrow> event list" where
  "GetUncommittedEvents a = ar_events a"

definition ClearUncommittedEvents :: "'x aggregate_root_scheme \<Rightarrow> 'x aggregate_root_scheme" where
  "ClearUncommittedEvents a = a\<lparr>ar_events := []\<rparr>"

definition SetID :: "uuid \<Rightarrow> 'x aggregate_root_scheme \<Rightarrow> 'x aggregate_root_scheme" where
  "SetID i a = a\<lparr>ar_id := i\<rparr>"

definition SetVersion :: "int \<Rightarrow> 'x aggregate_root_scheme \<Rightarrow> 'x aggregate_root_scheme" where
  "SetVersion v a = a\<lparr>ar_version := v\<rparr>"

definition TrackChange ::
  "'x apply_method \<Rightarrow> 'x validate_method \<Rightarrow> event \<Rightarrow> 'x aggregate_root_scheme
     \<Rightarrow> error option \<times> 'x aggregate_root_scheme" where
  "TrackChange applyMethod validateState evt a =
     (case applyMethod evt a of
        (Some err, a1) \<Rightarrow> (Some (Wrap ''apply event when tracking change failed'' err), a1)
      | (None, a1) \<Rightarrow>
          (case validateState a1 of
             Some err \<Rightarrow>
               (Some (Wrap (''state validation failed after applying event '' @ EventType evt) err), a1)
           | None \<Rightarrow> (None, a1\<lparr>ar_events := ar_events a1 @ [evt]\<rparr>)))"

fun LoadFromHistory ::
  "'x apply_method \<Rightarrow> event list \<Rightarrow> 'x aggregate_root_scheme
     \<Rightarrow> error option \<times> 'x aggregate_root_scheme" where
  "LoadFromHistory applyMethod [] a = (None, a)"
| "LoadFromHistory applyMethod (evt # history) a =
     (case applyMethod evt a of
        (Some err, a1) \<Rightarrow> (Some (Wrap ''apply event from history failed'' err), a1)
      | (None, a1) \<Rightarrow> LoadFromHistory applyMethod history a1)"

text \<open>The placeholders that a concrete aggregate overrides.\<close>

definition AggregateRoot_Apply ::
  "'x apply_method \<Rightarrow> event \<Rightarrow> 'x aggregate_root_scheme \<Rightarrow> error option \<times> 'x aggregate_root_scheme" where
  "AggregateRoot_Apply applyMethod evt a = applyMethod evt a"

definition AggregateRoot_Validate :: "'x validate_method \<Rightarrow> 'x aggregate_root_scheme \<Rightarrow> error option" where
  "AggregateRoot_Validate validateState a = validateState a"

section \<open>The interface \<open>Aggregate\<close>\<close>

text \<open>
  What the operations above and the repository rely on: \<open>Apply\<close> moves the version to the
  event's, never touches the uncommitted events or the type, and changes nothing when it
  fails.
\<close>

locale aggregate =
  fixes apply_m :: "'x apply_method"
    and validate_m :: "'x validate_method"
  assumes apply_version: "apply_m e a = (None, a') \<Longrightarrow> ar_version a' = Version e"
    and apply_events: "apply_m e a = (r, a') \<Longrightarrow> ar_events a' = ar_events a"
    and apply_type: "apply_m e a = (r, a') \<Longrightarrow> ar_aggType a' = ar_aggType a"
    and apply_error: "apply_m e a = (Some err, a') \<Longrightarrow> a' = a"
begin

lemma TrackChange_ok:
  assumes "TrackChange apply_m validate_m e a = (None, a')"
  obtains a1 where "apply_m e a = (None, a1)" "validate_m a1 = None"
    "a' = a1\<lparr>ar_events := ar_events a @ [e]\<rparr>" "ar_version a' = Version e"
    "ar_aggType a' = ar_aggType a"
proof -
  from assms obtain a1 where a1: "apply_m e a = (None, a1)" "validate_m a1 = None"
      "a' = a1\<lparr>ar_events := ar_events a1 @ [e]\<rparr>"
    by (auto simp: TrackChange_def split: prod.splits option.splits)
  with that apply_version [OF a1(1)] apply_events [OF a1(1)] apply_type [OF a1(1)]
  show thesis by simp
qed

lemma TrackChange_error:
  assumes "TrackChange apply_m validate_m e a = (Some err, a')"
  shows "ar_events a' = ar_events a"
  using assms
  by (auto simp: TrackChange_def split: prod.splits option.splits dest: apply_events)

lemma LoadFromHistory_append:
  "LoadFromHistory apply_m (xs @ ys) a =
     (case LoadFromHistory apply_m xs a of
        (Some err, a1) \<Rightarrow> (Some err, a1)
      | (None, a1) \<Rightarrow> LoadFromHistory apply_m ys a1)"
  by (induction xs arbitrary: a) (auto split: prod.splits option.splits)

lemma LoadFromHistory_keeps:
  "LoadFromHistory apply_m xs a = (r, a') \<Longrightarrow>
     ar_events a' = ar_events a \<and> ar_aggType a' = ar_aggType a"
  by (induction xs arbitrary: a)
     (auto split: prod.splits option.splits dest: apply_events apply_type)

lemma LoadFromHistory_version:
  "LoadFromHistory apply_m xs a = (None, a') \<Longrightarrow> xs \<noteq> [] \<Longrightarrow> ar_version a' = Version (last xs)"
proof (induction xs arbitrary: a)
  case Nil
  then show ?case by simp
next
  case (Cons x xs)
  then show ?case
    by (cases xs) (auto split: prod.splits option.splits dest: apply_version)
qed

text \<open>The failing event and those after it leave no trace: the prefix before it decides the state.\<close>

lemma LoadFromHistory_error:
  "LoadFromHistory apply_m xs a = (Some err, a') \<Longrightarrow>
     \<exists>pre e suf. xs = pre @ e # suf \<and> LoadFromHistory apply_m pre a = (None, a') \<and>
        fst (apply_m e a') \<noteq> None"
proof (induction xs arbitrary: a)
  case Nil
  then show ?case by simp
next
  case (Cons x xs)
  show ?case
  proof (cases "apply_m x a")
    case (Pair r a1)
    show ?thesis
    proof (cases r)
      case None
      with Cons.prems Pair have "LoadFromHistory apply_m xs a1 = (Some err, a')" by simp
      then obtain pre e suf where
        "xs = pre @ e # suf" "LoadFromHistory apply_m pre a1 = (None, a')" "fst (apply_m e a') \<noteq> None"
        using Cons.IH by blast
      with Pair None have "x # xs = (x # pre) @ e # suf \<and>
        LoadFromHistory apply_m (x # pre) a = (None, a') \<and> fst (apply_m e a') \<noteq> None" by simp
      then show ?thesis by blast
    next
      case (Some er)
      with Cons.prems Pair have "a' = a1" by simp
      with Pair Some have "a' = a" by (auto dest: apply_error)
      with Pair Some have "x # xs = [] @ x # xs \<and>
        LoadFromHistory apply_m [] a = (None, a') \<and> fst (apply_m x a') \<noteq> None" by simp
      then show ?thesis by blast
    qed
  qed
qed

end

end
