(* ===== verification/Event_Store.thy ===== *)
theory Event_Store
  imports Transactions Aggregates
begin

text \<open>
  \<open>infra/postgres/event_store.go\<close> and the writing half of \<open>infra/postgres/outbox.go\<close>
  (\<open>SaveEvents\<close>, which \<open>Store.Save\<close> calls). The aggregate is any record that extends
  \<open>aggregate_root\<close>; its \<open>MarshalJSON\<close> method is the argument \<open>marshal\<close>.
\<close>

section \<open>Batches\<close>

text \<open>
  \<open>tx.SendBatch\<close> followed by one \<open>br.Exec\<close> per queued statement: the statements run in order
  up to the first failure.
\<close>

fun br_Exec_all :: "stmt list \<Rightarrow> 'x session_scheme \<Rightarrow> error option \<times> 'x session_scheme" where
  "br_Exec_all [] s = (None, s)"
| "br_Exec_all (st # sts) s =
     (case tx_Exec st s of (Inl e, s1) \<Rightarrow> (Some e, s1) | (Inr _, s1) \<Rightarrow> br_Exec_all sts s1)"

definition br_Close :: "'x session_scheme \<Rightarrow> error option \<times> 'x session_scheme" where
  "br_Close s =
     (case next_fault s of (Some (Fault e _), s1) \<Rightarrow> (Some e, abort_tx s1) | (None, s1) \<Rightarrow> (None, s1))"

text \<open>The arguments queued for one event, the same in both tables.\<close>

definition event_row_of :: "event \<Rightarrow> error + event_row" where
  "event_row_of evt =
     (case marshal_event evt of
        Inl err \<Rightarrow> Inl err
      | Inr payload \<Rightarrow>
          Inr \<lparr>oe_EventID = EventID evt, oe_AggregateID = AggregateID evt,
               oe_AggregateType = AggregateType evt, oe_EventType = EventType evt,
               oe_Payload = payload, oe_Version = Version evt, oe_Ts = Timestamp evt\<rparr>)"

section \<open>Saving\<close>

definition saveEventsInTx :: "event list \<Rightarrow> 'x session_scheme \<Rightarrow> error option \<times> 'x session_scheme" where
  "saveEventsInTx events s =
     (case mapE event_row_of events of
        Inl err \<Rightarrow> (Some (Wrap ''failed to marshal event payload'' err), s)
      | Inr rows \<Rightarrow>
          (case br_Exec_all (map InsertEvent rows) s of
             (Some err, s1) \<Rightarrow>
               (Some (if as_PgError err = Some ''23505'' then ErrConcurrency
                      else Wrap ''failed to insert event into batch'' err), s1)
           | (None, s1) \<Rightarrow> br_Close s1))"

definition SaveEvents :: "ctx \<Rightarrow> event list \<Rightarrow> 'x session_scheme \<Rightarrow> error option \<times> 'x session_scheme" where
  "SaveEvents ctx events s =
     (if ctx \<noteq> TxCtx then (Some (NewError ''SaveEvents must be called within a transaction''), s)
      else
        (case mapE event_row_of events of
           Inl err \<Rightarrow> (Some (Wrap ''failed to marshal event payload for event'' err), s)
         | Inr rows \<Rightarrow>
             (case br_Exec_all (map InsertOutbox rows) s of
                (Some err, s1) \<Rightarrow> (Some (Wrap ''failed to insert event into outbox batch'' err), s1)
              | (None, s1) \<Rightarrow> br_Close s1)))"

definition shouldSnapshot :: "int \<Rightarrow> 'a aggregate_root_scheme \<Rightarrow> bool" where
  "shouldSnapshot snapshotFrequency a =
     (if snapshotFrequency \<le> 0 then False else ar_version a mod snapshotFrequency = 0)"

definition saveSnapshotInTx ::
  "('a aggregate_root_scheme \<Rightarrow> error + json) \<Rightarrow> 'a aggregate_root_scheme
     \<Rightarrow> 'x session_scheme \<Rightarrow> error option \<times> 'x session_scheme" where
  "saveSnapshotInTx marshal a s =
     (case marshal a of
        Inl err \<Rightarrow> (Some (Wrap ''failed to marshal aggregate for snapshot'' err), s)
      | Inr payload \<Rightarrow>
          (case tx_Exec (InsertSnapshot \<lparr>sn_aggregate_id = ar_id a, sn_aggregate_type = ar_aggType a,
                           sn_aggregate_version = ar_version a, sn_payload = payload\<rparr>) s of
             (Inl err, s1) \<Rightarrow> (Some (Wrap ''failed to save snapshot'' err), s1)
           | (Inr _, s1) \<Rightarrow> (None, s1)))"

text \<open>\<open>Store.Save\<close>: an error of the snapshot is logged, not returned.\<close>

definition Save ::
  "int \<Rightarrow> ('a aggregate_root_scheme \<Rightarrow> error + json) \<Rightarrow> ctx \<Rightarrow> 'a aggregate_root_scheme
     \<Rightarrow> 'x session_scheme \<Rightarrow> error option \<times> 'x session_scheme" where
  "Save snapshotFrequency marshal ctx a s =
     (let events = GetUncommittedEvents a in
      if events = [] then (None, s)
      else if ctx \<noteq> TxCtx then (Some (NewError ''Save must be called within a transaction''), s)
      else
        (case saveEventsInTx events s of
           (Some err, s1) \<Rightarrow> (Some err, s1)
         | (None, s1) \<Rightarrow>
             (case SaveEvents ctx events s1 of
                (Some err, s2) \<Rightarrow> (Some err, s2)
              | (None, s2) \<Rightarrow>
                  if shouldSnapshot snapshotFrequency a
                  then (None, snd (saveSnapshotInTx marshal a s2))
                  else (None, s2))))"

section \<open>Loading\<close>

text \<open>\<open>SELECT \<dots> FROM snapshots \<dots> ORDER BY aggregate_version DESC LIMIT 1\<close>.\<close>

definition latest_snapshot :: "uuid \<Rightarrow> db \<Rightarrow> snapshot_row option" where
  "latest_snapshot aggID d =
     (case rev (sort_key sn_aggregate_version (filter (\<lambda>r. sn_aggregate_id r = aggID) (snapshots d))) of
        [] \<Rightarrow> None
      | r # _ \<Rightarrow> Some r)"

text \<open>Both loading queries go to the pool, so they see the committed rows only.\<close>

definition loadSnapshot :: "uuid \<Rightarrow> 'x session_scheme \<Rightarrow> (error + json option \<times> int) \<times> 'x session_scheme" where
  "loadSnapshot aggID s =
     (case pool_Query (latest_snapshot aggID) s of
        (Inl err, s1) \<Rightarrow> (Inl (Wrap ''failed to load snapshot'' err), s1)
      | (Inr None, s1) \<Rightarrow> (Inr (None, 0), s1)
      | (Inr (Some r), s1) \<Rightarrow> (Inr (Some (sn_payload r), sn_aggregate_version r), s1))"

text \<open>\<open>SELECT \<dots> FROM event_store WHERE aggregate_id = $1 AND version > $2 ORDER BY version ASC\<close>.\<close>

definition event_rows :: "uuid \<Rightarrow> int \<Rightarrow> db \<Rightarrow> event_row list" where
  "event_rows aggID fromVersion d =
     sort_key oe_Version
       (filter (\<lambda>r. oe_AggregateID r = aggID \<and> oe_Version r > fromVersion) (event_store d))"

text \<open>The body of the loop over the rows.\<close>

definition decode_row :: "registry \<Rightarrow> event_row \<Rightarrow> error + event" where
  "decode_row reg r =
     (case CreateEvent reg (oe_EventType r) of
        Inl err \<Rightarrow> Inl err
      | Inr evtData \<Rightarrow> wrapE ''failed to unmarshal event payload'' (unmarshal_event (oe_Payload r) evtData))"

definition loadEvents ::
  "registry \<Rightarrow> uuid \<Rightarrow> int \<Rightarrow> 'x session_scheme \<Rightarrow> (error + event list) \<times> 'x session_scheme" where
  "loadEvents reg aggID fromVersion s =
     (case pool_Query (event_rows aggID fromVersion) s of
        (Inl err, s1) \<Rightarrow> (Inl (Wrap ''failed to query events'' err), s1)
      | (Inr rows, s1) \<Rightarrow>
          (case mapE (decode_row reg) rows of
             Inl err \<Rightarrow> (Inl err, s1)
           | Inr events \<Rightarrow>
               (case next_fault s1 of
                  (Some (Fault err _), s2) \<Rightarrow> (Inl err, s2)
                | (None, s2) \<Rightarrow> (Inr events, s2))))"

definition Load ::
  "registry \<Rightarrow> ctx \<Rightarrow> uuid \<Rightarrow> 'x session_scheme
     \<Rightarrow> (error + json option \<times> int \<times> event list) \<times> 'x session_scheme" where
  "Load reg ctx aggID s =
     (case loadSnapshot aggID s of
        (Inl err, s1) \<Rightarrow> (Inl (Wrap ''failed to load snapshot'' err), s1)
      | (Inr (snapshot, version), s1) \<Rightarrow>
          (case loadEvents reg aggID version s1 of
             (Inl err, s2) \<Rightarrow> (Inl (Wrap ''failed to load events'' err), s2)
           | (Inr events, s2) \<Rightarrow> (Inr (snapshot, version, events), s2)))"

section \<open>What the writes do\<close>

fun exec_stmts :: "stmt list \<Rightarrow> db \<Rightarrow> db option" where
  "exec_stmts [] d = Some d"
| "exec_stmts (st # sts) d =
     (case exec_stmt st d of Inl _ \<Rightarrow> None | Inr (_, d') \<Rightarrow> exec_stmts sts d')"

lemma br_Exec_all_frame: "br_Exec_all sts s = (r, s') \<Longrightarrow> same_outside s s'"
proof (induction sts arbitrary: s)
  case Nil
  then show ?case by simp
next
  case (Cons st sts)
  obtain r1 s1 where s1: "tx_Exec st s = (r1, s1)" by fastforce
  with Cons have "same_outside s1 s'" by (cases r1) auto
  with tx_Exec_frame [OF s1] show ?case by (rule same_outside_trans)
qed

lemma br_Exec_all_ok:
  "br_Exec_all sts s = (None, s') \<Longrightarrow> tx_open s \<Longrightarrow>
     exec_stmts sts (tx_view s) = Some (tx_view s') \<and> tx_open s'"
proof (induction sts arbitrary: s)
  case Nil
  then show ?case by simp
next
  case (Cons st sts)
  from Cons.prems(1) obtain n s1 where s1: "tx_Exec st s = (Inr n, s1)"
    and rest: "br_Exec_all sts s1 = (None, s')"
    by (auto split: prod.splits sum.splits)
  from Cons.IH [OF rest tx_Exec_ok(2) [OF s1]] tx_Exec_ok(3) [OF s1] show ?case by simp
qed

lemma br_Exec_all_nofault:
  "faults s = [] \<Longrightarrow> tx_open s \<Longrightarrow> exec_stmts sts (tx_view s) = Some d \<Longrightarrow>
     \<exists>s'. br_Exec_all sts s = (None, s') \<and> faults s' = [] \<and> tx_open s' \<and> tx_view s' = d \<and> same_outside s s'"
proof (induction sts arbitrary: s)
  case Nil
  then show ?case by auto
next
  case (Cons st sts)
  from Cons.prems(3) obtain n d1 where d1: "exec_stmt st (tx_view s) = Inr (n, d1)"
    and rest: "exec_stmts sts d1 = Some d"
    by (auto split: sum.splits)
  from tx_Exec_nofault [OF Cons.prems(1,2) d1] obtain s1 where s1: "tx_Exec st s = (Inr n, s1)"
    "faults s1 = []" "tx_open s1" "tx_view s1 = d1" "same_outside s s1" by blast
  with Cons.IH [OF s1(2,3)] rest obtain s' where "br_Exec_all sts s1 = (None, s')" "faults s' = []"
    "tx_open s'" "tx_view s' = d" "same_outside s1 s'" by auto
  with s1 show ?case by (auto intro: same_outside_trans)
qed

text \<open>The failure of a batch that the constraints refuse, when the network does not fail.\<close>

lemma br_Exec_all_refused:
  "faults s = [] \<Longrightarrow> tx_open s \<Longrightarrow> exec_stmt st (tx_view s) = Inl code \<Longrightarrow>
     br_Exec_all (st # sts) s = (Some (PgError code), abort_tx s)"
  by (auto simp: tx_Exec_def tx_open_def)

lemma br_Close_frame: "br_Close s = (r, s') \<Longrightarrow> same_outside s s' \<and> tx_view s' = tx_view s"
  by (auto simp: br_Close_def same_outside_def split: prod.splits option.splits fault.splits
      dest!: next_faultD)

lemma br_Close_ok: "br_Close s = (None, s') \<Longrightarrow> tx_open s' = tx_open s"
  by (auto simp: br_Close_def split: prod.splits option.splits fault.splits dest!: next_faultD)
     (simp add: tx_open_def)+

lemma br_Close_nofault [simp]: "faults s = [] \<Longrightarrow> br_Close s = (None, s)"
  by (simp add: br_Close_def)

text \<open>The constraints that a batch of rows has to meet.\<close>

definition row_sized :: "OutboxEvent \<Rightarrow> bool" where
  "row_sized r \<longleftrightarrow> varchar255 (oe_AggregateType r) \<and> varchar255 (oe_EventType r) \<and> int4 (oe_Version r)"

abbreviation row_key :: "OutboxEvent \<Rightarrow> uuid \<times> int" where
  "row_key r \<equiv> (oe_AggregateID r, oe_Version r)"

lemma exec_InsertEvent_iff:
  "exec_stmt (InsertEvent r) d = Inr (n, d') \<longleftrightarrow>
     row_sized r \<and> oe_EventID r \<notin> oe_EventID ` set (event_store d) \<and>
     row_key r \<notin> row_key ` set (event_store d) \<and>
     n = 1 \<and> d' = d\<lparr>event_store := event_store d @ [r]\<rparr>"
  by (auto simp: row_sized_def notin_image_iff)

lemma exec_InsertOutbox_iff:
  "exec_stmt (InsertOutbox r) d = Inr (n, d') \<longleftrightarrow>
     row_sized r \<and> oe_EventID r \<notin> (oe_EventID \<circ> ob_event) ` set (outbox d) \<and>
     n = 1 \<and> d' = d\<lparr>outbox := outbox d @ [\<lparr>ob_event = r, published = False\<rparr>]\<rparr>"
  by (auto simp: row_sized_def notin_image_iff)

declare exec_stmt.simps(1,2) [simp del]

lemma exec_stmts_Cons_Some:
  "exec_stmts (st # sts) d = Some d' \<longleftrightarrow>
     (\<exists>n d1. exec_stmt st d = Inr (n, d1) \<and> exec_stmts sts d1 = Some d')"
  by (auto split: sum.splits)

lemma insert_events_iff:
  "exec_stmts (map InsertEvent rows) d = Some d' \<longleftrightarrow>
     (\<forall>r \<in> set rows. row_sized r) \<and>
     distinct (map oe_EventID rows) \<and> oe_EventID ` set rows \<inter> oe_EventID ` set (event_store d) = {} \<and>
     distinct (map row_key rows) \<and> row_key ` set rows \<inter> row_key ` set (event_store d) = {} \<and>
     d' = d\<lparr>event_store := event_store d @ rows\<rparr>"
proof (induction rows arbitrary: d)
  case Nil
  then show ?case by auto
next
  case (Cons r rows)
  show ?case
    by (auto simp del: exec_stmts.simps simp add: exec_stmts_Cons_Some exec_InsertEvent_iff Cons.IH)
qed

abbreviation unpublished_rows :: "OutboxEvent list \<Rightarrow> outbox_row list" where
  "unpublished_rows \<equiv> map (\<lambda>r. \<lparr>ob_event = r, published = False\<rparr>)"

lemma insert_outbox_iff:
  "exec_stmts (map InsertOutbox rows) d = Some d' \<longleftrightarrow>
     (\<forall>r \<in> set rows. row_sized r) \<and>
     distinct (map oe_EventID rows) \<and>
     oe_EventID ` set rows \<inter> (oe_EventID \<circ> ob_event) ` set (outbox d) = {} \<and>
     d' = d\<lparr>outbox := outbox d @ unpublished_rows rows\<rparr>"
proof (induction rows arbitrary: d)
  case Nil
  then show ?case by auto
next
  case (Cons r rows)
  show ?case
    by (auto simp del: exec_stmts.simps simp add: exec_stmts_Cons_Some exec_InsertOutbox_iff Cons.IH)
qed

section \<open>The effect of \<open>Save\<close>\<close>

text \<open>Rows that the constraints of both tables accept.\<close>

definition fresh_rows :: "event_row list \<Rightarrow> db \<Rightarrow> bool" where
  "fresh_rows rows d \<longleftrightarrow>
     (\<forall>r \<in> set rows. row_sized r) \<and>
     distinct (map oe_EventID rows) \<and> oe_EventID ` set rows \<inter> oe_EventID ` set (event_store d) = {} \<and>
     distinct (map row_key rows) \<and> row_key ` set rows \<inter> row_key ` set (event_store d) = {} \<and>
     oe_EventID ` set rows \<inter> (oe_EventID \<circ> ob_event) ` set (outbox d) = {}"

definition append_rows :: "event_row list \<Rightarrow> db \<Rightarrow> db" where
  "append_rows rows d =
     d\<lparr>event_store := event_store d @ rows, outbox := outbox d @ unpublished_rows rows\<rparr>"

definition snapshot_of :: "'a aggregate_root_scheme \<Rightarrow> json \<Rightarrow> snapshot_row" where
  "snapshot_of a j = \<lparr>sn_aggregate_id = ar_id a, sn_aggregate_type = ar_aggType a,
                      sn_aggregate_version = ar_version a, sn_payload = j\<rparr>"

lemma append_rows_simps [simp]:
  "event_store (append_rows rows d) = event_store d @ rows"
  "outbox (append_rows rows d) = outbox d @ unpublished_rows rows"
  "snapshots (append_rows rows d) = snapshots d"
  "processed_events (append_rows rows d) = processed_events d"
  "product_views (append_rows rows d) = product_views d"
  "versioned_views (append_rows rows d) = versioned_views d"
  by (simp_all add: append_rows_def)

lemma saveEventsInTx_frame: "saveEventsInTx es s = (r, s') \<Longrightarrow> same_outside s s'"
  by (auto simp: saveEventsInTx_def split: sum.splits prod.splits option.splits
      dest!: br_Exec_all_frame br_Close_frame intro: same_outside_trans)

lemma SaveEvents_frame: "SaveEvents c es s = (r, s') \<Longrightarrow> same_outside s s'"
  by (auto simp: SaveEvents_def split: if_splits sum.splits prod.splits option.splits
      dest!: br_Exec_all_frame br_Close_frame intro: same_outside_trans)

lemma saveSnapshotInTx_frame: "saveSnapshotInTx m a s = (r, s') \<Longrightarrow> same_outside s s'"
  by (auto simp: saveSnapshotInTx_def split: sum.splits prod.splits dest: call_frames)

lemma Save_frame:
  assumes "Save f m c a s = (r, s')"
  shows "same_outside s s'"
proof -
  obtain r1 s1 where s1: "saveEventsInTx (ar_events a) s = (r1, s1)" by fastforce
  obtain r2 s2 where s2: "SaveEvents c (ar_events a) s1 = (r2, s2)" by fastforce
  obtain r3 s3 where s3: "saveSnapshotInTx m a s2 = (r3, s3)" by fastforce
  have "same_outside s s1" "same_outside s1 s2" "same_outside s2 s3"
    using s1 s2 s3 saveEventsInTx_frame SaveEvents_frame saveSnapshotInTx_frame by blast+
  moreover have "s' = s \<or> s' = s1 \<or> s' = s2 \<or> s' = s3"
    using assms s1 s2 s3
    by (auto simp: Save_def GetUncommittedEvents_def Let_def split: if_splits option.splits)
  ultimately show ?thesis using same_outside_trans by blast
qed

lemma saveEventsInTx_ok:
  assumes "saveEventsInTx es s = (None, s')" "tx_open s"
  obtains rows where "mapE event_row_of es = Inr rows" "tx_open s'"
    "exec_stmts (map InsertEvent rows) (tx_view s) = Some (tx_view s')"
proof -
  from assms obtain rows s1 where "mapE event_row_of es = Inr rows"
    "br_Exec_all (map InsertEvent rows) s = (None, s1)" "br_Close s1 = (None, s')"
    by (auto simp: saveEventsInTx_def split: sum.splits prod.splits option.splits)
  with assms(2) that br_Exec_all_ok br_Close_ok br_Close_frame show thesis by metis
qed

lemma SaveEvents_ok:
  assumes "SaveEvents c es s = (None, s')" "tx_open s"
  obtains rows where "c = TxCtx" "mapE event_row_of es = Inr rows" "tx_open s'"
    "exec_stmts (map InsertOutbox rows) (tx_view s) = Some (tx_view s')"
proof -
  from assms obtain rows s1 where "c = TxCtx" "mapE event_row_of es = Inr rows"
    "br_Exec_all (map InsertOutbox rows) s = (None, s1)" "br_Close s1 = (None, s')"
    by (auto simp: SaveEvents_def split: if_splits sum.splits prod.splits option.splits)
  with assms(2) that br_Exec_all_ok br_Close_ok br_Close_frame show thesis by metis
qed

lemma saveSnapshotInTx_view:
  assumes "saveSnapshotInTx m a s = (r, s')" "tx_open s"
  shows "tx_view s' = tx_view s \<or>
    (\<exists>j. m a = Inr j \<and> tx_view s' = (tx_view s)\<lparr>snapshots := snapshots (tx_view s) @ [snapshot_of a j]\<rparr> \<and>
       (ar_id a, ar_version a) \<notin> (\<lambda>x. (sn_aggregate_id x, sn_aggregate_version x)) ` set (snapshots (tx_view s)))"
proof (cases "m a")
  case (Inl e)
  with assms show ?thesis by (simp add: saveSnapshotInTx_def)
next
  case (Inr j)
  show ?thesis
  proof (cases "tx_Exec (InsertSnapshot (snapshot_of a j)) s")
    case (Pair r1 s1)
    with assms Inr have s': "s' = s1"
      by (auto simp: saveSnapshotInTx_def snapshot_of_def split: sum.splits)
    show ?thesis
    proof (cases r1)
      case (Inl e)
      with Pair s' tx_Exec_error(2) show ?thesis by blast
    next
      case (Inr n)
      with Pair s' have "exec_stmt (InsertSnapshot (snapshot_of a j)) (tx_view s) = Inr (n, tx_view s')"
        using tx_Exec_ok(3) by blast
      with \<open>m a = Inr j\<close> show ?thesis
        by (auto simp: snapshot_of_def notin_image_iff split: if_splits)
    qed
  qed
qed

lemma Save_ok:
  assumes "Save f m c a s = (None, s')" "tx_open s" "ar_events a \<noteq> []"
  obtains rows sn where "c = TxCtx" "mapE event_row_of (ar_events a) = Inr rows"
    "fresh_rows rows (tx_view s)"
    "tx_view s' = (append_rows rows (tx_view s))\<lparr>snapshots := snapshots (tx_view s) @ sn\<rparr>"
    "sn = [] \<or> (\<exists>j. shouldSnapshot f a \<and> m a = Inr j \<and> sn = [snapshot_of a j] \<and>
       (ar_id a, ar_version a) \<notin> (\<lambda>x. (sn_aggregate_id x, sn_aggregate_version x)) ` set (snapshots (tx_view s)))"
proof -
  from assms obtain s1 s2 where s1: "saveEventsInTx (ar_events a) s = (None, s1)"
    and s2: "SaveEvents c (ar_events a) s1 = (None, s2)"
    and s': "s' = (if shouldSnapshot f a then snd (saveSnapshotInTx m a s2) else s2)"
    by (auto simp: Save_def GetUncommittedEvents_def Let_def split: if_splits prod.splits option.splits)
  from saveEventsInTx_ok [OF s1 assms(2)] obtain rows where rows: "mapE event_row_of (ar_events a) = Inr rows"
    and o1: "tx_open s1" and e1: "exec_stmts (map InsertEvent rows) (tx_view s) = Some (tx_view s1)" by blast
  from SaveEvents_ok [OF s2 o1] rows have c: "c = TxCtx" and o2: "tx_open s2"
    and e2: "exec_stmts (map InsertOutbox rows) (tx_view s1) = Some (tx_view s2)" by auto
  from e1 e2 have fresh: "fresh_rows rows (tx_view s)"
    and v2: "tx_view s2 = append_rows rows (tx_view s)"
    by (auto simp: insert_events_iff insert_outbox_iff fresh_rows_def append_rows_def)
  show thesis
  proof (cases "shouldSnapshot f a")
    case False
    with s' v2 that [OF c rows fresh, of "[]"] show thesis by simp
  next
    case True
    obtain r where "saveSnapshotInTx m a s2 = (r, s')"
      using s' True by (metis prod.collapse)
    with saveSnapshotInTx_view [OF this o2] v2 True that [OF c rows fresh, of "[]"]
      that [OF c rows fresh, of "[snapshot_of a _]"]
    show thesis by fastforce
  qed
qed

section \<open>The store invariant\<close>

text \<open>A row that was written for an event of a registered type.\<close>

definition valid_row :: "event_row \<Rightarrow> bool" where
  "valid_row r \<longleftrightarrow> (\<exists>e. registered e \<and> event_row_of e = Inr r) \<and> row_sized r"

abbreviation snapshot_key :: "snapshot_row \<Rightarrow> uuid \<times> int" where
  "snapshot_key r \<equiv> (sn_aggregate_id r, sn_aggregate_version r)"

text \<open>
  The tables of the write side: the declared keys are unique, every row decodes, and the
  outbox holds exactly the rows of the event store, in the same order.
\<close>

definition store_wf :: "db \<Rightarrow> bool" where
  "store_wf d \<longleftrightarrow>
     distinct (map oe_EventID (event_store d)) \<and>
     distinct (map row_key (event_store d)) \<and>
     (\<forall>r \<in> set (event_store d). valid_row r) \<and>
     map ob_event (outbox d) = event_store d \<and>
     distinct (map snapshot_key (snapshots d))"

lemma store_wf_empty: "store_wf empty_db"
  by (simp add: store_wf_def empty_db_def)

lemma store_wf_append:
  assumes "store_wf d" "fresh_rows rows d" "\<And>r. r \<in> set rows \<Longrightarrow> valid_row r"
    and "sn = [] \<or> (\<exists>r. sn = [r] \<and> snapshot_key r \<notin> snapshot_key ` set (snapshots d))"
  shows "store_wf ((append_rows rows d)\<lparr>snapshots := snapshots d @ sn\<rparr>)"
proof -
  have "distinct (map oe_EventID (event_store d @ rows))"
    using assms(1,2) by (auto simp: store_wf_def fresh_rows_def)
  moreover have "distinct (map row_key (event_store d @ rows))"
    using assms(1,2) unfolding store_wf_def fresh_rows_def map_append distinct_append set_map
    by (simp add: Int_commute)
  moreover have "map ob_event (outbox d @ unpublished_rows rows) = event_store d @ rows"
    using assms(1) by (simp add: store_wf_def comp_def)
  moreover have "distinct (map snapshot_key (snapshots d @ sn))"
    using assms(1,4) by (auto simp: store_wf_def notin_image_iff)
  ultimately show ?thesis
    using assms(1,3) by (auto simp: store_wf_def)
qed

lemma valid_rowI:
  "event_row_of e = Inr r \<Longrightarrow> registered e \<Longrightarrow> row_sized r \<Longrightarrow> valid_row r"
  by (auto simp: valid_row_def)

lemma mapE_valid_rows:
  assumes "mapE event_row_of es = Inr rows" "\<And>e. e \<in> set es \<Longrightarrow> registered e"
    "\<And>r. r \<in> set rows \<Longrightarrow> row_sized r"
  shows "r \<in> set rows \<Longrightarrow> valid_row r"
  using assms by (fastforce simp: mapE_Inr_iff list_all2_conv_all_nth in_set_conv_nth intro: valid_rowI)

text \<open>The write side of a database after a statement that does not touch it.\<close>

lemma store_wf_cong:
  "event_store d' = event_store d \<Longrightarrow> map ob_event (outbox d') = map ob_event (outbox d) \<Longrightarrow>
     snapshots d' = snapshots d \<Longrightarrow> store_wf d' = store_wf d"
  by (simp add: store_wf_def)

section \<open>Reading back\<close>

lemma event_row_of_fields:
  assumes "event_row_of e = Inr r"
  shows "oe_EventID r = EventID e" "oe_AggregateID r = AggregateID e" "oe_Version r = Version e"
    "oe_EventType r = EventType e" "oe_AggregateType r = AggregateType e" "oe_Ts r = Timestamp e"
    "marshal_event e = Inr (oe_Payload r)"
  using assms by (auto simp: event_row_of_def split: sum.splits)

lemma int4_int64: "int4 n \<Longrightarrow> int64 n"
  by (simp add: int4_def int64_def)

lemma decode_row_event_row_of:
  assumes "event_row_of e = Inr r" "registered e" "int64 (Version e)"
  shows "decode_row eventRegistry r = Inr e"
proof -
  obtain z where z: "CreateEvent eventRegistry (EventType e) = Inr z" "set_body z (body e) = e"
    using CreateEvent_EventType [OF assms(2)] by blast
  note f = event_row_of_fields [OF assms(1)]
  have "unmarshal_event (oe_Payload r) z = Inr e"
    using unmarshal_marshal_event [OF f(7) assms(3)] z(2) by simp
  with z(1) f(4) show ?thesis by (simp add: decode_row_def)
qed

definition event_of_row :: "event_row \<Rightarrow> event" where
  "event_of_row r = projr (decode_row eventRegistry r)"

lemma valid_row_decode:
  assumes "valid_row r"
  shows "decode_row eventRegistry r = Inr (event_of_row r)"
    "event_row_of (event_of_row r) = Inr r" "registered (event_of_row r)"
proof -
  from assms obtain e where e: "registered e" "event_row_of e = Inr r" "row_sized r"
    by (auto simp: valid_row_def)
  then have "decode_row eventRegistry r = Inr e"
    using decode_row_event_row_of int4_int64 event_row_of_fields(3) [OF e(2)]
    by (auto simp: row_sized_def)
  with e show "decode_row eventRegistry r = Inr (event_of_row r)"
    "event_row_of (event_of_row r) = Inr r" "registered (event_of_row r)"
    by (simp_all add: event_of_row_def)
qed

lemma valid_row_fields:
  assumes "valid_row r"
  shows "EventID (event_of_row r) = oe_EventID r" "AggregateID (event_of_row r) = oe_AggregateID r"
    "Version (event_of_row r) = oe_Version r"
  using event_row_of_fields [OF valid_row_decode(2) [OF assms]] by simp_all

text \<open>The event stream of one aggregate, in version order.\<close>

definition stream_rows :: "uuid \<Rightarrow> db \<Rightarrow> event_row list" where
  "stream_rows a d = sort_key oe_Version (filter (\<lambda>r. oe_AggregateID r = a) (event_store d))"

definition stream :: "uuid \<Rightarrow> db \<Rightarrow> event list" where
  "stream a d = map event_of_row (stream_rows a d)"

lemma event_rows_stream: "event_rows a v d = filter (\<lambda>r. v < oe_Version r) (stream_rows a d)"
  by (simp add: event_rows_def stream_rows_def filter_sort conj_commute)

lemma set_stream_rows: "set (stream_rows a d) = {r \<in> set (event_store d). oe_AggregateID r = a}"
  by (auto simp: stream_rows_def)

lemma mapE_decode_rows:
  "(\<And>r. r \<in> set rows \<Longrightarrow> valid_row r) \<Longrightarrow>
     mapE (decode_row eventRegistry) rows = Inr (map event_of_row rows)"
  by (rule mapE_all_Inr) (rule valid_row_decode(1))

lemma filter_event_of_rows:
  "(\<And>r. r \<in> set rows \<Longrightarrow> valid_row r) \<Longrightarrow>
     map event_of_row (filter (\<lambda>r. v < oe_Version r) rows) =
     filter (\<lambda>e. v < Version e) (map event_of_row rows)"
  by (induction rows) (auto simp: valid_row_fields)

definition loaded_snapshot :: "uuid \<Rightarrow> db \<Rightarrow> json option \<times> int" where
  "loaded_snapshot a d =
     (case latest_snapshot a d of
        None \<Rightarrow> (None, 0) | Some r \<Rightarrow> (Some (sn_payload r), sn_aggregate_version r))"

lemma loadSnapshot_frame:
  "loadSnapshot a s = (r, s') \<Longrightarrow> same_outside s s' \<and> cur_tx s' = cur_tx s"
  by (auto simp: loadSnapshot_def split: prod.splits sum.splits option.splits dest: call_frames)

lemma loadSnapshot_ok:
  "loadSnapshot a s = (Inr x, s') \<Longrightarrow> x = loaded_snapshot a (committed s)"
  by (auto simp: loadSnapshot_def loaded_snapshot_def split: prod.splits sum.splits option.splits
      dest!: pool_Query_ok)

lemma loadEvents_frame:
  assumes "loadEvents reg a v s = (r, s')"
  shows "same_outside s s' \<and> cur_tx s' = cur_tx s"
proof -
  obtain r1 s1 where s1: "pool_Query (event_rows a v) s = (r1, s1)" by fastforce
  obtain f s2 where s2: "next_fault s1 = (f, s2)" by fastforce
  have "s' = s1 \<or> s' = s2"
    using assms s1 s2
    by (auto simp: loadEvents_def split: sum.splits option.splits fault.splits)
  moreover have "same_outside s s1 \<and> cur_tx s1 = cur_tx s" using pool_Query_frame [OF s1] by simp
  moreover have "same_outside s1 s2 \<and> cur_tx s2 = cur_tx s1" using next_fault_frame [OF s2] by simp
  ultimately show ?thesis using same_outside_trans by metis
qed

lemma store_wf_stream_valid: "store_wf d \<Longrightarrow> r \<in> set (stream_rows a d) \<Longrightarrow> valid_row r"
  by (auto simp: store_wf_def set_stream_rows)

lemma decode_event_rows:
  assumes "store_wf d"
  shows "mapE (decode_row eventRegistry) (event_rows a v d) = Inr (filter (\<lambda>e. v < Version e) (stream a d))"
proof -
  have valid: "valid_row r" if "r \<in> set (stream_rows a d)" for r
    using that assms store_wf_stream_valid by blast
  then have "mapE (decode_row eventRegistry) (event_rows a v d) = Inr (map event_of_row (event_rows a v d))"
    by (intro mapE_decode_rows) (simp add: event_rows_stream)
  also have "map event_of_row (event_rows a v d) = filter (\<lambda>e. v < Version e) (stream a d)"
    unfolding event_rows_stream stream_def using valid by (rule filter_event_of_rows)
  finally show ?thesis .
qed

lemma loadEvents_ok:
  assumes "loadEvents eventRegistry a v s = (Inr es, s')" "store_wf (committed s)"
  shows "es = filter (\<lambda>e. v < Version e) (stream a (committed s))"
proof -
  obtain r1 s1 where s1: "pool_Query (event_rows a v) s = (r1, s1)" by fastforce
  show ?thesis
  proof (cases r1)
    case (Inl e)
    with assms(1) s1 show ?thesis by (simp add: loadEvents_def)
  next
    case (Inr rows)
    have "rows = event_rows a v (committed s)" using pool_Query_ok [OF s1 [unfolded Inr]] .
    with decode_event_rows [OF assms(2)]
    have m: "mapE (decode_row eventRegistry) rows = Inr (filter (\<lambda>e. v < Version e) (stream a (committed s)))"
      by simp
    obtain f s2 where s2: "next_fault s1 = (f, s2)" by fastforce
    from assms(1) show ?thesis
      unfolding loadEvents_def s1 Inr
      by (cases f) (simp_all add: m s2 split: fault.splits)
  qed
qed

lemma Load_ok:
  assumes "Load eventRegistry c a s = (Inr (snap, v, es), s')" "store_wf (committed s)"
  shows "(snap, v) = loaded_snapshot a (committed s)"
    "es = filter (\<lambda>e. v < Version e) (stream a (committed s))"
    "same_outside s s'" "cur_tx s' = cur_tx s"
proof -
  from assms(1) obtain s1 where s1: "loadSnapshot a s = (Inr (snap, v), s1)"
    and s': "loadEvents eventRegistry a v s1 = (Inr es, s')"
    by (auto simp: Load_def split: prod.splits sum.splits)
  from loadSnapshot_frame [OF s1] have f1: "same_outside s s1" "cur_tx s1 = cur_tx s" by simp_all
  from loadEvents_frame [OF s'] have f2: "same_outside s1 s'" "cur_tx s' = cur_tx s1" by simp_all
  show "(snap, v) = loaded_snapshot a (committed s)" using loadSnapshot_ok [OF s1] .
  show "es = filter (\<lambda>e. v < Version e) (stream a (committed s))"
    using loadEvents_ok [OF s'] assms(2) same_outsideD(1) [OF f1(1)] by simp
  show "same_outside s s'" using f1(1) f2(1) by (rule same_outside_trans)
  show "cur_tx s' = cur_tx s" using f1(2) f2(2) by simp
qed

lemma Load_frame:
  assumes "Load reg c a s = (r, s')"
  shows "same_outside s s' \<and> cur_tx s' = cur_tx s"
proof -
  obtain r1 s1 where s1: "loadSnapshot a s = (r1, s1)" by fastforce
  show ?thesis
  proof (cases r1)
    case (Inl e)
    with assms s1 have "s' = s1" by (simp add: Load_def)
    with loadSnapshot_frame [OF s1] show ?thesis by simp
  next
    case (Inr x)
    then obtain snap v where x: "r1 = Inr (snap, v)" by (cases x) auto
    obtain r2 s2 where s2: "loadEvents reg a v s1 = (r2, s2)" by fastforce
    with assms s1 x have "s' = s2" by (auto simp: Load_def split: sum.splits)
    with loadSnapshot_frame [OF s1] loadEvents_frame [OF s2] show ?thesis
      using same_outside_trans by metis
  qed
qed

lemma loadSnapshot_nofault:
  "faults s = [] \<Longrightarrow> loadSnapshot a s = (Inr (loaded_snapshot a (committed s)), s)"
  by (simp add: loadSnapshot_def loaded_snapshot_def split: option.splits)

lemma loadEvents_nofault:
  assumes "faults s = []" "store_wf (committed s)"
  shows "loadEvents eventRegistry a v s = (Inr (filter (\<lambda>e. v < Version e) (stream a (committed s))), s)"
  by (simp add: loadEvents_def assms(1) decode_event_rows [OF assms(2)])

lemma Load_nofault:
  assumes "faults s = []" "store_wf (committed s)" "loaded_snapshot a (committed s) = (snap, v)"
  shows "Load eventRegistry c a s =
    (Inr (snap, v, filter (\<lambda>e. v < Version e) (stream a (committed s))), s)"
  by (simp add: Load_def loadSnapshot_nofault [OF assms(1)] loadEvents_nofault [OF assms(1,2)] assms(3))

section \<open>\<open>Save\<close> without faults\<close>

lemma saveEventsInTx_nofault:
  assumes "faults s = []" "tx_open s" "mapE event_row_of es = Inr rows"
    "exec_stmts (map InsertEvent rows) (tx_view s) = Some d"
  shows "\<exists>s'. saveEventsInTx es s = (None, s') \<and> faults s' = [] \<and> tx_open s' \<and> tx_view s' = d \<and> same_outside s s'"
  using br_Exec_all_nofault [OF assms(1,2,4)] assms(3) by (auto simp: saveEventsInTx_def)

lemma SaveEvents_nofault:
  assumes "faults s = []" "tx_open s" "mapE event_row_of es = Inr rows"
    "exec_stmts (map InsertOutbox rows) (tx_view s) = Some d"
  shows "\<exists>s'. SaveEvents TxCtx es s = (None, s') \<and> faults s' = [] \<and> tx_open s' \<and> tx_view s' = d \<and> same_outside s s'"
  using br_Exec_all_nofault [OF assms(1,2,4)] assms(3) by (auto simp: SaveEvents_def)

text \<open>A snapshot whose columns accept it.\<close>

definition snapshot_fits :: "int \<Rightarrow> 'a aggregate_root_scheme \<Rightarrow> bool" where
  "snapshot_fits f a \<longleftrightarrow> (shouldSnapshot f a \<longrightarrow> varchar255 (ar_aggType a) \<and> int4 (ar_version a))"

definition snapshots_after ::
  "int \<Rightarrow> ('a aggregate_root_scheme \<Rightarrow> error + json) \<Rightarrow> 'a aggregate_root_scheme \<Rightarrow> db \<Rightarrow> snapshot_row list" where
  "snapshots_after f m a d =
     (case m a of
        Inl _ \<Rightarrow> []
      | Inr j \<Rightarrow>
          if shouldSnapshot f a \<and> (ar_id a, ar_version a) \<notin> snapshot_key ` set (snapshots d)
          then [snapshot_of a j] else [])"

lemma saveSnapshotInTx_nofault:
  assumes "faults s = []" "tx_open s" "shouldSnapshot f a" "snapshot_fits f a"
  shows "\<exists>r s'. saveSnapshotInTx m a s = (r, s') \<and> faults s' = [] \<and> tx_open s' \<and> same_outside s s' \<and>
    tx_view s' = (tx_view s)\<lparr>snapshots := snapshots (tx_view s) @ snapshots_after f m a (tx_view s)\<rparr>"
proof (cases "m a")
  case (Inl e)
  then show ?thesis using assms by (simp add: saveSnapshotInTx_def snapshots_after_def)
next
  case (Inr j)
  define d where "d = (tx_view s)\<lparr>snapshots := snapshots (tx_view s) @ snapshots_after f m a (tx_view s)\<rparr>"
  have "\<exists>n. exec_stmt (InsertSnapshot (snapshot_of a j)) (tx_view s) = Inr (n, d)"
    using assms(3,4) Inr
    by (auto simp: snapshot_of_def snapshot_fits_def snapshots_after_def d_def notin_image_iff)
  then obtain n where "exec_stmt (InsertSnapshot (snapshot_of a j)) (tx_view s) = Inr (n, d)" ..
  from tx_Exec_nofault [OF assms(1,2) this] Inr show ?thesis
    by (auto simp: saveSnapshotInTx_def snapshot_of_def d_def)
qed

lemma Save_nofault:
  assumes "faults s = []" "tx_open s" "ar_events a \<noteq> []" "mapE event_row_of (ar_events a) = Inr rows"
    "fresh_rows rows (tx_view s)" "snapshot_fits f a"
  shows "\<exists>s'. Save f m TxCtx a s = (None, s') \<and> faults s' = [] \<and> tx_open s' \<and> same_outside s s' \<and>
    tx_view s' = (append_rows rows (tx_view s))
      \<lparr>snapshots := snapshots (tx_view s) @ snapshots_after f m a (tx_view s)\<rparr>"
proof -
  have "exec_stmts (map InsertEvent rows) (tx_view s) =
      Some ((tx_view s)\<lparr>event_store := event_store (tx_view s) @ rows\<rparr>)"
    using assms(5) by (simp add: insert_events_iff fresh_rows_def)
  from saveEventsInTx_nofault [OF assms(1,2,4) this] obtain s1 where
    s1: "saveEventsInTx (ar_events a) s = (None, s1)" "faults s1 = []" "tx_open s1" "same_outside s s1"
    and v1: "tx_view s1 = (tx_view s)\<lparr>event_store := event_store (tx_view s) @ rows\<rparr>" by blast
  have "exec_stmts (map InsertOutbox rows) (tx_view s1) = Some (append_rows rows (tx_view s))"
    using assms(5) v1 by (simp add: insert_outbox_iff fresh_rows_def append_rows_def)
  from SaveEvents_nofault [OF s1(2,3) assms(4) this] obtain s2 where
    s2: "SaveEvents TxCtx (ar_events a) s1 = (None, s2)" "faults s2 = []" "tx_open s2" "same_outside s1 s2"
    and v2: "tx_view s2 = append_rows rows (tx_view s)" by blast
  have same: "same_outside s s2" using s1(4) s2(4) by (rule same_outside_trans)
  show ?thesis
  proof (cases "shouldSnapshot f a")
    case False
    then have "snapshots_after f m a (tx_view s) = []" by (simp add: snapshots_after_def split: sum.splits)
    with False s1 s2 v2 same assms(3) show ?thesis by (simp add: Save_def GetUncommittedEvents_def)
  next
    case True
    from saveSnapshotInTx_nofault [OF s2(2,3) True assms(6)] obtain r s3 where
      s3: "saveSnapshotInTx m a s2 = (r, s3)" "faults s3 = []" "tx_open s3" "same_outside s2 s3"
      "tx_view s3 = (tx_view s2)\<lparr>snapshots := snapshots (tx_view s2) @ snapshots_after f m a (tx_view s2)\<rparr>"
      by blast
    moreover have "snapshots_after f m a (tx_view s2) = snapshots_after f m a (tx_view s)"
      by (simp add: snapshots_after_def v2 split: sum.splits)
    ultimately show ?thesis
      using True s1 s2 v2 same assms(3) same_outside_trans [OF same s3(4)]
      by (simp add: Save_def GetUncommittedEvents_def)
  qed
qed

text \<open>A version or an event id that is taken is a concurrency error, and the transaction is lost.\<close>

lemma Save_conflict:
  assumes "faults s = []" "tx_open s" "ar_events a = [e]" "event_row_of e = Inr r" "row_sized r"
    and "row_key r \<in> row_key ` set (event_store (tx_view s)) \<or>
         oe_EventID r \<in> oe_EventID ` set (event_store (tx_view s))"
  shows "Save f m TxCtx a s = (Some ErrConcurrency, abort_tx s)"
proof -
  have "exec_stmt (InsertEvent r) (tx_view s) = Inl ''23505''"
    using assms(5,6) by (auto simp: exec_stmt.simps(1) row_sized_def)
  from br_Exec_all_refused [OF assms(1,2) this] assms(3,4) show ?thesis
    by (simp add: Save_def GetUncommittedEvents_def saveEventsInTx_def)
qed

end
