(* ===== verification/Products.thy ===== *)
theory Products
  imports Aggregates
begin

text \<open>
  The write model of the sample: \<open>sample/domain/domain/product.go\<close>,
  \<open>sample/domain/aggregate/product_aggregate.go\<close> and the factory of
  \<open>sample/domain/repository/repository.go\<close>.
\<close>

section \<open>The domain object\<close>

record Product =
  Product_ID :: uuid
  Product_Name :: string
  Product_Price :: float64

definition Product_Validate :: "Product \<Rightarrow> error option" where
  "Product_Validate p =
     (if Product_Name p = '''' then Some (NewError ''product name cannot be empty'')
      else if f64_le (Product_Price p) (Finite 0)
      then Some (NewError ''product price must be positive'')
      else None)"

section \<open>The aggregate\<close>

definition ProductAggregateType :: string where
  "ProductAggregateType = ''products''"

record ProductAggregate = aggregate_root +
  pa_Product :: Product

definition NewProductAggregateEmpty :: ProductAggregate where
  "NewProductAggregateEmpty =
     aggregate_root.extend (NewAggregateRoot ProductAggregateType)
       \<lparr>pa_Product = \<lparr>Product_ID = uuid_Nil, Product_Name = '''', Product_Price = Finite 0\<rparr>\<rparr>"

text \<open>The factory the repository is built with; it repeats the constructor.\<close>

definition newEmptyProduct :: ProductAggregate where
  "newEmptyProduct =
     aggregate_root.extend (NewAggregateRoot ProductAggregateType)
       \<lparr>pa_Product = \<lparr>Product_ID = uuid_Nil, Product_Name = '''', Product_Price = Finite 0\<rparr>\<rparr>"

definition Validate :: "ProductAggregate \<Rightarrow> error option" where
  "Validate p = (case Product_Validate (pa_Product p) of Some err \<Rightarrow> Some err | None \<Rightarrow> None)"

definition onProductCreated :: "event_body \<Rightarrow> ProductAggregate \<Rightarrow> error option \<times> ProductAggregate" where
  "onProductCreated evt p =
     (None, (SetID (AggID (Base evt)) p)
              \<lparr>pa_Product := (pa_Product p)\<lparr>Product_Name := Name evt, Product_Price := Price evt\<rparr>\<rparr>)"

definition onProductUpdated :: "event_body \<Rightarrow> ProductAggregate \<Rightarrow> error option \<times> ProductAggregate" where
  "onProductUpdated evt p =
     (None, p\<lparr>pa_Product := (pa_Product p)\<lparr>Product_Name := Name evt, Product_Price := Price evt\<rparr>\<rparr>)"

definition Apply :: "event \<Rightarrow> ProductAggregate \<Rightarrow> error option \<times> ProductAggregate" where
  "Apply evt p =
     (case (case evt of
              ProductCreated e \<Rightarrow> onProductCreated e p
            | ProductUpdated e \<Rightarrow> onProductUpdated e p
            | _ \<Rightarrow> (Some (NewError ''unknown event type''), p)) of
        (Some err, p1) \<Rightarrow> (Some err, p1)
      | (None, p1) \<Rightarrow> (None, SetVersion (Version evt) p1))"

section \<open>Snapshots\<close>

text \<open>
  \<open>MarshalJSON\<close> encodes an anonymous struct that embeds the aggregate under an alias type.
  All fields of the embedded \<open>AggregateRoot\<close> are unexported, so the only field that reaches
  the document is \<open>Product\<close>.
\<close>

definition marshal_Product :: "Product \<Rightarrow> error + json" where
  "marshal_Product p =
     (case enc_float (Product_Price p) of
        Inl err \<Rightarrow> Inl err
      | Inr price \<Rightarrow>
          Inr (JObject [(''id'', JUuid (Product_ID p)),
                        (''name'', JString (Product_Name p)),
                        (''price'', price)]))"

definition MarshalJSON :: "ProductAggregate \<Rightarrow> error + json" where
  "MarshalJSON p =
     (case marshal_Product (pa_Product p) of
        Inl err \<Rightarrow> Inl err
      | Inr j \<Rightarrow> Inr (JObject [(''Product'', j)]))"

fun unmarshal_Product :: "json \<Rightarrow> Product \<Rightarrow> error + Product" where
  "unmarshal_Product (JObject kvs) d =
     (case dec_uuid (map_of kvs ''id'') (Product_ID d) of Inl e \<Rightarrow> Inl e | Inr i \<Rightarrow>
      case dec_string (map_of kvs ''name'') (Product_Name d) of Inl e \<Rightarrow> Inl e | Inr n \<Rightarrow>
      case dec_float (map_of kvs ''price'') (Product_Price d) of Inl e \<Rightarrow> Inl e | Inr p \<Rightarrow>
      Inr \<lparr>Product_ID = i, Product_Name = n, Product_Price = p\<rparr>)"
| "unmarshal_Product JNull d = Inr d"
| "unmarshal_Product _ d = type_error"

text \<open>\<open>UnmarshalJSON\<close> first replaces the embedded root by a fresh one.\<close>

fun UnmarshalJSON :: "json \<Rightarrow> ProductAggregate \<Rightarrow> error + ProductAggregate" where
  "UnmarshalJSON (JObject kvs) p =
     (let p1 = aggregate_root.extend (NewAggregateRoot ProductAggregateType)
                 \<lparr>pa_Product = pa_Product p\<rparr>
      in case map_of kvs ''Product'' of
           None \<Rightarrow> Inr p1
         | Some j \<Rightarrow>
             (case unmarshal_Product j (pa_Product p) of
                Inl err \<Rightarrow> Inl err
              | Inr pr \<Rightarrow> Inr (p1\<lparr>pa_Product := pr\<rparr>)))"
| "UnmarshalJSON JNull p =
     Inr (aggregate_root.extend (NewAggregateRoot ProductAggregateType) \<lparr>pa_Product = pa_Product p\<rparr>)"
| "UnmarshalJSON _ p = type_error"

section \<open>Lemmas\<close>

lemmas product_defs =
  Apply_def onProductCreated_def onProductUpdated_def SetID_def SetVersion_def

lemmas empty_product_defs =
  NewProductAggregateEmpty_def NewAggregateRoot_def aggregate_root.defs ProductAggregate.defs

lemma newEmptyProduct_eq: "newEmptyProduct = NewProductAggregateEmpty"
  by (simp add: newEmptyProduct_def NewProductAggregateEmpty_def)

lemma NewProductAggregateEmpty_simps [simp]:
  "ar_id NewProductAggregateEmpty = uuid_Nil"
  "ar_aggType NewProductAggregateEmpty = ProductAggregateType"
  "ar_version NewProductAggregateEmpty = 0"
  "ar_events NewProductAggregateEmpty = []"
  "pa_Product NewProductAggregateEmpty =
     \<lparr>Product_ID = uuid_Nil, Product_Name = '''', Product_Price = Finite 0\<rparr>"
  by (simp_all add: empty_product_defs)

interpretation product: aggregate Apply Validate
  by unfold_locales
     (auto simp: product_defs split: event.splits prod.splits option.splits)

lemma Apply_registered:
  "registered e \<Longrightarrow> \<exists>p'. Apply e p = (None, p')"
  by (cases e) (auto simp: product_defs)

lemma Apply_Product:
  "Apply e p = (None, p') \<Longrightarrow>
     pa_Product p' = (pa_Product p)\<lparr>Product_Name := Name (body e), Product_Price := Price (body e)\<rparr>"
  by (cases e) (auto simp: product_defs)

lemma LoadFromHistory_registered:
  "(\<And>e. e \<in> set es \<Longrightarrow> registered e) \<Longrightarrow> \<exists>p'. LoadFromHistory Apply es p = (None, p')"
proof (induction es arbitrary: p)
  case Nil
  then show ?case by simp
next
  case (Cons e es)
  from Cons.prems obtain p1 where "Apply e p = (None, p1)" using Apply_registered by force
  with Cons show ?case by auto
qed

lemma LoadFromHistory_Product:
  "LoadFromHistory Apply es p = (None, p') \<Longrightarrow> es \<noteq> [] \<Longrightarrow>
     pa_Product p' = (pa_Product p)\<lparr>Product_Name := Name (body (last es)),
                                    Product_Price := Price (body (last es))\<rparr>"
proof (induction es arbitrary: p)
  case Nil
  then show ?case by simp
next
  case (Cons e es)
  from Cons.prems(1) obtain p1 where p1: "Apply e p = (None, p1)"
    and rest: "LoadFromHistory Apply es p1 = (None, p')"
    by (auto split: prod.splits option.splits)
  show ?case
  proof (cases "es = []")
    case True
    with rest Apply_Product [OF p1] show ?thesis by simp
  next
    case False
    with Cons.IH [OF rest] Apply_Product [OF p1] show ?thesis by simp
  qed
qed

text \<open>A snapshot brings the product back and nothing else: the root is that of a new aggregate.\<close>

lemma UnmarshalJSON_MarshalJSON:
  assumes "MarshalJSON p = Inr j"
  shows "UnmarshalJSON j d = Inr (NewProductAggregateEmpty\<lparr>pa_Product := pa_Product p\<rparr>)"
proof -
  obtain r where r: "Product_Price (pa_Product p) = Finite r"
    using assms by (cases "Product_Price (pa_Product p)") (auto simp: MarshalJSON_def marshal_Product_def)
  then have "j = JObject [(''Product'', JObject [(''id'', JUuid (Product_ID (pa_Product p))),
      (''name'', JString (Product_Name (pa_Product p))), (''price'', JNumber r)])]"
    using assms by (auto simp: MarshalJSON_def marshal_Product_def)
  with r show ?thesis
    by (cases "pa_Product p") (auto simp: empty_product_defs)
qed

lemma MarshalJSON_Finite:
  "Product_Price (pa_Product p) = Finite r \<Longrightarrow> \<exists>j. MarshalJSON p = Inr j"
  by (auto simp: MarshalJSON_def marshal_Product_def)

section \<open>Properties\<close>

text \<open>
  \<open>TrackChange\<close> on a product either fails and leaves the list of uncommitted events as it
  was, or appends exactly the event, moves the version to the event's and leaves a product that
  passes \<open>Validate\<close>.
\<close>

theorem TrackChange_product:
  "case TrackChange Apply Validate e p of
     (Some err, p') \<Rightarrow> ar_events p' = ar_events p
   | (None, p') \<Rightarrow> ar_events p' = ar_events p @ [e] \<and> ar_version p' = Version e \<and> Validate p' = None"
proof (cases "TrackChange Apply Validate e p")
  case (Pair r p')
  show ?thesis
  proof (cases r)
    case None
    with Pair have "TrackChange Apply Validate e p = (None, p')" by simp
    then show ?thesis
      by (rule product.TrackChange_ok) (use Pair None in \<open>auto simp: Validate_def\<close>)
  next
    case (Some err)
    with Pair product.TrackChange_error show ?thesis by auto
  qed
qed

text \<open>
  Replaying a history of sample events always succeeds, ends at the version of the last
  event and at its name and price, and leaves no uncommitted events; replay is compositional,
  so a history may be replayed in two parts.
\<close>

theorem LoadFromHistory_product:
  assumes "list_all registered es" "es \<noteq> []" "es = xs @ ys"
  shows "\<exists>p'. LoadFromHistory Apply es p = (None, p') \<and> ar_version p' = Version (last es) \<and>
    ar_events p' = ar_events p \<and>
    Product_Name (pa_Product p') = Name (body (last es)) \<and>
    Product_Price (pa_Product p') = Price (body (last es)) \<and>
    (\<exists>p1. LoadFromHistory Apply xs p = (None, p1) \<and> LoadFromHistory Apply ys p1 = (None, p'))"
proof -
  obtain p' where p': "LoadFromHistory Apply es p = (None, p')"
    using LoadFromHistory_registered [of es p] assms(1) by (auto simp: list_all_iff)
  moreover obtain p1 where p1: "LoadFromHistory Apply xs p = (None, p1)"
    using LoadFromHistory_registered [of xs p] assms(1,3) by (auto simp: list_all_iff)
  ultimately show ?thesis
    using product.LoadFromHistory_version [OF p' assms(2)] product.LoadFromHistory_keeps [OF p']
      LoadFromHistory_Product [OF p' assms(2)] product.LoadFromHistory_append [of xs ys p] assms(3) by simp
qed

theorem LoadFromHistory_product_witness:
  "\<exists>p'. LoadFromHistory Apply [ProductCreated zero_body, ProductUpdated (zero_body\<lparr>Name := ''b''\<rparr>)]
      NewProductAggregateEmpty = (None, p') \<and> Product_Name (pa_Product p') = ''b''"
  using LoadFromHistory_product [of "[ProductCreated zero_body, ProductUpdated (zero_body\<lparr>Name := ''b''\<rparr>)]" "[]"
      "[ProductCreated zero_body, ProductUpdated (zero_body\<lparr>Name := ''b''\<rparr>)]" NewProductAggregateEmpty]
  by (auto simp del: LoadFromHistory.simps)

text \<open>
  The snapshot of a product is lossy: decoding what \<open>MarshalJSON\<close> wrote gives the product
  back, but with the identity, the version and the uncommitted events of a new aggregate,
  whatever they were.
\<close>

theorem snapshot_roundtrip_loses_root:
  assumes "Product_Price (pa_Product p) = Finite q"
  shows "\<exists>j p'. MarshalJSON p = Inr j \<and> UnmarshalJSON j d = Inr p' \<and> pa_Product p' = pa_Product p \<and>
    ar_version p' = 0 \<and> ar_id p' = uuid_Nil \<and> ar_events p' = []"
proof -
  obtain j where j: "MarshalJSON p = Inr j" using MarshalJSON_Finite [OF assms] by blast
  from UnmarshalJSON_MarshalJSON [OF this, of d] j show ?thesis by simp
qed

theorem snapshot_roundtrip_loses_root_witness:
  "\<exists>j p'. MarshalJSON (NewProductAggregateEmpty\<lparr>ar_id := 9, ar_version := 5\<rparr>) = Inr j \<and>
     UnmarshalJSON j NewProductAggregateEmpty = Inr p' \<and> ar_version p' = 0 \<and> ar_id p' = 0"
proof -
  have "Product_Price (pa_Product (NewProductAggregateEmpty\<lparr>ar_id := 9, ar_version := 5\<rparr>)) = Finite 0"
    by (simp add: empty_product_defs)
  from snapshot_roundtrip_loses_root [OF this, of NewProductAggregateEmpty] show ?thesis by blast
qed

end
