(* ===== verification/Repositories.thy ===== *)
theory Repositories
  imports Event_Store Products
begin

text \<open>
  \<open>eventsrc/aggregate_repository.go\<close>, the generic repository over the interfaces \<open>Store\<close>
  (\<open>eventsrc/event_store.go\<close>) and \<open>Aggregate\<close>, and its instance for products,
  \<open>sample/domain/repository/repository.go\<close>.
\<close>

section \<open>The generic repository\<close>

type_synonym ('x, 's) store_save = "ctx \<Rightarrow> 'x aggregate_root_scheme \<Rightarrow> 's \<Rightarrow> error option \<times> 's"
type_synonym 's store_load = "ctx \<Rightarrow> uuid \<Rightarrow> 's \<Rightarrow> (error + json option \<times> int \<times> event list) \<times> 's"

text \<open>
  \<open>Repository.Load\<close>. The result of \<open>LoadFromHistory\<close> is not looked at: after an error the
  aggregate is returned in the state that the events before the failing one gave it.
\<close>

definition Repository_Load ::
  "'s store_load \<Rightarrow> 'x aggregate_root_scheme
     \<Rightarrow> (json \<Rightarrow> 'x aggregate_root_scheme \<Rightarrow> error + 'x aggregate_root_scheme) \<Rightarrow> 'x apply_method
     \<Rightarrow> ctx \<Rightarrow> uuid \<Rightarrow> 's \<Rightarrow> (error + 'x aggregate_root_scheme) \<times> 's" where
  "Repository_Load store_Load newEmptyAggregate unmarshal applyMethod ctx i s =
     (case store_Load ctx i s of
        (Inl err, s1) \<Rightarrow> (Inl (Wrap ''failed to load aggregate from store'' err), s1)
      | (Inr (snapshotPayload, _, history), s1) \<Rightarrow>
          (case (case snapshotPayload of
                   None \<Rightarrow> Inr newEmptyAggregate
                 | Some payload \<Rightarrow>
                     wrapE ''failed to unmarshal snapshot for aggregate'' (unmarshal payload newEmptyAggregate)) of
             Inl err \<Rightarrow> (Inl err, s1)
           | Inr agg \<Rightarrow> (Inr (snd (LoadFromHistory applyMethod history agg)), s1)))"

definition Repository_Save ::
  "('x, 's) store_save \<Rightarrow> ctx \<Rightarrow> 'x aggregate_root_scheme \<Rightarrow> 's
     \<Rightarrow> error option \<times> 'x aggregate_root_scheme \<times> 's" where
  "Repository_Save store_Save ctx agg s =
     (if length (GetUncommittedEvents agg) = 0 then (None, agg, s)
      else
        (case store_Save ctx agg s of
           (Some err, s1) \<Rightarrow> (Some (Wrap ''failed to save aggregate'' err), agg, s1)
         | (None, s1) \<Rightarrow> (None, ClearUncommittedEvents agg, s1)))"

section \<open>The interface \<open>Store\<close>\<close>

text \<open>
  \<open>history\<close> is the committed stream of an aggregate and \<open>latest\<close> its newest committed snapshot.
  Loading returns that snapshot and the events after it, and changes neither.
\<close>

locale aggregate_store =
  fixes store_Load :: "'s store_load"
    and wf :: "'s \<Rightarrow> bool"
    and history :: "uuid \<Rightarrow> 's \<Rightarrow> event list"
    and latest :: "uuid \<Rightarrow> 's \<Rightarrow> json option \<times> int"
  assumes load_result: "wf s \<Longrightarrow> store_Load c i s = (Inr (snap, v, es), s') \<Longrightarrow>
      (snap, v) = latest i s \<and> es = filter (\<lambda>e. v < Version e) (history i s)"
    and load_keeps: "store_Load c i s = (r, s') \<Longrightarrow>
      history j s' = history j s \<and> latest j s' = latest j s \<and> wf s' = wf s"

text \<open>A repository: a store together with an aggregate whose events it keeps.\<close>

locale repository = aggregate_store store_Load wf history latest + aggregate apply_m validate_m
  for store_Load :: "'s store_load"
    and wf :: "'s \<Rightarrow> bool" and history :: "uuid \<Rightarrow> 's \<Rightarrow> event list"
    and latest :: "uuid \<Rightarrow> 's \<Rightarrow> json option \<times> int"
    and apply_m :: "'x apply_method" and validate_m :: "'x validate_method" +
  fixes empty_aggregate :: "'x aggregate_root_scheme"
    and unmarshal :: "json \<Rightarrow> 'x aggregate_root_scheme \<Rightarrow> error + 'x aggregate_root_scheme"
begin

lemma Repository_Load_ok:
  assumes "wf s" "Repository_Load store_Load empty_aggregate unmarshal apply_m c i s = (Inr a, s')"
  obtains snap v a0 where "latest i s = (snap, v)"
    "case snap of None \<Rightarrow> a0 = empty_aggregate | Some j \<Rightarrow> unmarshal j empty_aggregate = Inr a0"
    "a = snd (LoadFromHistory apply_m (filter (\<lambda>e. v < Version e) (history i s)) a0)"
proof -
  obtain r1 s1 where s1: "store_Load c i s = (r1, s1)" by fastforce
  show thesis
  proof (cases r1)
    case (Inl e)
    with assms(2) s1 show thesis by (simp add: Repository_Load_def)
  next
    case (Inr x)
    then obtain snap v es where x: "r1 = Inr (snap, v, es)" by (cases x) auto
    note res = load_result [OF assms(1) s1 [unfolded x]]
    show thesis
    proof (cases snap)
      case None
      with assms(2) s1 x res that [of None v empty_aggregate] show thesis
        by (simp add: Repository_Load_def)
    next
      case (Some j)
      with assms(2) s1 x res that [of "Some j" v] show thesis
        by (auto simp: Repository_Load_def split: sum.splits)
    qed
  qed
qed

text \<open>Without a snapshot, loading replays the whole stream.\<close>

lemma Repository_Load_replay:
  assumes "wf s" "latest i s = (None, 0)" "\<And>e. e \<in> set (history i s) \<Longrightarrow> 0 < Version e"
    and "Repository_Load store_Load empty_aggregate unmarshal apply_m c i s = (Inr a, s')"
  shows "a = snd (LoadFromHistory apply_m (history i s) empty_aggregate)"
proof -
  have "filter (\<lambda>e. 0 < Version e) (history i s) = history i s"
    using assms(3) by (simp add: filter_id_conv)
  moreover obtain snap v a0 where "latest i s = (snap, v)"
    "case snap of None \<Rightarrow> a0 = empty_aggregate | Some j \<Rightarrow> unmarshal j empty_aggregate = Inr a0"
    "a = snd (LoadFromHistory apply_m (filter (\<lambda>e. v < Version e) (history i s)) a0)"
    using Repository_Load_ok [OF assms(1,4)] by blast
  ultimately show ?thesis using assms(2) by simp
qed

end

lemma Repository_Save_nothing:
  "ar_events a = [] \<Longrightarrow> Repository_Save save c a s = (None, a, s)"
  by (simp add: Repository_Save_def GetUncommittedEvents_def)

section \<open>The product repository\<close>

definition ProductRepository_Load ::
  "ctx \<Rightarrow> uuid \<Rightarrow> 'x session_scheme \<Rightarrow> (error + ProductAggregate) \<times> 'x session_scheme" where
  "ProductRepository_Load =
     Repository_Load (Load eventRegistry) newEmptyProduct UnmarshalJSON Apply"

definition ProductRepository_Save ::
  "int \<Rightarrow> ctx \<Rightarrow> ProductAggregate \<Rightarrow> 'x session_scheme
     \<Rightarrow> error option \<times> ProductAggregate \<times> 'x session_scheme" where
  "ProductRepository_Save snapshotFrequency = Repository_Save (Save snapshotFrequency MarshalJSON)"

interpretation pg_store: aggregate_store "Load eventRegistry" "\<lambda>s. store_wf (committed s)"
  "\<lambda>a s. stream a (committed s)" "\<lambda>a s. loaded_snapshot a (committed s)"
proof
  fix s :: "'x session_scheme" and c i snap v es s'
  assume "store_wf (committed s)" "Load eventRegistry c i s = (Inr (snap, v, es), s')"
  then show "(snap, v) = loaded_snapshot i (committed s) \<and>
      es = filter (\<lambda>e. v < Version e) (stream i (committed s))"
    using Load_ok(1,2) by blast
next
  fix c i r j and s s' :: "'x session_scheme"
  assume "Load eventRegistry c i s = (r, s')"
  then have "committed s' = committed s" using Load_frame same_outsideD(1) by blast
  then show "stream j (committed s') = stream j (committed s) \<and>
      loaded_snapshot j (committed s') = loaded_snapshot j (committed s) \<and>
      store_wf (committed s') = store_wf (committed s)" by simp
qed

interpretation products: repository "Load eventRegistry" "\<lambda>s. store_wf (committed s)"
  "\<lambda>a s. stream a (committed s)" "\<lambda>a s. loaded_snapshot a (committed s)"
  Apply Validate newEmptyProduct UnmarshalJSON
  by unfold_locales

section \<open>Loading a product\<close>

lemma ProductRepository_Load_frame:
  "ProductRepository_Load c i s = (r, s') \<Longrightarrow> same_outside s s' \<and> cur_tx s' = cur_tx s"
  by (auto simp: ProductRepository_Load_def Repository_Load_def
      split: prod.splits sum.splits option.splits dest: Load_frame)

lemma stream_registered: "store_wf d \<Longrightarrow> e \<in> set (stream a d) \<Longrightarrow> registered e"
  by (auto simp: stream_def dest: store_wf_stream_valid valid_row_decode(3))

text \<open>
  The state that \<open>ProductRepository.Load\<close> reaches, as a function of the committed tables: the
  decoded snapshot, if there is one, and the replay of the events after it.
\<close>

definition loaded_base :: "uuid \<Rightarrow> db \<Rightarrow> error + ProductAggregate" where
  "loaded_base i d =
     (case fst (loaded_snapshot i d) of
        None \<Rightarrow> Inr NewProductAggregateEmpty
      | Some j \<Rightarrow> UnmarshalJSON j NewProductAggregateEmpty)"

definition loaded_events :: "uuid \<Rightarrow> db \<Rightarrow> event list" where
  "loaded_events i d = filter (\<lambda>e. snd (loaded_snapshot i d) < Version e) (stream i d)"

lemma ProductRepository_Load_result:
  assumes "store_wf (committed s)" "ProductRepository_Load c i s = (Inr a, s')"
  obtains a0 where "loaded_base i (committed s) = Inr a0"
    "LoadFromHistory Apply (loaded_events i (committed s)) a0 = (None, a)"
proof -
  from products.Repository_Load_ok [OF assms(1), of c i a s'] assms(2) obtain snap v a0 where
    l: "loaded_snapshot i (committed s) = (snap, v)"
    and a0: "case snap of None \<Rightarrow> a0 = newEmptyProduct | Some j \<Rightarrow> UnmarshalJSON j newEmptyProduct = Inr a0"
    and a: "a = snd (LoadFromHistory Apply (filter (\<lambda>e. v < Version e) (stream i (committed s))) a0)"
    by (auto simp: ProductRepository_Load_def)
  have "loaded_base i (committed s) = Inr a0"
    using l a0 by (auto simp: loaded_base_def newEmptyProduct_eq split: option.splits)
  moreover obtain a' where "LoadFromHistory Apply (loaded_events i (committed s)) a0 = (None, a')"
    using LoadFromHistory_registered [of "loaded_events i (committed s)" a0] stream_registered [OF assms(1)]
    by (auto simp: loaded_events_def)
  ultimately show thesis using that a l by (simp add: loaded_events_def)
qed

lemma ProductRepository_Load_nofault:
  assumes "faults s = []" "store_wf (committed s)" "loaded_base i (committed s) = Inr a0"
    "LoadFromHistory Apply (loaded_events i (committed s)) a0 = (None, a)"
  shows "ProductRepository_Load c i s = (Inr a, s)"
proof -
  obtain snap v where l: "loaded_snapshot i (committed s) = (snap, v)" by fastforce
  show ?thesis
    using assms(3,4) Load_nofault [OF assms(1,2) l]
    by (auto simp: ProductRepository_Load_def Repository_Load_def loaded_base_def loaded_events_def l
        newEmptyProduct_eq split: option.splits)
qed

end
