(* ===== verification/Commands.thy ===== *)
theory Commands
  imports Repositories
begin

text \<open>
  The command handlers of the sample, \<open>sample/command/create_product.go\<close> and
  \<open>sample/command/update_product.go\<close>. The values of \<open>uuid.New()\<close> and \<open>time.Now().UTC()\<close> are the
  arguments \<open>newID\<close> and \<open>now\<close>; \<open>f\<close> is the snapshot frequency the event store was built with.
\<close>

section \<open>Commands and handlers\<close>

record CreateProductCommand =
  cp_ID :: uuid
  cp_Name :: string
  cp_Price :: float64

record UpdateProduct =
  up_ID :: uuid
  up_Name :: string
  up_Price :: float64

text \<open>The function that \<open>CreateProductHandler.Handle\<close> runs in its transaction.\<close>

definition create_product_tx ::
  "int \<Rightarrow> uuid \<Rightarrow> time \<Rightarrow> CreateProductCommand \<Rightarrow> ctx \<Rightarrow> 'x session_scheme \<Rightarrow> error option \<times> 'x session_scheme" where
  "create_product_tx f newID now cmd txCtx s =
     (let p = NewProductAggregateEmpty in
      case TrackChange Apply Validate
             (ProductCreated
                \<lparr>Base = \<lparr>ID = newID, AggID = cp_ID cmd, AggType = ProductAggregateType,
                         Ver = ar_version p + 1, Ts = now\<rparr>,
                 Name = cp_Name cmd, Price = cp_Price cmd\<rparr>) p of
        (Some err, p1) \<Rightarrow> (Some (Wrap ''trace create product failed'' err), s)
      | (None, p1) \<Rightarrow>
          (case ProductRepository_Save f txCtx p1 s of
             (Some err, p2, s1) \<Rightarrow> (Some (Wrap ''failed to save new product'' err), s1)
           | (None, p2, s1) \<Rightarrow> (None, s1)))"

definition CreateProductHandler_Handle ::
  "int \<Rightarrow> uuid \<Rightarrow> time \<Rightarrow> ctx \<Rightarrow> CreateProductCommand \<Rightarrow> 'x session_scheme \<Rightarrow> error option \<times> 'x session_scheme" where
  "CreateProductHandler_Handle f newID now ctx cmd s =
     (case WithTransaction (create_product_tx f newID now cmd) ctx s of
        (Some err, s1) \<Rightarrow> (Some err, s1)
      | (None, s1) \<Rightarrow> (None, s1))"

text \<open>The part of \<open>UpdateProductHandler.Handle\<close> that follows the loading of the aggregate.\<close>

definition update_product_finish ::
  "int \<Rightarrow> uuid \<Rightarrow> time \<Rightarrow> UpdateProduct \<Rightarrow> ProductAggregate \<Rightarrow> ctx \<Rightarrow> 'x session_scheme \<Rightarrow> error option \<times> 'x session_scheme" where
  "update_product_finish f newID now cmd p txCtx s =
     (case TrackChange Apply Validate
             (ProductUpdated
                \<lparr>Base = \<lparr>ID = newID, AggID = up_ID cmd, AggType = ProductAggregateType,
                         Ver = ar_version p + 1, Ts = now\<rparr>,
                 Name = up_Name cmd, Price = up_Price cmd\<rparr>) p of
        (Some err, p1) \<Rightarrow> (Some (Wrap ''track update product failed'' err), s)
      | (None, p1) \<Rightarrow>
          (case ProductRepository_Save f txCtx p1 s of (r, p2, s1) \<Rightarrow> (r, s1)))"

definition update_product_tx ::
  "int \<Rightarrow> uuid \<Rightarrow> time \<Rightarrow> UpdateProduct \<Rightarrow> ctx \<Rightarrow> 'x session_scheme \<Rightarrow> error option \<times> 'x session_scheme" where
  "update_product_tx f newID now cmd txCtx s =
     (case ProductRepository_Load txCtx (up_ID cmd) s of
        (Inl err, s1) \<Rightarrow> (Some err, s1)
      | (Inr p, s1) \<Rightarrow> update_product_finish f newID now cmd p txCtx s1)"

definition UpdateProductHandler_Handle ::
  "int \<Rightarrow> uuid \<Rightarrow> time \<Rightarrow> ctx \<Rightarrow> UpdateProduct \<Rightarrow> 'x session_scheme \<Rightarrow> error option \<times> 'x session_scheme" where
  "UpdateProductHandler_Handle f newID now ctx cmd s =
     WithTransaction (update_product_tx f newID now cmd) ctx s"

section \<open>The events that the handlers produce\<close>

definition created_event :: "uuid \<Rightarrow> time \<Rightarrow> CreateProductCommand \<Rightarrow> event" where
  "created_event newID now cmd =
     ProductCreated \<lparr>Base = \<lparr>ID = newID, AggID = cp_ID cmd, AggType = ProductAggregateType, Ver = 1, Ts = now\<rparr>,
                     Name = cp_Name cmd, Price = cp_Price cmd\<rparr>"

definition updated_event :: "uuid \<Rightarrow> time \<Rightarrow> UpdateProduct \<Rightarrow> int \<Rightarrow> event" where
  "updated_event newID now cmd v =
     ProductUpdated \<lparr>Base = \<lparr>ID = newID, AggID = up_ID cmd, AggType = ProductAggregateType, Ver = v, Ts = now\<rparr>,
                     Name = up_Name cmd, Price = up_Price cmd\<rparr>"

lemma command_event_simps [simp]:
  "Version (created_event i n cmd) = 1" "AggregateID (created_event i n cmd) = cp_ID cmd"
  "EventID (created_event i n cmd) = i" "registered (created_event i n cmd)"
  "Version (updated_event i n cmd' v) = v" "AggregateID (updated_event i n cmd' v) = up_ID cmd'"
  "EventID (updated_event i n cmd' v) = i" "registered (updated_event i n cmd' v)"
  by (simp_all add: created_event_def updated_event_def event_accessors)

text \<open>What \<open>Product.Validate\<close> demands of the data of a command.\<close>

definition valid_data :: "string \<Rightarrow> float64 \<Rightarrow> bool" where
  "valid_data n p \<longleftrightarrow> n \<noteq> '''' \<and> \<not> f64_le p (Finite 0)"

lemma TrackChange_created:
  "TrackChange Apply Validate (created_event i now cmd) NewProductAggregateEmpty =
     (if valid_data (cp_Name cmd) (cp_Price cmd)
      then (None, \<lparr>ar_id = cp_ID cmd, ar_aggType = ProductAggregateType, ar_version = 1,
                   ar_events = [created_event i now cmd],
                   pa_Product = \<lparr>Product_ID = uuid_Nil, Product_Name = cp_Name cmd,
                                 Product_Price = cp_Price cmd\<rparr>\<rparr>)
      else (Some (Wrap (''state validation failed after applying event '' @ ProductCreatedEventType)
                   (if cp_Name cmd = '''' then NewError ''product name cannot be empty''
                    else NewError ''product price must be positive'')),
            \<lparr>ar_id = cp_ID cmd, ar_aggType = ProductAggregateType, ar_version = 1, ar_events = [],
             pa_Product = \<lparr>Product_ID = uuid_Nil, Product_Name = cp_Name cmd,
                           Product_Price = cp_Price cmd\<rparr>\<rparr>))"
  by (auto simp: TrackChange_def Validate_def Product_Validate_def valid_data_def product_defs
      created_event_def empty_product_defs Version_def)

definition updated_aggregate :: "UpdateProduct \<Rightarrow> ProductAggregate \<Rightarrow> ProductAggregate" where
  "updated_aggregate cmd p =
     p\<lparr>ar_version := ar_version p + 1,
       pa_Product := (pa_Product p)\<lparr>Product_Name := up_Name cmd, Product_Price := up_Price cmd\<rparr>\<rparr>"

lemma TrackChange_updated:
  "TrackChange Apply Validate (updated_event i now cmd (ar_version p + 1)) p =
     (if valid_data (up_Name cmd) (up_Price cmd)
      then (None, (updated_aggregate cmd p)
                    \<lparr>ar_events := ar_events p @ [updated_event i now cmd (ar_version p + 1)]\<rparr>)
      else (Some (Wrap (''state validation failed after applying event '' @ ProductUpdatedEventType)
                   (if up_Name cmd = '''' then NewError ''product name cannot be empty''
                    else NewError ''product price must be positive'')),
            updated_aggregate cmd p))"
  by (auto simp: TrackChange_def Validate_def Product_Validate_def valid_data_def product_defs
      updated_event_def updated_aggregate_def Version_def)

section \<open>The handlers, unfolded\<close>

text \<open>The aggregate that each handler saves.\<close>

definition created_aggregate :: "uuid \<Rightarrow> time \<Rightarrow> CreateProductCommand \<Rightarrow> ProductAggregate" where
  "created_aggregate i now cmd =
     \<lparr>ar_id = cp_ID cmd, ar_aggType = ProductAggregateType, ar_version = 1,
      ar_events = [created_event i now cmd],
      pa_Product = \<lparr>Product_ID = uuid_Nil, Product_Name = cp_Name cmd, Product_Price = cp_Price cmd\<rparr>\<rparr>"

lemma create_product_tx_valid:
  assumes "valid_data (cp_Name cmd) (cp_Price cmd)"
  shows "create_product_tx f i now cmd c s =
    (case Save f MarshalJSON c (created_aggregate i now cmd) s of
       (Some err, s1) \<Rightarrow> (Some (Wrap ''failed to save new product'' (Wrap ''failed to save aggregate'' err)), s1)
     | (None, s1) \<Rightarrow> (None, s1))"
  using TrackChange_created [of i now cmd] assms
  by (auto simp: create_product_tx_def created_aggregate_def ProductRepository_Save_def Repository_Save_def
      GetUncommittedEvents_def created_event_def split: prod.splits option.splits)

lemma create_product_tx_invalid:
  assumes "\<not> valid_data (cp_Name cmd) (cp_Price cmd)"
  shows "\<exists>err. create_product_tx f i now cmd c s = (Some err, s)"
  using TrackChange_created [of i now cmd] assms
  by (auto simp: create_product_tx_def created_event_def)

definition saved_update :: "uuid \<Rightarrow> time \<Rightarrow> UpdateProduct \<Rightarrow> ProductAggregate \<Rightarrow> ProductAggregate" where
  "saved_update i now cmd p =
     (updated_aggregate cmd p)\<lparr>ar_events := ar_events p @ [updated_event i now cmd (ar_version p + 1)]\<rparr>"

lemma update_product_finish_valid:
  assumes "valid_data (up_Name cmd) (up_Price cmd)"
  shows "update_product_finish f i now cmd p c s =
    (case Save f MarshalJSON c (saved_update i now cmd p) s of
       (Some err, s1) \<Rightarrow> (Some (Wrap ''failed to save aggregate'' err), s1)
     | (None, s1) \<Rightarrow> (None, s1))"
  using TrackChange_updated [of i now cmd p] assms
  by (auto simp: update_product_finish_def saved_update_def ProductRepository_Save_def Repository_Save_def
      GetUncommittedEvents_def updated_event_def split: prod.splits option.splits)

lemma update_product_finish_invalid:
  assumes "\<not> valid_data (up_Name cmd) (up_Price cmd)"
  shows "\<exists>err. update_product_finish f i now cmd p c s = (Some err, s)"
  using TrackChange_updated [of i now cmd p] assms
  by (auto simp: update_product_finish_def updated_event_def)

lemma aggregates_simps [simp]:
  "ar_events (created_aggregate i now cmd) = [created_event i now cmd]"
  "ar_version (created_aggregate i now cmd) = 1"
  "ar_id (created_aggregate i now cmd) = cp_ID cmd"
  "ar_aggType (created_aggregate i now cmd) = ProductAggregateType"
  "ar_events (saved_update i now cmd' p) = ar_events p @ [updated_event i now cmd' (ar_version p + 1)]"
  "ar_version (saved_update i now cmd' p) = ar_version p + 1"
  "ar_id (saved_update i now cmd' p) = ar_id p"
  "ar_aggType (saved_update i now cmd' p) = ar_aggType p"
  by (simp_all add: created_aggregate_def saved_update_def updated_aggregate_def)

lemma create_product_tx_frame: "create_product_tx f i now cmd c s = (r, s') \<Longrightarrow> same_outside s s'"
  using create_product_tx_valid [of cmd f i now c s] create_product_tx_invalid [of cmd f i now c s]
  by (cases "valid_data (cp_Name cmd) (cp_Price cmd)")
     (auto split: prod.splits option.splits dest: Save_frame)

lemma update_product_finish_frame: "update_product_finish f i now cmd p c s = (r, s') \<Longrightarrow> same_outside s s'"
  using update_product_finish_valid [of cmd f i now p c s] update_product_finish_invalid [of cmd f i now p c s]
  by (cases "valid_data (up_Name cmd) (up_Price cmd)")
     (auto split: prod.splits option.splits dest: Save_frame)

lemma update_product_tx_frame: "update_product_tx f i now cmd c s = (r, s') \<Longrightarrow> same_outside s s'"
  by (auto simp: update_product_tx_def split: prod.splits sum.splits
      dest!: update_product_finish_frame ProductRepository_Load_frame intro: same_outside_trans)

end
