(* ===== verification/Write_Side.thy ===== *)
theory Write_Side
  imports Commands
begin

text \<open>
  The invariant of the write side: the tables are well formed and the stream of every
  aggregate is numbered 1, 2, \<dots>, n without gaps. It is kept by both command handlers, under
  every fault of the database and every interleaving of concurrent clients.
\<close>

section \<open>Streams without gaps\<close>

definition stream_len :: "uuid \<Rightarrow> db \<Rightarrow> int" where
  "stream_len a d = int (length (filter (\<lambda>r. oe_AggregateID r = a) (event_store d)))"

definition contiguous :: "db \<Rightarrow> bool" where
  "contiguous d \<longleftrightarrow>
     (\<forall>a. oe_Version ` {r \<in> set (event_store d). oe_AggregateID r = a} = {1..stream_len a d})"

definition write_inv :: "db \<Rightarrow> bool" where
  "write_inv d \<longleftrightarrow> store_wf d \<and> contiguous d"

lemma write_inv_empty: "write_inv empty_db"
  using store_wf_empty by (simp add: write_inv_def contiguous_def stream_len_def empty_db_def)

lemma stream_len_nonneg [simp]: "0 \<le> stream_len a d"
  by (simp add: stream_len_def)

lemma length_stream: "int (length (stream a d)) = stream_len a d"
  by (simp add: stream_def stream_rows_def stream_len_def)

lemma stream_len_append_rows:
  "stream_len a ((append_rows [r] d)\<lparr>snapshots := sn\<rparr>) =
     stream_len a d + (if oe_AggregateID r = a then 1 else 0)"
  by (simp add: stream_len_def)

lemma key_taken_iff:
  assumes "contiguous d"
  shows "(a, v) \<in> row_key ` set (event_store d) \<longleftrightarrow> 1 \<le> v \<and> v \<le> stream_len a d"
proof -
  have "(a, v) \<in> row_key ` set (event_store d) \<longleftrightarrow>
      v \<in> oe_Version ` {r \<in> set (event_store d). oe_AggregateID r = a}"
    by force
  then show ?thesis using assms by (simp add: contiguous_def)
qed

lemma contiguous_append:
  assumes "contiguous d" "row_key r \<notin> row_key ` set (event_store d)"
    and "1 \<le> oe_Version r" "oe_Version r \<le> stream_len (oe_AggregateID r) d + 1"
  shows "oe_Version r = stream_len (oe_AggregateID r) d + 1"
    "contiguous ((append_rows [r] d)\<lparr>snapshots := sn\<rparr>)"
proof -
  show v: "oe_Version r = stream_len (oe_AggregateID r) d + 1"
    using assms key_taken_iff [OF assms(1)] by auto
  have "oe_Version ` {x \<in> set (event_store d @ [r]). oe_AggregateID x = a} =
      {1..stream_len a d + (if oe_AggregateID r = a then 1 else 0)}" for a
  proof -
    have "oe_Version ` {x \<in> set (event_store d). oe_AggregateID x = a} = {1..stream_len a d}"
      using assms(1) by (simp add: contiguous_def)
    moreover have "{x \<in> set (event_store d @ [r]). oe_AggregateID x = a} =
        (if oe_AggregateID r = a then {r} else {}) \<union> {x \<in> set (event_store d). oe_AggregateID x = a}"
      by auto
    ultimately show ?thesis using v stream_len_nonneg [of a d] by auto
  qed
  then show "contiguous ((append_rows [r] d)\<lparr>snapshots := sn\<rparr>)"
    unfolding contiguous_def by (simp add: stream_len_append_rows)
qed

text \<open>The versions of a stream, in the order in which it is loaded.\<close>

lemma stream_versions:
  assumes "write_inv d"
  shows "map Version (stream a d) = [1..stream_len a d]"
proof -
  have "distinct (map row_key (event_store d))" using assms by (simp add: write_inv_def store_wf_def)
  then have "distinct (map oe_Version (filter (\<lambda>r. oe_AggregateID r = a) (event_store d)))"
    by (induction "event_store d" rule: rev_induct) (auto simp: distinct_map inj_on_def)
  then have dist: "distinct (map oe_Version (stream_rows a d))"
    by (simp add: stream_rows_def distinct_map)
  have "map oe_Version (stream_rows a d) = [1..stream_len a d]"
  proof (rule sorted_distinct_set_unique)
    show "sorted (map oe_Version (stream_rows a d))" by (simp add: stream_rows_def)
    show "set (map oe_Version (stream_rows a d)) = set [1..stream_len a d]"
      using assms by (simp add: write_inv_def contiguous_def set_stream_rows)
  qed (use dist in auto)
  moreover have "map Version (stream a d) = map oe_Version (stream_rows a d)"
    using assms store_wf_stream_valid valid_row_fields(3) by (auto simp: stream_def write_inv_def)
  ultimately show ?thesis by simp
qed

lemma last_stream_version:
  assumes "write_inv d" "stream a d \<noteq> []"
  shows "Version (last (stream a d)) = stream_len a d"
proof -
  have "last (map Version (stream a d)) = last [1..stream_len a d]"
    using stream_versions [OF assms(1)] by simp
  moreover have "1 \<le> stream_len a d"
    using assms(2) length_stream [of a d] by (cases "stream a d") auto
  ultimately show ?thesis using assms(2) by (simp add: last_map upto_rec2)
qed

section \<open>What the handlers save\<close>

text \<open>A loaded product has no unsaved events, and its version is the length of the stream or 0.\<close>

lemma UnmarshalJSON_root:
  "UnmarshalJSON j p = Inr p' \<Longrightarrow>
     ar_version p' = 0 \<and> ar_id p' = uuid_Nil \<and> ar_events p' = [] \<and> ar_aggType p' = ProductAggregateType"
  by (cases j) (auto simp: Let_def empty_product_defs split: option.splits sum.splits)

lemma loaded_base_root:
  "loaded_base i d = Inr p \<Longrightarrow>
     ar_version p = 0 \<and> ar_id p = uuid_Nil \<and> ar_events p = [] \<and> ar_aggType p = ProductAggregateType"
  by (auto simp: loaded_base_def split: option.splits dest: UnmarshalJSON_root)

lemma filter_last: "filter P xs \<noteq> [] \<Longrightarrow> P (last xs) \<Longrightarrow> last (filter P xs) = last xs"
  by (induction xs rule: rev_induct) auto

lemma loaded_events_last:
  assumes "write_inv d" "loaded_events i d \<noteq> []"
  shows "Version (last (loaded_events i d)) = stream_len i d"
proof -
  let ?v = "snd (loaded_snapshot i d)"
  from assms(2) have ne: "stream i d \<noteq> []" by (auto simp: loaded_events_def)
  from assms(2) obtain e where e: "e \<in> set (stream i d)" "?v < Version e"
    by (auto simp: loaded_events_def filter_empty_conv)
  then have "Version e \<in> set [1..stream_len i d]"
    using stream_versions [OF assms(1)] by (metis image_eqI set_map)
  with e(2) have "?v < Version (last (stream i d))"
    using last_stream_version [OF assms(1) ne] by simp
  with assms(2) have "last (loaded_events i d) = last (stream i d)"
    unfolding loaded_events_def by (rule filter_last)
  with last_stream_version [OF assms(1) ne] show ?thesis by simp
qed

lemma loaded_product:
  assumes "write_inv (committed s)" "ProductRepository_Load c i s = (Inr p, s')"
  shows "ar_events p = []" "ar_aggType p = ProductAggregateType"
    "ar_version p = (if loaded_events i (committed s) = [] then 0 else stream_len i (committed s))"
proof -
  have wf: "store_wf (committed s)" using assms(1) by (simp add: write_inv_def)
  obtain a0 where a0: "loaded_base i (committed s) = Inr a0"
    and p: "LoadFromHistory Apply (loaded_events i (committed s)) a0 = (None, p)"
    using ProductRepository_Load_result [OF wf assms(2)] by blast
  show "ar_events p = []" "ar_aggType p = ProductAggregateType"
    using product.LoadFromHistory_keeps [OF p] loaded_base_root [OF a0] by simp_all
  show "ar_version p = (if loaded_events i (committed s) = [] then 0 else stream_len i (committed s))"
    using product.LoadFromHistory_version [OF p] loaded_events_last [OF assms(1)] p loaded_base_root [OF a0]
    by auto
qed

text \<open>\<open>Save\<close> of events needs an open transaction, so its success says that there was one.\<close>

lemma Save_needs_tx:
  assumes "Save f m c a s = (None, s')" "ar_events a \<noteq> []"
  shows "tx_open s"
proof -
  obtain e es where es: "ar_events a = e # es" using assms(2) by (cases "ar_events a") auto
  from assms obtain rows s1 where rows: "mapE event_row_of (ar_events a) = Inr rows"
    and s1: "br_Exec_all (map InsertEvent rows) s = (None, s1)"
    by (auto simp: Save_def saveEventsInTx_def GetUncommittedEvents_def Let_def
        split: if_splits prod.splits option.splits sum.splits)
  obtain r rs where "rows = r # rs" using length_mapE [OF rows] es by (cases rows) auto
  with s1 show ?thesis by (auto split: prod.splits sum.splits dest: tx_Exec_ok(1))
qed

lemma mapE_single: "mapE g [x] = Inr ys \<longleftrightarrow> (\<exists>y. g x = Inr y \<and> ys = [y])"
  by (auto split: sum.splits)

text \<open>
  One event, numbered at most one past the end of its stream: if it can be saved at all, it
  goes to the end.
\<close>

lemma Save_one:
  assumes "Save f m c a s = (None, s')" "ar_events a = [e]" "registered e" "write_inv (tx_view s)"
    and "1 \<le> Version e" "Version e \<le> stream_len (AggregateID e) (tx_view s) + 1"
  obtains r sn where "event_row_of e = Inr r" "Version e = stream_len (AggregateID e) (tx_view s) + 1"
    "tx_view s' = (append_rows [r] (tx_view s))\<lparr>snapshots := snapshots (tx_view s) @ sn\<rparr>"
    "write_inv (tx_view s')"
    "sn = [] \<or> (\<exists>j. shouldSnapshot f a \<and> m a = Inr j \<and> sn = [snapshot_of a j])"
proof -
  have tx: "tx_open s" using Save_needs_tx assms(1,2) by fastforce
  have ne: "ar_events a \<noteq> []" using assms(2) by simp
  obtain rows sn where rows: "mapE event_row_of [e] = Inr rows" and fresh: "fresh_rows rows (tx_view s)"
    and view: "tx_view s' = (append_rows rows (tx_view s))\<lparr>snapshots := snapshots (tx_view s) @ sn\<rparr>"
    and sn: "sn = [] \<or> (\<exists>j. shouldSnapshot f a \<and> m a = Inr j \<and> sn = [snapshot_of a j] \<and>
       (ar_id a, ar_version a) \<notin> snapshot_key ` set (snapshots (tx_view s)))"
    by (rule Save_ok [OF assms(1) tx ne, unfolded assms(2)])
  obtain r where r: "event_row_of e = Inr r" "rows = [r]" using rows unfolding mapE_single by blast
  note fld = event_row_of_fields [OF r(1)]
  have key: "row_key r \<notin> row_key ` set (event_store (tx_view s))" and sized: "row_sized r"
    using fresh r(2) by (auto simp: fresh_rows_def)
  have c: "contiguous (tx_view s)" and wf: "store_wf (tx_view s)" using assms(4) by (simp_all add: write_inv_def)
  note app = contiguous_append [OF c key] fld(2,3)
  have "store_wf (tx_view s')"
    unfolding view
  proof (rule store_wf_append [OF wf fresh])
    show "\<And>x. x \<in> set rows \<Longrightarrow> valid_row x" using r assms(3) sized valid_rowI by auto
    show "sn = [] \<or> (\<exists>r. sn = [r] \<and> snapshot_key r \<notin> snapshot_key ` set (snapshots (tx_view s)))"
      using sn by (auto simp: snapshot_of_def)
  qed
  with that r view sn app assms(5,6) show thesis by (auto simp: write_inv_def)
qed

section \<open>The handlers keep the invariant\<close>

text \<open>
  \<open>grown d d'\<close>: \<open>d'\<close> is \<open>d\<close> after some events have been appended to both tables and snapshots have
  been taken; nothing else has changed.
\<close>

definition grown :: "db \<Rightarrow> db \<Rightarrow> bool" where
  "grown d d' \<longleftrightarrow> (\<exists>rows sn. d' = (append_rows rows d)\<lparr>snapshots := sn\<rparr>)"

lemma grown_refl [simp]: "grown d d"
  unfolding grown_def by (intro exI [of _ "[]"] exI [of _ "snapshots d"]) (simp add: append_rows_def)

lemma grown_append: "grown d0 d \<Longrightarrow> grown d0 ((append_rows [r] d)\<lparr>snapshots := sn\<rparr>)"
  unfolding grown_def
proof (elim exE)
  fix rows sn0
  assume "d = (append_rows rows d0)\<lparr>snapshots := sn0\<rparr>"
  then have "(append_rows [r] d)\<lparr>snapshots := sn\<rparr> = (append_rows (rows @ [r]) d0)\<lparr>snapshots := sn\<rparr>"
    by (simp add: append_rows_def)
  then show "\<exists>rows sn'. (append_rows [r] d)\<lparr>snapshots := sn\<rparr> = (append_rows rows d0)\<lparr>snapshots := sn'\<rparr>" by blast
qed

lemma grown_stream_len: "grown d d' \<Longrightarrow> stream_len a d \<le> stream_len a d'"
  by (auto simp: grown_def append_rows_def stream_len_def)

lemma create_product_tx_keeps:
  assumes "create_product_tx f i now cmd c s = (None, s')" "write_inv (tx_view s)" "grown d0 (tx_view s)"
  shows "write_inv (tx_view s') \<and> grown d0 (tx_view s')"
proof -
  have "valid_data (cp_Name cmd) (cp_Price cmd)"
    using assms(1) create_product_tx_invalid [of cmd f i now c s] by auto
  with assms(1) have sv: "Save f MarshalJSON c (created_aggregate i now cmd) s = (None, s')"
    by (auto simp: create_product_tx_valid split: prod.splits option.splits)
  show ?thesis
    by (rule Save_one [OF sv, of "created_event i now cmd"]) (use assms(2,3) grown_append in auto)
qed

lemma update_product_finish_keeps:
  assumes "update_product_finish f i now cmd p c s = (None, s')" "write_inv (tx_view s)" "grown d0 (tx_view s)"
    and "ar_events p = []" "0 \<le> ar_version p" "ar_version p \<le> stream_len (up_ID cmd) (tx_view s)"
  shows "write_inv (tx_view s') \<and> grown d0 (tx_view s')"
proof -
  have "valid_data (up_Name cmd) (up_Price cmd)"
    using assms(1) update_product_finish_invalid [of cmd f i now p c s] by auto
  with assms(1) have sv: "Save f MarshalJSON c (saved_update i now cmd p) s = (None, s')"
    by (auto simp: update_product_finish_valid split: prod.splits option.splits)
  show ?thesis
    by (rule Save_one [OF sv, of "updated_event i now cmd (ar_version p + 1)"])
       (use assms(2-6) grown_append in auto)
qed

lemma CreateProductHandler_keeps:
  assumes "CreateProductHandler_Handle f i now c cmd s = (r, s')" "write_inv (committed s)"
  shows "write_inv (committed s') \<and> grown (committed s) (committed s')"
proof -
  have "WithTransaction (create_product_tx f i now cmd) c s = (r, s')"
    using assms(1) by (auto simp: CreateProductHandler_Handle_def split: prod.splits option.splits)
  then show ?thesis
  proof (rule pg.tx_invariant [where P = "\<lambda>d. write_inv d \<and> grown (committed s) d"])
    show "write_inv (committed s) \<and> grown (committed s) (committed s)" using assms(2) by simp
    show "\<And>sa r s'. create_product_tx f i now cmd TxCtx sa = (r, s') \<Longrightarrow>
       write_inv (committed sa) \<and> grown (committed s) (committed sa) \<Longrightarrow>
       write_inv (tx_view sa) \<and> grown (committed s) (tx_view sa) \<Longrightarrow>
       (write_inv (committed s') \<and> grown (committed s) (committed s')) \<and>
       (r = None \<longrightarrow> tx_open s' \<longrightarrow> write_inv (tx_view s') \<and> grown (committed s) (tx_view s'))"
      using create_product_tx_frame same_outsideD(1) create_product_tx_keeps by metis
  qed
qed

text \<open>The second half of an update, run on a database that may have grown since the first half.\<close>

lemma update_product_finish_tx_keeps:
  assumes "WithTransaction (update_product_finish f i now cmd p) c s = (r, s')" "write_inv (committed s)"
    and "ar_events p = []" "0 \<le> ar_version p" "ar_version p \<le> stream_len (up_ID cmd) (committed s)"
  shows "write_inv (committed s') \<and> grown (committed s) (committed s')"
  using assms(1)
proof (rule pg.tx_invariant [where P = "\<lambda>d. write_inv d \<and> grown (committed s) d"])
  show "write_inv (committed s) \<and> grown (committed s) (committed s)" using assms(2) by simp
  fix sa r s'
  assume run: "update_product_finish f i now cmd p TxCtx sa = (r, s')"
    and c: "write_inv (committed sa) \<and> grown (committed s) (committed sa)"
    and v: "write_inv (tx_view sa) \<and> grown (committed s) (tx_view sa)"
  have "stream_len (up_ID cmd) (committed s) \<le> stream_len (up_ID cmd) (tx_view sa)"
    using v grown_stream_len by blast
  with assms(3-5) v run have "r = None \<longrightarrow> write_inv (tx_view s') \<and> grown (committed s) (tx_view s')"
    using update_product_finish_keeps [of f i now cmd p TxCtx sa s' "committed s"] by auto
  with c same_outsideD(1) [OF update_product_finish_frame [OF run]]
  show "(write_inv (committed s') \<and> grown (committed s) (committed s')) \<and>
      (r = None \<longrightarrow> tx_open s' \<longrightarrow> write_inv (tx_view s') \<and> grown (committed s) (tx_view s'))" by simp
qed

lemma UpdateProductHandler_keeps:
  assumes "UpdateProductHandler_Handle f i now c cmd s = (None, s')" "write_inv (committed s)"
  shows "write_inv (committed s') \<and> grown (committed s) (committed s')"
  using assms(1) unfolding UpdateProductHandler_Handle_def
proof (rule WithTransaction_ok)
  fix s1 s2
  assume b: "pool_Begin s = (None, s1)" and t: "update_product_tx f i now cmd TxCtx s1 = (None, s2)"
    and e: "committed s' = tx_view s2"
  note s1 = pool_Begin_durable [OF b]
  from t obtain p sl where p: "ProductRepository_Load TxCtx (up_ID cmd) s1 = (Inr p, sl)"
    and fin: "update_product_finish f i now cmd p TxCtx sl = (None, s2)"
    by (auto simp: update_product_tx_def split: prod.splits sum.splits)
  have sl: "tx_view sl = committed s"
    using ProductRepository_Load_frame [OF p] s1 tx_view_cong [of sl s1] by (auto simp: same_outside_def)
  have "write_inv (committed s1)" using assms(2) s1 by simp
  note l = loaded_product [OF this p]
  show ?thesis
    unfolding e by (rule update_product_finish_keeps [OF fin]) (use l s1 sl assms(2) in simp_all)
qed

end
