(* ===== verification/Clients.thy ===== *)
theory Clients
  imports Write_Side
begin

text \<open>
  Any number of clients that send commands concurrently. \<open>Repository.Load\<close> reads through the
  pool, outside of the transaction of its caller, so other clients can commit between the
  loading and the saving half of an update: each half is one step. The saving half is atomic,
  because the unique index on \<open>(aggregate_id, version)\<close> makes a second insert of the same key
  wait for the first transaction to end. Every step may meet any list of faults.
\<close>

section \<open>The machine\<close>

record system =
  sys_db :: db
  pending :: "nat \<Rightarrow> (UpdateProduct \<times> ProductAggregate) option"

definition session_on :: "db \<Rightarrow> fault option list \<Rightarrow> session" where
  "session_on d fs = \<lparr>committed = d, cur_tx = None, faults = fs, locked = []\<rparr>"

inductive cmd_step :: "int \<Rightarrow> system \<Rightarrow> system \<Rightarrow> bool" for f :: int where
  create: "CreateProductHandler_Handle f i now Background cmd (session_on (sys_db y) fs) = (r, s')
    \<Longrightarrow> cmd_step f y (y\<lparr>sys_db := committed s'\<rparr>)"
| load: "pending y k = None
    \<Longrightarrow> ProductRepository_Load TxCtx (up_ID cmd) (session_on (sys_db y) fs) = (Inr p, s')
    \<Longrightarrow> cmd_step f y (y\<lparr>pending := (pending y)(k \<mapsto> (cmd, p))\<rparr>)"
| finish: "pending y k = Some (cmd, p)
    \<Longrightarrow> WithTransaction (update_product_finish f i now cmd p) Background (session_on (sys_db y) fs) = (r, s')
    \<Longrightarrow> cmd_step f y (y\<lparr>sys_db := committed s', pending := (pending y)(k := None)\<rparr>)"

inductive cmd_reachable :: "int \<Rightarrow> system \<Rightarrow> bool" for f :: int where
  start: "cmd_reachable f \<lparr>sys_db = empty_db, pending = (\<lambda>_. None)\<rparr>"
| step: "cmd_reachable f y \<Longrightarrow> cmd_step f y y' \<Longrightarrow> cmd_reachable f y'"

lemma session_on_simps [simp]:
  "committed (session_on d fs) = d" "cur_tx (session_on d fs) = None"
  "faults (session_on d fs) = fs" "locked (session_on d fs) = []"
  by (simp_all add: session_on_def)

section \<open>The invariant\<close>

text \<open>What a client holds between the halves: a version no higher than the stream is long.\<close>

definition pending_ok :: "db \<Rightarrow> UpdateProduct \<times> ProductAggregate \<Rightarrow> bool" where
  "pending_ok d q \<longleftrightarrow>
     ar_events (snd q) = [] \<and> 0 \<le> ar_version (snd q) \<and> ar_version (snd q) \<le> stream_len (up_ID (fst q)) d"

definition cmd_inv :: "system \<Rightarrow> bool" where
  "cmd_inv y \<longleftrightarrow> write_inv (sys_db y) \<and> (\<forall>k q. pending y k = Some q \<longrightarrow> pending_ok (sys_db y) q)"

lemma pending_ok_grown: "pending_ok d q \<Longrightarrow> grown d d' \<Longrightarrow> pending_ok d' q"
  unfolding pending_ok_def using grown_stream_len order_trans by blast

lemma cmd_inv_grown:
  assumes "cmd_inv y" "write_inv d'" "grown (sys_db y) d'"
    and "\<And>k q. pending' k = Some q \<Longrightarrow> pending y k = Some q"
  shows "cmd_inv (y\<lparr>sys_db := d', pending := pending'\<rparr>)"
  using assms pending_ok_grown by (fastforce simp: cmd_inv_def)

lemma cmd_step_inv: "cmd_step f y y' \<Longrightarrow> cmd_inv y \<Longrightarrow> cmd_inv y'"
proof (induction rule: cmd_step.induct)
  case (create i now cmd y fs r s')
  then have "write_inv (committed s')" "grown (sys_db y) (committed s')"
    using CreateProductHandler_keeps [OF create.hyps] by (simp_all add: cmd_inv_def)
  from cmd_inv_grown [OF create.prems this, of "pending y"] show ?case by simp
next
  case (load y k cmd fs p s')
  then have "write_inv (committed (session_on (sys_db y) fs))" by (simp add: cmd_inv_def)
  from loaded_product [OF this load.hyps(2)] have "pending_ok (sys_db y) (cmd, p)"
    by (simp add: pending_ok_def)
  with load.prems show ?case by (auto simp: cmd_inv_def)
next
  case (finish y k cmd p i now fs r s')
  then have "write_inv (sys_db y)" "pending_ok (sys_db y) (cmd, p)" by (simp_all add: cmd_inv_def)
  then have "write_inv (committed s')" "grown (sys_db y) (committed s')"
    using update_product_finish_tx_keeps [OF finish.hyps(2)] by (auto simp: pending_ok_def)
  then show ?case
    by (intro cmd_inv_grown [OF finish.prems]) (auto split: if_splits)
qed

lemma cmd_step_grown: "cmd_step f y y' \<Longrightarrow> cmd_inv y \<Longrightarrow> grown (sys_db y) (sys_db y')"
proof (induction rule: cmd_step.induct)
  case (create i now cmd y fs r s')
  then show ?case using CreateProductHandler_keeps [OF create.hyps] by (simp add: cmd_inv_def)
next
  case (finish y k cmd p i now fs r s')
  then have "write_inv (sys_db y)" "pending_ok (sys_db y) (cmd, p)" by (simp_all add: cmd_inv_def)
  then show ?case using update_product_finish_tx_keeps [OF finish.hyps(2)] by (auto simp: pending_ok_def)
qed simp

lemma cmd_reachable_inv: "cmd_reachable f y \<Longrightarrow> cmd_inv y"
proof (induction rule: cmd_reachable.induct)
  case start
  then show ?case using write_inv_empty by (simp add: cmd_inv_def)
next
  case (step y y')
  then show ?case using cmd_step_inv by blast
qed

section \<open>No update is lost\<close>

text \<open>
  A successful saving half appends exactly one row, and the aggregate it was computed from is
  the one at the end of the stream: nobody else has written to the stream since it was loaded.
\<close>

lemma finish_success:
  assumes "WithTransaction (update_product_finish f i now cmd p) c s = (None, s')"
    and "write_inv (committed s)" "pending_ok (committed s) (cmd, p)"
  obtains r sn where "event_row_of (updated_event i now cmd (ar_version p + 1)) = Inr r"
    "ar_version p = stream_len (up_ID cmd) (committed s)"
    "committed s' = (append_rows [r] (committed s))\<lparr>snapshots := snapshots (committed s) @ sn\<rparr>"
    "sn = [] \<or> (\<exists>j. shouldSnapshot f (saved_update i now cmd p) \<and> MarshalJSON (saved_update i now cmd p) = Inr j \<and>
        sn = [snapshot_of (saved_update i now cmd p) j])"
proof -
  obtain s1 s2 where s1: "pool_Begin s = (None, s1)"
    and s2: "update_product_finish f i now cmd p TxCtx s1 = (None, s2)"
    and s': "committed s' = tx_view s2"
    by (rule WithTransaction_ok [OF assms(1)])
  have v1: "tx_view s1 = committed s" using pool_Begin_durable [OF s1] by simp
  have "valid_data (up_Name cmd) (up_Price cmd)"
    using s2 update_product_finish_invalid [of cmd f i now p TxCtx s1] by auto
  with s2 have sv: "Save f MarshalJSON TxCtx (saved_update i now cmd p) s1 = (None, s2)"
    by (auto simp: update_product_finish_valid split: prod.splits option.splits)
  have ev: "ar_events (saved_update i now cmd p) = [updated_event i now cmd (ar_version p + 1)]"
    using assms(3) by (simp add: pending_ok_def)
  show thesis
    by (rule Save_one [OF sv ev]) (use assms(2,3) v1 s' that in \<open>auto simp: pending_ok_def\<close>)
qed

end
