(* ===== verification/Command_Results.thy ===== *)
theory Command_Results
  imports Clients
begin

text \<open>
  What a single run of a command handler returns and commits: success, conflict, invalid
  data, and the effect of a snapshot on the commands that follow it.
\<close>

section \<open>Rows that fit\<close>

lemma created_row:
  assumes "year_ok now" "cp_Price cmd = Finite q"
  shows "\<exists>r. event_row_of (created_event i now cmd) = Inr r \<and> row_sized r"
  using assms
  by (auto simp: event_row_of_def marshal_event_def created_event_def enc_time_def Let_def
      row_sized_def varchar255_def int4_def event_accessors ProductAggregateType_def
      ProductCreatedEventType_def)

lemma updated_row:
  assumes "year_ok now" "up_Price cmd = Finite q" "int4 v"
  shows "\<exists>r. event_row_of (updated_event i now cmd v) = Inr r \<and> row_sized r"
  using assms
  by (auto simp: event_row_of_def marshal_event_def updated_event_def enc_time_def Let_def
      row_sized_def varchar255_def event_accessors ProductAggregateType_def
      ProductUpdatedEventType_def)

lemma outbox_ids: "store_wf d \<Longrightarrow> (oe_EventID \<circ> ob_event) ` set (outbox d) = oe_EventID ` set (event_store d)"
  by (metis image_comp set_map store_wf_def)

lemma fresh_one:
  assumes "store_wf d" "row_sized r" "oe_EventID r \<notin> oe_EventID ` set (event_store d)"
    "row_key r \<notin> row_key ` set (event_store d)"
  shows "fresh_rows [r] d"
  using assms outbox_ids [OF assms(1)] by (simp add: fresh_rows_def)

lemma snapshot_fits_products:
  "ar_aggType a = ProductAggregateType \<Longrightarrow> int4 (ar_version a) \<Longrightarrow> snapshot_fits f a"
  by (simp add: snapshot_fits_def varchar255_def ProductAggregateType_def)

text \<open>The fault-free save of one event, accepted or refused.\<close>

lemma save_one_accepted:
  assumes "faults s = []" "store_wf (committed s)" "ar_events a = [e]" "event_row_of e = Inr r" "row_sized r"
    and "EventID e \<notin> oe_EventID ` set (event_store (committed s))"
    and "(AggregateID e, Version e) \<notin> row_key ` set (event_store (committed s))"
    and "ar_aggType a = ProductAggregateType" "ar_version a = Version e"
  shows "\<exists>s'. Save f m TxCtx a (begun s) = (None, s') \<and> faults s' = [] \<and> tx_open s' \<and> same_outside s s' \<and>
    tx_view s' = (append_rows [r] (committed s))
      \<lparr>snapshots := snapshots (committed s) @ snapshots_after f m a (committed s)\<rparr>"
proof -
  note fld = event_row_of_fields [OF assms(4)]
  have "fresh_rows [r] (tx_view (begun s))"
    using fresh_one [OF assms(2,5)] assms(6,7) fld(1-3) by simp
  moreover have "snapshot_fits f a"
    using snapshot_fits_products assms(5,8,9) fld(3) by (metis row_sized_def)
  moreover have "mapE event_row_of (ar_events a) = Inr [r]" using assms(3,4) by simp
  ultimately obtain s' where "Save f m TxCtx a (begun s) = (None, s')" "faults s' = []" "tx_open s'"
    "same_outside (begun s) s'" "tx_view s' = (append_rows [r] (tx_view (begun s)))
      \<lparr>snapshots := snapshots (tx_view (begun s)) @ snapshots_after f m a (tx_view (begun s))\<rparr>"
    using Save_nofault [of "begun s" a "[r]" f m] assms(1,3) by auto
  moreover have "same_outside s s'" using same_outside_trans [OF begun_simps(3)] calculation(4) by blast
  ultimately show ?thesis by auto
qed

lemma save_one_refused:
  assumes "faults s = []" "ar_events a = [e]" "event_row_of e = Inr r" "row_sized r"
    and "(AggregateID e, Version e) \<in> row_key ` set (event_store (committed s))"
  shows "Save f m TxCtx a (begun s) = (Some ErrConcurrency, abort_tx (begun s))"
  using event_row_of_fields [OF assms(3)] assms
  by (intro Save_conflict [of _ a e r]) auto

section \<open>Creating a product\<close>

lemma CreateProduct_success:
  assumes "faults s = []" "write_inv (committed s)"
    and "valid_data (cp_Name cmd) (cp_Price cmd)" "cp_Price cmd = Finite q" "year_ok now"
    and "i \<notin> oe_EventID ` set (event_store (committed s))" "stream_len (cp_ID cmd) (committed s) = 0"
  shows "\<exists>r s'. CreateProductHandler_Handle f i now c cmd s = (None, s') \<and> faults s' = [] \<and> cur_tx s' = None \<and>
    event_row_of (created_event i now cmd) = Inr r \<and>
    committed s' = (append_rows [r] (committed s))
      \<lparr>snapshots := snapshots (committed s) @ snapshots_after f MarshalJSON (created_aggregate i now cmd) (committed s)\<rparr>"
proof -
  obtain r where r: "event_row_of (created_event i now cmd) = Inr r" "row_sized r"
    using created_row [OF assms(5,4)] by blast
  have wf: "store_wf (committed s)" "contiguous (committed s)" using assms(2) by (simp_all add: write_inv_def)
  have "(cp_ID cmd, 1) \<notin> row_key ` set (event_store (committed s))"
    using key_taken_iff [OF wf(2)] assms(7) by simp
  then obtain s2 where s2: "Save f MarshalJSON TxCtx (created_aggregate i now cmd) (begun s) = (None, s2)"
    "faults s2 = []" "tx_open s2"
    "tx_view s2 = (append_rows [r] (committed s))
      \<lparr>snapshots := snapshots (committed s) @ snapshots_after f MarshalJSON (created_aggregate i now cmd) (committed s)\<rparr>"
    using save_one_accepted [OF assms(1) wf(1) _ r, of "created_aggregate i now cmd" f MarshalJSON] assms(6) by auto
  then have "create_product_tx f i now cmd TxCtx (begun s) = (None, s2)"
    by (simp add: create_product_tx_valid [OF assms(3)])
  from WithTransaction_nofault [where fn = "create_product_tx f i now cmd" and c = c, OF assms(1) this s2(2,3)] s2(4) r(1)
  show ?thesis by (auto simp: CreateProductHandler_Handle_def)
qed

lemma CreateProduct_conflict:
  assumes "faults s = []" "write_inv (committed s)"
    and "valid_data (cp_Name cmd) (cp_Price cmd)" "cp_Price cmd = Finite q" "year_ok now"
    and "0 < stream_len (cp_ID cmd) (committed s)"
  shows "\<exists>err s'. CreateProductHandler_Handle f i now c cmd s = (Some err, s') \<and>
    errors_Is err ErrConcurrency \<and> committed s' = committed s"
proof -
  obtain r where r: "event_row_of (created_event i now cmd) = Inr r" "row_sized r"
    using created_row [OF assms(5,4)] by blast
  have "contiguous (committed s)" using assms(2) by (simp add: write_inv_def)
  then have "(cp_ID cmd, 1) \<in> row_key ` set (event_store (committed s))"
    using key_taken_iff assms(6) by simp
  from save_one_refused [OF assms(1) _ r, of "created_aggregate i now cmd" f MarshalJSON] this
  show ?thesis
    by (simp add: CreateProductHandler_Handle_def WithTransaction_def create_product_tx_valid [OF assms(3)] assms(1))
qed

section \<open>Updating a product\<close>

lemma UpdateProduct_success:
  assumes "faults s = []" "write_inv (committed s)"
    and "valid_data (up_Name cmd) (up_Price cmd)" "up_Price cmd = Finite q" "year_ok now"
    and "i \<notin> oe_EventID ` set (event_store (committed s))"
    and "ProductRepository_Load TxCtx (up_ID cmd) (begun s) = (Inr p, begun s)"
    and "ar_version p = stream_len (up_ID cmd) (committed s)" "int4 (ar_version p + 1)"
  shows "\<exists>r s'. UpdateProductHandler_Handle f i now c cmd s = (None, s') \<and> faults s' = [] \<and> cur_tx s' = None \<and>
    event_row_of (updated_event i now cmd (ar_version p + 1)) = Inr r \<and>
    committed s' = (append_rows [r] (committed s))
      \<lparr>snapshots := snapshots (committed s) @ snapshots_after f MarshalJSON (saved_update i now cmd p) (committed s)\<rparr>"
proof -
  obtain r where r: "event_row_of (updated_event i now cmd (ar_version p + 1)) = Inr r" "row_sized r"
    using updated_row [OF assms(5,4,9)] by blast
  have wf: "store_wf (committed s)" "contiguous (committed s)" using assms(2) by (simp_all add: write_inv_def)
  have p: "ar_events p = []" "ar_aggType p = ProductAggregateType"
    using loaded_product(1,2) [OF _ assms(7)] assms(2) by simp_all
  have "(up_ID cmd, ar_version p + 1) \<notin> row_key ` set (event_store (committed s))"
    using key_taken_iff [OF wf(2)] assms(8) by simp
  then obtain s2 where s2: "Save f MarshalJSON TxCtx (saved_update i now cmd p) (begun s) = (None, s2)"
    "faults s2 = []" "tx_open s2"
    "tx_view s2 = (append_rows [r] (committed s))
      \<lparr>snapshots := snapshots (committed s) @ snapshots_after f MarshalJSON (saved_update i now cmd p) (committed s)\<rparr>"
    using save_one_accepted [OF assms(1) wf(1) _ r, of "saved_update i now cmd p" f MarshalJSON] assms(6) p by auto
  then have "update_product_tx f i now cmd TxCtx (begun s) = (None, s2)"
    by (simp add: update_product_tx_def assms(7) update_product_finish_valid [OF assms(3)])
  from WithTransaction_nofault [where fn = "update_product_tx f i now cmd" and c = c, OF assms(1) this s2(2,3)] s2(4) r(1)
  show ?thesis by (auto simp: UpdateProductHandler_Handle_def)
qed

section \<open>A snapshot at the end of a stream\<close>

lemma latest_snapshot_max:
  assumes "r \<in> set (snapshots d)"
  shows "\<exists>x. latest_snapshot (sn_aggregate_id r) d = Some x \<and> x \<in> set (snapshots d) \<and>
     sn_aggregate_id x = sn_aggregate_id r \<and> sn_aggregate_version r \<le> sn_aggregate_version x"
proof -
  define xs where
    "xs = sort_key sn_aggregate_version (filter (\<lambda>x. sn_aggregate_id x = sn_aggregate_id r) (snapshots d))"
  have r: "r \<in> set xs" and sorted: "sorted (map sn_aggregate_version xs)"
    and sub: "set xs \<subseteq> {x \<in> set (snapshots d). sn_aggregate_id x = sn_aggregate_id r}"
    using assms by (auto simp: xs_def)
  from r obtain ys y where xs: "xs = ys @ [y]" by (cases xs rule: rev_cases) auto
  then have "latest_snapshot (sn_aggregate_id r) d = Some y"
    by (simp add: latest_snapshot_def flip: xs_def)
  moreover have "sn_aggregate_version r \<le> sn_aggregate_version y"
    using r sorted xs by (auto simp: sorted_append)
  ultimately show ?thesis using sub xs by auto
qed

text \<open>A snapshot that is as new as the stream leaves no event to replay.\<close>

lemma covered_no_events:
  assumes "write_inv d" "x \<in> set (snapshots d)" "sn_aggregate_id x = a"
    "stream_len a d \<le> sn_aggregate_version x"
  shows "loaded_events a d = []"
proof -
  obtain y where y: "latest_snapshot a d = Some y" "sn_aggregate_version x \<le> sn_aggregate_version y"
    using latest_snapshot_max [OF assms(2)] assms(3) by auto
  have "\<not> sn_aggregate_version y < Version e" if "e \<in> set (stream a d)" for e
  proof -
    have "Version e \<in> set [1..stream_len a d]"
      using stream_versions [OF assms(1)] that by (metis image_eqI set_map)
    with assms(4) y(2) show ?thesis by simp
  qed
  with y(1) show ?thesis by (simp add: loaded_events_def loaded_snapshot_def filter_empty_conv)
qed

text \<open>
  The document of a snapshot has no version, so the aggregate is loaded at version 0, the new
  event gets version 1, and that version is taken: no update can succeed any more.
\<close>

lemma UpdateProduct_blocked:
  assumes "write_inv (committed s)" "0 < stream_len (up_ID cmd) (committed s)"
    and "loaded_events (up_ID cmd) (committed s) = []"
    and "UpdateProductHandler_Handle f i now c cmd s = (r, s')"
  shows "r \<noteq> None \<and> committed s' = committed s"
  using assms(4) unfolding UpdateProductHandler_Handle_def
proof (cases rule: WithTransaction_cases)
  case begin_failed
  then show ?thesis by (simp add: same_outside_def)
next
  case (fn_failed s1 e s2)
  then have "committed s2 = committed s1" using update_product_tx_frame same_outsideD(1) by blast
  with fn_failed pool_Begin_durable show ?thesis by auto
next
  case (fn_done s1 s2 s3)
  have s1: "committed s1 = committed s" "tx_view s1 = committed s"
    using pool_Begin_durable [OF fn_done(1)] by simp_all
  from fn_done(2) obtain p sl where p: "ProductRepository_Load TxCtx (up_ID cmd) s1 = (Inr p, sl)"
    and fin: "update_product_finish f i now cmd p TxCtx sl = (None, s2)"
    by (auto simp: update_product_tx_def split: prod.splits sum.splits)
  have inv1: "write_inv (committed s1)" using assms(1) s1(1) by simp
  have pv: "ar_version p = 0" "ar_events p = []"
    using loaded_product [OF inv1 p] assms(3) s1(1) by simp_all
  have sl: "committed sl = committed s" "tx_view sl = committed s"
    using ProductRepository_Load_frame [OF p] s1 tx_view_cong [of sl s1] by (auto simp: same_outside_def)
  have "valid_data (up_Name cmd) (up_Price cmd)"
    using fin update_product_finish_invalid [of cmd f i now p TxCtx sl] by auto
  with fin have sv: "Save f MarshalJSON TxCtx (saved_update i now cmd p) sl = (None, s2)"
    by (auto simp: update_product_finish_valid split: prod.splits option.splits)
  have ev: "ar_events (saved_update i now cmd p) = [updated_event i now cmd 1]" using pv by simp
  have False
    by (rule Save_one [OF sv ev]) (use assms(1,2) sl in auto)
  then show ?thesis ..
qed

end
