(* ===== verification/Write_Properties.thy ===== *)
theory Write_Properties
  imports Command_Results
begin

text \<open>
  The properties of the write side, stated over the tables: the command handlers, concurrent
  clients, and what a repository loads after a command.
\<close>

section \<open>Streams and loading\<close>

lemma event_of_row_eq:
  assumes "event_row_of e = Inr r" "registered e" "row_sized r"
  shows "event_of_row r = e"
proof -
  have "int64 (Version e)"
    using event_row_of_fields(3) [OF assms(1)] assms(3) int4_int64 by (metis row_sized_def)
  from decode_row_event_row_of [OF assms(1,2) this] show ?thesis by (simp add: event_of_row_def)
qed

lemma no_snapshot:
  assumes "\<forall>x \<in> set (snapshots d). sn_aggregate_id x \<noteq> a"
  shows "loaded_snapshot a d = (None, 0)" "loaded_base a d = Inr NewProductAggregateEmpty"
proof -
  have "filter (\<lambda>r. sn_aggregate_id r = a) (snapshots d) = []" using assms by (simp add: filter_empty_conv)
  then show "loaded_snapshot a d = (None, 0)" by (simp add: loaded_snapshot_def latest_snapshot_def)
  then show "loaded_base a d = Inr NewProductAggregateEmpty" by (simp add: loaded_base_def)
qed

lemma loaded_events_all:
  assumes "write_inv d" "\<forall>x \<in> set (snapshots d). sn_aggregate_id x \<noteq> a"
  shows "loaded_events a d = stream a d"
proof -
  have "0 < Version e" if "e \<in> set (stream a d)" for e
    using stream_versions [OF assms(1), of a] that by (metis atLeastAtMost_iff image_eqI set_map set_upto zero_less_one order_less_le_trans)
  then show ?thesis by (simp add: loaded_events_def no_snapshot [OF assms(2)] filter_id_conv)
qed

lemma Load_without_snapshot:
  assumes "faults s = []" "write_inv (committed s)" "\<forall>x \<in> set (snapshots (committed s)). sn_aggregate_id x \<noteq> a"
  obtains p where "ProductRepository_Load c a s = (Inr p, s)"
    "LoadFromHistory Apply (stream a (committed s)) NewProductAggregateEmpty = (None, p)"
    "ar_version p = stream_len a (committed s)"
proof -
  have wf: "store_wf (committed s)" using assms(2) by (simp add: write_inv_def)
  note le = loaded_events_all [OF assms(2,3)]
  obtain p where p: "LoadFromHistory Apply (stream a (committed s)) NewProductAggregateEmpty = (None, p)"
    using LoadFromHistory_registered stream_registered [OF wf] by blast
  have l: "ProductRepository_Load c a s = (Inr p, s)"
    by (rule ProductRepository_Load_nofault [OF assms(1) wf no_snapshot(2) [OF assms(3)]]) (simp add: le p)
  have "stream a (committed s) = [] \<longleftrightarrow> stream_len a (committed s) = 0"
    using length_stream [of a "committed s"] by (cases "stream a (committed s)") auto
  with loaded_product(3) [OF assms(2) l] le that l p show thesis by auto
qed

section \<open>Samples\<close>

definition sample_create :: CreateProductCommand where
  "sample_create = \<lparr>cp_ID = 1, cp_Name = ''Widget'', cp_Price = Finite 10\<rparr>"

definition sample_update :: UpdateProduct where
  "sample_update = \<lparr>up_ID = 1, up_Name = ''Gadget'', up_Price = Finite 20\<rparr>"

lemma samples_ok:
  "valid_data (cp_Name sample_create) (cp_Price sample_create)" "cp_Price sample_create = Finite 10"
  "valid_data (up_Name sample_update) (up_Price sample_update)" "up_Price sample_update = Finite 20"
  "year_ok 0"
  by (simp_all add: sample_create_def sample_update_def valid_data_def year_ok_def)

lemma empty_tables [simp]:
  "event_store empty_db = []" "snapshots empty_db = []" "outbox empty_db = []"
  "processed_events empty_db = []" "product_views empty_db = []" "stream_len a empty_db = 0"
  by (simp_all add: empty_db_def stream_len_def)

text \<open>The state after one product has been created in an empty database.\<close>

lemma sample_created:
  obtains s' r where "CreateProductHandler_Handle f 2 0 Background sample_create (session_on empty_db []) = (None, s')"
    "faults s' = []" "event_row_of (created_event 2 0 sample_create) = Inr r"
    "event_store (committed s') = [r]" "write_inv (committed s')"
    "outbox (committed s') = [\<lparr>ob_event = r, published = False\<rparr>]" "product_views (committed s') = []"
    "processed_events (committed s') = []" "stream_len 1 (committed s') = 1"
    "snapshots (committed s') = snapshots_after f MarshalJSON (created_aggregate 2 0 sample_create) empty_db"
proof -
  have "stream_len (cp_ID sample_create) (committed (session_on empty_db [])) = 0" by simp
  then obtain r s' where s': "CreateProductHandler_Handle f 2 0 Background sample_create (session_on empty_db []) = (None, s')"
    "faults s' = []" "cur_tx s' = None" "event_row_of (created_event 2 0 sample_create) = Inr r"
    "committed s' = (append_rows [r] empty_db)\<lparr>snapshots := snapshots empty_db @
       snapshots_after f MarshalJSON (created_aggregate 2 0 sample_create) empty_db\<rparr>"
    using CreateProduct_success [of "session_on empty_db []" sample_create 10 0 2 f Background] write_inv_empty samples_ok
    by auto
  have "oe_AggregateID r = 1" using event_row_of_fields(2) [OF s'(4)] by (simp add: sample_create_def)
  moreover have "write_inv (committed s')"
    using CreateProductHandler_keeps [OF s'(1)] write_inv_empty by simp
  ultimately show thesis using that s' by (simp add: stream_len_def)
qed

lemma sample_reachable: "\<exists>y. cmd_reachable f y \<and> stream_len 1 (sys_db y) = 1"
proof -
  let ?y0 = "\<lparr>sys_db = empty_db, pending = (\<lambda>_. None)\<rparr>"
  obtain s' r where s': "CreateProductHandler_Handle f 2 0 Background sample_create (session_on empty_db []) = (None, s')"
    "stream_len 1 (committed s') = 1" by (rule sample_created)
  have "cmd_step f ?y0 (?y0\<lparr>sys_db := committed s'\<rparr>)"
    by (rule cmd_step.create) (use s'(1) in simp)
  then have "cmd_reachable f (?y0\<lparr>sys_db := committed s'\<rparr>)"
    by (intro cmd_reachable.step [OF cmd_reachable.start])
  with s'(2) show ?thesis by (intro exI [of _ "?y0\<lparr>sys_db := committed s'\<rparr>"]) simp
qed

section \<open>Concurrent clients\<close>

text \<open>
  C2. In every state that any number of concurrent clients can reach, under any faults: event
  ids and the pairs of an aggregate and a version are unique, the stream of every aggregate is
  numbered 1, 2, \<dots>, n in order, every stored event decodes, and the outbox holds exactly the
  events of the event store, in the same order.
\<close>

theorem write_side_consistent:
  assumes "cmd_reachable f y"
  shows "distinct (map oe_EventID (event_store (sys_db y))) \<and>
    distinct (map (\<lambda>r. (oe_AggregateID r, oe_Version r)) (event_store (sys_db y))) \<and>
    map Version (stream a (sys_db y)) = [1..stream_len a (sys_db y)] \<and>
    (\<forall>r \<in> set (event_store (sys_db y)). \<exists>e. decode_row eventRegistry r = Inr e) \<and>
    map ob_event (outbox (sys_db y)) = event_store (sys_db y)"
proof -
  have inv: "write_inv (sys_db y)" using cmd_reachable_inv [OF assms] by (simp add: cmd_inv_def)
  with stream_versions [OF inv, of a] valid_row_decode(1) show ?thesis
    by (auto simp: write_inv_def store_wf_def)
qed

theorem write_side_consistent_witness:
  "\<exists>y. cmd_reachable 5 y \<and> map Version (stream 1 (sys_db y)) = [1] \<and>
     map ob_event (outbox (sys_db y)) = event_store (sys_db y)"
proof -
  obtain y where y: "cmd_reachable 5 y" "stream_len 1 (sys_db y) = 1" using sample_reachable by blast
  with write_side_consistent [OF y(1), of 1] show ?thesis by auto
qed

text \<open>
  C8. No update is lost: if the saving half of an update succeeds in a reachable state, then the
  aggregate it was computed from was loaded from the whole present stream (nobody has written to
  the stream in between), and exactly one event is added, with the next version, to the event
  store and to the outbox.
\<close>

theorem no_lost_update:
  assumes "cmd_reachable f y" "pending y k = Some (cmd, p)"
    and "WithTransaction (update_product_finish f i now cmd p) Background (session_on (sys_db y) fs) = (None, s')"
  shows "\<exists>r. event_row_of (updated_event i now cmd (stream_len (up_ID cmd) (sys_db y) + 1)) = Inr r \<and>
    ar_version p = stream_len (up_ID cmd) (sys_db y) \<and>
    event_store (committed s') = event_store (sys_db y) @ [r] \<and>
    outbox (committed s') = outbox (sys_db y) @ [\<lparr>ob_event = r, published = False\<rparr>]"
proof -
  have inv: "write_inv (committed (session_on (sys_db y) fs))" "pending_ok (committed (session_on (sys_db y) fs)) (cmd, p)"
    using cmd_reachable_inv [OF assms(1)] assms(2) by (auto simp: cmd_inv_def)
  show ?thesis by (rule finish_success [OF assms(3) inv]) auto
qed

lemma finish_accepted:
  assumes "faults s = []" "write_inv (committed s)"
    and "valid_data (up_Name cmd) (up_Price cmd)" "up_Price cmd = Finite q" "year_ok now"
    and "i \<notin> oe_EventID ` set (event_store (committed s))"
    and "ar_version p = stream_len (up_ID cmd) (committed s)" "int4 (ar_version p + 1)"
    and "ar_events p = []" "ar_aggType p = ProductAggregateType"
  shows "\<exists>r s'. WithTransaction (update_product_finish f i now cmd p) c s = (None, s') \<and>
    event_row_of (updated_event i now cmd (ar_version p + 1)) = Inr r \<and>
    event_store (committed s') = event_store (committed s) @ [r] \<and>
    outbox (committed s') = outbox (committed s) @ [\<lparr>ob_event = r, published = False\<rparr>]"
proof -
  obtain r where r: "event_row_of (updated_event i now cmd (ar_version p + 1)) = Inr r" "row_sized r"
    using updated_row [OF assms(5,4,8)] by blast
  have wf: "store_wf (committed s)" "contiguous (committed s)" using assms(2) by (simp_all add: write_inv_def)
  have "(up_ID cmd, ar_version p + 1) \<notin> row_key ` set (event_store (committed s))"
    using key_taken_iff [OF wf(2)] assms(7) by simp
  then obtain s2 where s2: "Save f MarshalJSON TxCtx (saved_update i now cmd p) (begun s) = (None, s2)"
    "faults s2 = []" "tx_open s2" "event_store (tx_view s2) = event_store (committed s) @ [r]"
    "outbox (tx_view s2) = outbox (committed s) @ [\<lparr>ob_event = r, published = False\<rparr>]"
    using save_one_accepted [OF assms(1) wf(1) _ r, of "saved_update i now cmd p" f MarshalJSON] assms(6,9,10)
    by (auto simp: append_rows_def)
  then have "update_product_finish f i now cmd p TxCtx (begun s) = (None, s2)"
    by (simp add: update_product_finish_valid [OF assms(3)])
  from WithTransaction_nofault [where fn = "update_product_finish f i now cmd p" and c = c, OF assms(1) this s2(2,3)]
  show ?thesis using s2(4,5) r(1) by auto
qed

lemma sample_pending:
  obtains y s' where "cmd_reachable 5 y" "sys_db y = empty_db" "pending y 0 = Some (sample_update, NewProductAggregateEmpty)"
    "WithTransaction (update_product_finish 5 2 0 sample_update NewProductAggregateEmpty) Background
       (session_on (sys_db y) []) = (None, s')"
proof -
  let ?y0 = "\<lparr>sys_db = empty_db, pending = (\<lambda>_. None)\<rparr>"
  let ?y1 = "?y0\<lparr>pending := (pending ?y0)(0 \<mapsto> (sample_update, NewProductAggregateEmpty))\<rparr>"
  obtain p where p: "ProductRepository_Load TxCtx (up_ID sample_update) (session_on empty_db []) = (Inr p, session_on empty_db [])"
    "LoadFromHistory Apply (stream (up_ID sample_update) (committed (session_on empty_db []))) NewProductAggregateEmpty = (None, p)"
    by (rule Load_without_snapshot [of "session_on empty_db []" "up_ID sample_update" TxCtx]) (simp_all add: write_inv_empty)
  then have "p = NewProductAggregateEmpty" by (simp add: stream_def stream_rows_def)
  with p(1) have "cmd_step 5 ?y0 ?y1" by (intro cmd_step.load) simp_all
  then have reach: "cmd_reachable 5 ?y1" by (rule cmd_reachable.step [OF cmd_reachable.start])
  obtain s' where "WithTransaction (update_product_finish 5 2 0 sample_update NewProductAggregateEmpty) Background
      (session_on (sys_db ?y1) []) = (None, s')"
    using finish_accepted [OF _ _ samples_ok(3,4,5), of "session_on empty_db []" 2 NewProductAggregateEmpty 5 Background]
    by (auto simp: write_inv_empty int4_def)
  from that [OF reach _ _ this] show thesis by simp
qed

theorem no_lost_update_witness:
  "\<exists>y s'. cmd_reachable 5 y \<and>
     WithTransaction (update_product_finish 5 2 0 sample_update NewProductAggregateEmpty) Background
       (session_on (sys_db y) []) = (None, s') \<and>
     map oe_Version (event_store (committed s')) = [1]"
proof (rule sample_pending)
  fix y s'
  assume y: "cmd_reachable 5 y" "sys_db y = empty_db" "pending y 0 = Some (sample_update, NewProductAggregateEmpty)"
    and s': "WithTransaction (update_product_finish 5 2 0 sample_update NewProductAggregateEmpty) Background
      (session_on (sys_db y) []) = (None, s')"
  from no_lost_update [OF y(1,3) s'] y(2) obtain r where
    "event_row_of (updated_event 2 0 sample_update 1) = Inr r" "event_store (committed s') = [r]" by auto
  then have "map oe_Version (event_store (committed s')) = [1]" using event_row_of_fields(3) by fastforce
  with y(1) s' show ?thesis by (intro exI [of _ y] exI [of _ s'] conjI)
qed

text \<open>
  C31. Versions stay in the range of their column: in every reachable state each stored version
  lies between 1 and \<open>2 ^ 31 - 1\<close>, and a stream is never longer than that, so the addition
  \<open>version + 1\<close> of the handlers cannot overflow a 64-bit \<open>int\<close>.
\<close>

theorem versions_bounded:
  assumes "cmd_reachable f y"
  shows "(\<forall>r \<in> set (event_store (sys_db y)). 1 \<le> oe_Version r \<and> oe_Version r < 2 ^ 31) \<and>
    stream_len a (sys_db y) < 2 ^ 31"
proof -
  have inv: "store_wf (sys_db y)" "contiguous (sys_db y)"
    using cmd_reachable_inv [OF assms] by (simp_all add: cmd_inv_def write_inv_def)
  have rows: "1 \<le> oe_Version r \<and> oe_Version r < 2 ^ 31" if r: "r \<in> set (event_store (sys_db y))" for r
  proof -
    have "row_key r \<in> row_key ` set (event_store (sys_db y))" using r by simp
    then have "1 \<le> oe_Version r" using key_taken_iff [OF inv(2)] by simp
    moreover have "row_sized r" using inv(1) r by (simp add: store_wf_def valid_row_def)
    ultimately show ?thesis by (simp add: row_sized_def int4_def)
  qed
  moreover have "stream_len a (sys_db y) < 2 ^ 31"
  proof (cases "1 \<le> stream_len a (sys_db y)")
    case True
    then have "(a, stream_len a (sys_db y)) \<in> row_key ` set (event_store (sys_db y))"
      using key_taken_iff [OF inv(2)] by simp
    with rows show ?thesis by auto
  qed simp
  ultimately show ?thesis by blast
qed

theorem versions_bounded_witness: "\<exists>y. cmd_reachable 5 y \<and> stream_len 1 (sys_db y) = 1 \<and> stream_len 1 (sys_db y) < 2 ^ 31"
proof -
  obtain y where y: "cmd_reachable 5 y" "stream_len 1 (sys_db y) = 1" using sample_reachable by blast
  with versions_bounded [OF y(1), of 1] show ?thesis by blast
qed

section \<open>Results of the commands\<close>

lemma shouldSnapshot_first:
  assumes "ar_version a = 1" "f \<noteq> 1"
  shows "\<not> shouldSnapshot f a"
proof (cases "f \<le> 0")
  case False
  with assms(2) have "1 < f" by simp
  then have "(1::int) mod f = 1" by simp
  with assms(1) show ?thesis by (simp add: shouldSnapshot_def)
qed (simp add: shouldSnapshot_def)



text \<open>
  C28. Creating a product under an identity that is in use fails with \<open>ErrConcurrency\<close> in the error
  chain and changes nothing.
\<close>

theorem create_existing_refused:
  assumes "faults s = []" "write_inv (committed s)"
    and "valid_data (cp_Name cmd) (cp_Price cmd)" "cp_Price cmd = Finite q" "year_ok now"
    and "0 < stream_len (cp_ID cmd) (committed s)"
  shows "\<exists>err s'. CreateProductHandler_Handle f i now c cmd s = (Some err, s') \<and>
    errors_Is err ErrConcurrency \<and> committed s' = committed s"
  using assms by (rule CreateProduct_conflict)

theorem create_existing_refused_witness:
  "\<exists>s1 err s2. CreateProductHandler_Handle 5 2 0 Background sample_create (session_on empty_db []) = (None, s1) \<and>
     CreateProductHandler_Handle 5 3 0 Background sample_create s1 = (Some err, s2) \<and> errors_Is err ErrConcurrency"
proof -
  obtain s1 where s1: "CreateProductHandler_Handle 5 2 0 Background sample_create (session_on empty_db []) = (None, s1)"
    "faults s1 = []" "write_inv (committed s1)" "stream_len 1 (committed s1) = 1" by (rule sample_created)
  then have "0 < stream_len (cp_ID sample_create) (committed s1)" by (simp add: sample_create_def)
  from create_existing_refused [OF s1(2,3) samples_ok(1,2,5) this] s1(1) show ?thesis by blast
qed

text \<open>
  C27. Updating a product that has no snapshot, on a database that does not fail, with valid data:
  the handler returns \<open>nil\<close> and appends one event with the next version to the event store and
  the outbox. There is no hypothesis that the product exists: the update of a product that was
  never created succeeds too and becomes the first event of its stream.
\<close>

theorem update_appends:
  assumes "faults s = []" "write_inv (committed s)"
    and "valid_data (up_Name cmd) (up_Price cmd)" "up_Price cmd = Finite q" "year_ok now"
    and "i \<notin> oe_EventID ` set (event_store (committed s))"
    and "\<forall>x \<in> set (snapshots (committed s)). sn_aggregate_id x \<noteq> up_ID cmd"
    and "stream_len (up_ID cmd) (committed s) < 2 ^ 31 - 1"
  shows "\<exists>s' r. UpdateProductHandler_Handle f i now c cmd s = (None, s') \<and>
    event_row_of (updated_event i now cmd (stream_len (up_ID cmd) (committed s) + 1)) = Inr r \<and>
    event_store (committed s') = event_store (committed s) @ [r] \<and>
    outbox (committed s') = outbox (committed s) @ [\<lparr>ob_event = r, published = False\<rparr>]"
proof -
  obtain p where p: "ProductRepository_Load TxCtx (up_ID cmd) (begun s) = (Inr p, begun s)"
    "ar_version p = stream_len (up_ID cmd) (committed s)"
    by (rule Load_without_snapshot [of "begun s" "up_ID cmd" TxCtx]) (use assms in auto)
  have "int4 (ar_version p + 1)"
    using assms(8) p(2) stream_len_nonneg [of "up_ID cmd" "committed s"] unfolding int4_def by linarith
  from UpdateProduct_success [OF assms(1-6) p this, of f c] p(2) show ?thesis by auto
qed

theorem update_appends_witness:
  "\<exists>s' r. UpdateProductHandler_Handle 5 2 0 Background sample_update (session_on empty_db []) = (None, s') \<and>
     event_store (committed s') = [r] \<and> event_row_of (updated_event 2 0 sample_update 1) = Inr r"
  using update_appends [OF _ _ samples_ok(3,4,5), of "session_on empty_db []" 2 5 Background]
  by (auto simp: write_inv_empty)

text \<open>
  C29. A snapshot freezes its product: once the newest snapshot covers the whole stream, every
  update of the product fails and changes nothing, whatever the data and the faults. The loaded
  aggregate has version 0 again, so its next event takes a version that is in use.
\<close>

theorem snapshot_blocks_updates:
  assumes "write_inv (committed s)" "0 < stream_len (up_ID cmd) (committed s)"
    and "x \<in> set (snapshots (committed s))" "sn_aggregate_id x = up_ID cmd"
    and "stream_len (up_ID cmd) (committed s) \<le> sn_aggregate_version x"
    and "UpdateProductHandler_Handle f i now c cmd s = (r, s')"
  shows "r \<noteq> None \<and> committed s' = committed s"
  by (rule UpdateProduct_blocked [OF assms(1,2) covered_no_events [OF assms(1,3,4,5)] assms(6)])

theorem snapshot_blocks_updates_witness:
  "\<exists>s1 err s2. CreateProductHandler_Handle 1 2 0 Background sample_create (session_on empty_db []) = (None, s1) \<and>
     UpdateProductHandler_Handle 1 3 0 Background sample_update s1 = (Some err, s2) \<and> committed s2 = committed s1"
proof -
  obtain s1 where s1: "CreateProductHandler_Handle 1 2 0 Background sample_create (session_on empty_db []) = (None, s1)"
    "faults s1 = []" "write_inv (committed s1)" "stream_len 1 (committed s1) = 1"
    and sn: "snapshots (committed s1) = snapshots_after 1 MarshalJSON (created_aggregate 2 0 sample_create) empty_db"
    by (rule sample_created)
  obtain j where "MarshalJSON (created_aggregate 2 0 sample_create) = Inr j"
    using MarshalJSON_Finite [of "created_aggregate 2 0 sample_create" 10]
    by (auto simp: created_aggregate_def sample_create_def)
  with sn have x: "snapshot_of (created_aggregate 2 0 sample_create) j \<in> set (snapshots (committed s1))"
    by (simp add: snapshots_after_def shouldSnapshot_def)
  obtain r s2 where up: "UpdateProductHandler_Handle 1 3 0 Background sample_update s1 = (r, s2)" by fastforce
  have "r \<noteq> None \<and> committed s2 = committed s1"
    by (rule snapshot_blocks_updates [OF s1(3) _ x _ _ up])
       (use s1(4) in \<open>simp_all add: sample_update_def sample_create_def snapshot_of_def\<close>)
  with s1(1) up show ?thesis by auto
qed

lemma WithTransaction_rejected:
  assumes "WithTransaction fn c s = (r, s')" "\<And>s. committed (snd (fn TxCtx s)) = committed s"
    and "\<And>s. fst (fn TxCtx s) \<noteq> None"
  shows "r \<noteq> None \<and> committed s' = committed s"
  using assms(1)
proof (cases rule: WithTransaction_cases)
  case begin_failed
  then show ?thesis by (simp add: same_outside_def)
next
  case (fn_failed s1 e s2)
  with assms(2) [of s1] pool_Begin_durable show ?thesis by auto
next
  case (fn_done s1 s2 s3)
  with assms(3) [of s1] show ?thesis by simp
qed

text \<open>
  C30. A command whose data \<open>Validate\<close> rejects (an empty name, or a price that is zero or less)
  fails and changes nothing, whatever the faults; the check comes before anything is written.
\<close>

theorem invalid_commands_refused:
  assumes "\<not> valid_data n q"
  shows "(case CreateProductHandler_Handle f i now c \<lparr>cp_ID = a, cp_Name = n, cp_Price = q\<rparr> s of
      (r, s') \<Rightarrow> r \<noteq> None \<and> committed s' = committed s) \<and>
    (case UpdateProductHandler_Handle f i now c \<lparr>up_ID = a, up_Name = n, up_Price = q\<rparr> s of
      (r, s') \<Rightarrow> r \<noteq> None \<and> committed s' = committed s)"
proof
  let ?c = "\<lparr>cp_ID = a, cp_Name = n, cp_Price = q\<rparr>" and ?u = "\<lparr>up_ID = a, up_Name = n, up_Price = q\<rparr>"
  have c: "\<exists>err. create_product_tx f i now ?c TxCtx s = (Some err, s)" for s :: "'x session_scheme"
    using create_product_tx_invalid [of ?c] assms by simp
  obtain r s' where w: "WithTransaction (create_product_tx f i now ?c) c s = (r, s')" by fastforce
  have "r \<noteq> None \<and> committed s' = committed s"
    by (rule WithTransaction_rejected [OF w]) (use c in \<open>metis fst_conv snd_conv option.distinct(1)\<close>)+
  with w show "case CreateProductHandler_Handle f i now c ?c s of (r, s') \<Rightarrow> r \<noteq> None \<and> committed s' = committed s"
    by (auto simp: CreateProductHandler_Handle_def)
  have u: "fst (update_product_tx f i now ?u TxCtx s) \<noteq> None \<and>
      committed (snd (update_product_tx f i now ?u TxCtx s)) = committed s" for s :: "'x session_scheme"
  proof -
    obtain r s' where run: "update_product_tx f i now ?u TxCtx s = (r, s')" by fastforce
    obtain v s1 where l: "ProductRepository_Load TxCtx a s = (v, s1)" by fastforce
    have "r \<noteq> None"
    proof (cases v)
      case (Inr p)
      with run l update_product_finish_invalid [of ?u f i now p TxCtx s1] assms show ?thesis
        by (auto simp: update_product_tx_def)
    qed (use run l in \<open>auto simp: update_product_tx_def\<close>)
    with run same_outsideD(1) [OF update_product_tx_frame [OF run]] show ?thesis by simp
  qed
  obtain r s' where w: "WithTransaction (update_product_tx f i now ?u) c s = (r, s')" by fastforce
  have "r \<noteq> None \<and> committed s' = committed s"
    by (rule WithTransaction_rejected [OF w]) (use u in blast)+
  with w show "case UpdateProductHandler_Handle f i now c ?u s of (r, s') \<Rightarrow> r \<noteq> None \<and> committed s' = committed s"
    by (simp add: UpdateProductHandler_Handle_def)
qed

theorem invalid_commands_refused_witness:
  "case UpdateProductHandler_Handle 5 2 0 Background \<lparr>up_ID = 1, up_Name = ''a'', up_Price = Finite 0\<rparr>
      (session_on empty_db []) of (r, s') \<Rightarrow> r \<noteq> None \<and> committed s' = empty_db"
  using invalid_commands_refused [where n = "''a''" and q = "Finite 0" and f = 5 and i = 2 and now = 0
      and c = Background and a = 1 and s = "session_on empty_db []"]
  by (simp add: valid_data_def)

text \<open>
  A price that is not a number passes \<open>Product.Validate\<close> (every comparison with it is false),
  but its event cannot be encoded: the create command fails while saving and changes nothing.
\<close>

theorem nan_price_passes_validation:
  "Product_Validate \<lparr>Product_ID = a, Product_Name = ch # n, Product_Price = NaN\<rparr> = None \<and>
   (case CreateProductHandler_Handle f i now c \<lparr>cp_ID = a, cp_Name = ch # n, cp_Price = NaN\<rparr> s of
      (r, s') \<Rightarrow> r \<noteq> None \<and> committed s' = committed s)"
proof
  let ?c = "\<lparr>cp_ID = a, cp_Name = ch # n, cp_Price = NaN\<rparr>"
  show "Product_Validate \<lparr>Product_ID = a, Product_Name = ch # n, Product_Price = NaN\<rparr> = None"
    by (simp add: Product_Validate_def)
  have m: "\<exists>err. event_row_of (created_event i now ?c) = Inl err"
    by (auto simp: event_row_of_def marshal_event_def created_event_def Let_def split: sum.split)
  have c: "\<exists>err. create_product_tx f i now ?c TxCtx s = (Some err, s)" for s :: "'x session_scheme"
  proof -
    obtain err where "Save f MarshalJSON TxCtx (created_aggregate i now ?c) s = (Some err, s)"
      using m by (auto simp: Save_def GetUncommittedEvents_def saveEventsInTx_def)
    then show ?thesis by (simp add: create_product_tx_valid valid_data_def)
  qed
  obtain r s' where w: "WithTransaction (create_product_tx f i now ?c) c s = (r, s')" by fastforce
  have "r \<noteq> None \<and> committed s' = committed s"
    by (rule WithTransaction_rejected [OF w]) (use c in \<open>metis fst_conv snd_conv option.distinct(1)\<close>)+
  with w show "case CreateProductHandler_Handle f i now c ?c s of (r, s') \<Rightarrow> r \<noteq> None \<and> committed s' = committed s"
    by (auto simp: CreateProductHandler_Handle_def)
qed

end
