(* ===== verification/Read_Properties.thy ===== *)
theory Read_Properties
  imports View_Progress Write_Properties
begin

text \<open>
  The properties of the read side: the decorator \<open>cqrs.Projection\<close> for any handler, and the
  product view under any deliveries.
\<close>

section \<open>Samples\<close>

text \<open>
  Instances of the parameters: a back-off library that tries four times without waiting, and a
  driver that accepts a float for an integer column only when no digits are lost.
\<close>

definition four_tries :: "'s retry_function" where
  "four_tries d = retry_times 3"

abbreviation wrap_permanent :: "error option \<Rightarrow> error option" where
  "wrap_permanent \<equiv> map_option PermanentError"

fun lossless_enc :: "float64 \<Rightarrow> error + int" where
  "lossless_enc (Finite q) = (if of_int \<lfloor>q\<rfloor> = q then Inr \<lfloor>q\<rfloor> else Inl DriverError)"
| "lossless_enc _ = Inl DriverError"

definition lossless_dec :: "int \<Rightarrow> error + float64" where
  "lossless_dec n = Inr (Finite (of_int n))"

lemma four_tries_ok: "backoff_lib quiet_wait wrap_permanent four_tries"
  unfolding four_tries_def [abs_def]
  by (rule backoff_lib_mono [OF backoff_lib_times]) (simp add: quiet_wait_def)

text \<open>The events that the write side stores are the ones that the read side can decode.\<close>

lemma event_row_good:
  assumes "event_row_of e = Inr r" "row_sized r"
  shows "good_event r" "event_data r = body e"
proof -
  note fld = event_row_of_fields [OF assms(1)]
  have "int64 (Version e)" using fld(3) assms(2) int4_int64 by (metis row_sized_def)
  from unmarshal_marshal_body [OF fld(7) this, of zero_body]
  have "unmarshal_body (oe_Payload r) zero_body = Inr (body e)" .
  then show "good_event r" "event_data r = body e"
    using fld(2) by (simp_all add: good_event_def event_data_def AggregateID_def)
qed

lemma valid_row_good: "valid_row r \<Longrightarrow> good_event r"
  using event_row_good(1) by (auto simp: valid_row_def)

definition created_row_of :: "string \<Rightarrow> float64 \<Rightarrow> OutboxEvent" where
  "created_row_of n q = projr (event_row_of (created_event 2 0 \<lparr>cp_ID = 1, cp_Name = n, cp_Price = q\<rparr>))"

lemma created_row_of:
  "good_event (created_row_of n (Finite q))" "event_data (created_row_of n (Finite q)) =
     body (created_event 2 0 \<lparr>cp_ID = 1, cp_Name = n, cp_Price = Finite q\<rparr>)"
  "oe_AggregateID (created_row_of n (Finite q)) = 1" "oe_Version (created_row_of n (Finite q)) = 1"
  "oe_EventType (created_row_of n (Finite q)) = ProductCreatedEventType" "oe_Ts (created_row_of n (Finite q)) = 0"
proof -
  let ?c = "\<lparr>cp_ID = 1, cp_Name = n, cp_Price = Finite q\<rparr>"
  obtain r where r: "event_row_of (created_event 2 0 ?c) = Inr r" "row_sized r"
    using created_row [of 0 ?c q 2] samples_ok(5) by auto
  then have eq: "created_row_of n (Finite q) = r" by (simp add: created_row_of_def)
  show "good_event (created_row_of n (Finite q))" "event_data (created_row_of n (Finite q)) = body (created_event 2 0 ?c)"
    using event_row_good [OF r] eq by simp_all
  show "oe_AggregateID (created_row_of n (Finite q)) = 1" "oe_Version (created_row_of n (Finite q)) = 1"
    "oe_EventType (created_row_of n (Finite q)) = ProductCreatedEventType" "oe_Ts (created_row_of n (Finite q)) = 0"
    using event_row_of_fields [OF r(1)] eq by (simp_all add: created_event_def event_accessors)
qed

section \<open>The decorator\<close>

text \<open>
  C23. When \<open>Projection.Handle\<close> returns \<open>nil\<close>, the event is recorded as processed for the subscriber,
  whatever the handler does, whatever faults occur and however often the library retries.
\<close>

theorem projection_nil_recorded:
  assumes "backoff_lib wait permanent retry"
    and "Projection_Handle permanent retry
      (NewProjection sub IsProcessed MarkAsProcessed ProductViewRepository_GetVersion WithTransaction hdl
        [WithMaxElapsedTime t]) c evt s = (None, s')"
  shows "(oe_EventID evt, sub) \<in> set (processed_events (committed s'))"
  using pg_projection.Handle_marks [OF _ assms(1), of sub hdl t c evt s s'] assms(2)
  by (simp add: NewProjection_def WithMaxElapsedTime_def)

theorem projection_nil_recorded_witness:
  "\<exists>s'. Projection_Handle wrap_permanent four_tries
      (NewProjection ''s'' IsProcessed MarkAsProcessed ProductViewRepository_GetVersion WithTransaction
        (\<lambda>c e s. (None, s)) [WithMaxElapsedTime 1]) Background (zero_outbox\<lparr>oe_Version := 1\<rparr>) (session_on empty_db [])
      = (None, s') \<and> (0, ''s'') \<in> set (processed_events (committed s'))"
proof -
  let ?h = "NewProjection ''s'' IsProcessed MarkAsProcessed ProductViewRepository_GetVersion WithTransaction
        (\<lambda>c e s. (None, s)) [WithMaxElapsedTime 1]"
  let ?e = "zero_outbox\<lparr>oe_Version := 1\<rparr>"
  have "\<exists>s'. Projection_Handle wrap_permanent four_tries ?h Background ?e (session_on empty_db []) = (None, s')"
    by (simp add: Projection_Handle_def NewProjection_def WithMaxElapsedTime_def IsProcessed_def four_tries_def
        retry_times_unfold attempt_def GetVersion_nofault view_version_def view_of_def zero_outbox_def
        project_tx_def WithTransaction_def MarkAsProcessed_def tx_Exec_def tx_Commit_def varchar255_def tx_view_def)
  then obtain s' where s': "Projection_Handle wrap_permanent four_tries ?h Background ?e (session_on empty_db []) = (None, s')" ..
  from projection_nil_recorded [OF four_tries_ok s'] s' show ?thesis by (auto simp: zero_outbox_def)
qed

text \<open>
  C24. An event from beyond the next version of its view, not yet recorded, is refused: the result
  is an error and nothing is committed, so the broker will deliver it again. An event of any
  version but the next one leaves every table except \<open>processed_events\<close> as it was: the handler
  is not run. Both hold for every handler and under any faults, as long as nobody else writes
  while the library waits.
\<close>

theorem projection_keeps_order:
  assumes "backoff_lib quiet_wait permanent retry"
    and "Projection_Handle permanent retry
      (NewProjection sub IsProcessed MarkAsProcessed ProductViewRepository_GetVersion WithTransaction hdl
        [WithMaxElapsedTime t]) c evt s = (r, s')"
    and "oe_Version evt \<noteq> view_version (oe_AggregateID evt) (committed s) + 1"
  shows "other_tables (committed s') = other_tables (committed s) \<and>
    (oe_Version evt \<le> view_version (oe_AggregateID evt) (committed s) \<or>
     (oe_EventID evt, sub) \<in> set (processed_events (committed s)) \<or>
     r \<noteq> None \<and> committed s' = committed s)"
proof -
  have run: "Projection_Handle permanent retry (pg_projection.proj sub hdl t) c evt s = (r, s')"
    using assms(2) by (simp add: NewProjection_def WithMaxElapsedTime_def)
  have "other_tables (committed s') = other_tables (committed s)"
    by (rule pg_projection.Handle_not_next [OF run assms(1) _ assms(3)]) (simp add: quiet_wait_def)
  moreover have "r \<noteq> None \<and> committed s' = committed s"
    if "oe_Version evt > view_version (oe_AggregateID evt) (committed s)"
      "(oe_EventID evt, sub) \<notin> set (processed_events (committed s))"
    by (rule pg_projection.Handle_gap [OF run assms(1)]) (use assms(3) that in \<open>auto simp: quiet_wait_def\<close>)
  ultimately show ?thesis by fastforce
qed

theorem projection_keeps_order_witness:
  "\<exists>err s'. Projection_Handle wrap_permanent four_tries
      (NewProjection ''s'' IsProcessed MarkAsProcessed ProductViewRepository_GetVersion WithTransaction
        (\<lambda>c e s. (None, s)) [WithMaxElapsedTime 1]) Background (zero_outbox\<lparr>oe_Version := 3\<rparr>) (session_on empty_db [])
      = (Some err, s') \<and> committed s' = empty_db"
proof -
  obtain r s' where run: "Projection_Handle wrap_permanent four_tries
      (NewProjection ''s'' IsProcessed MarkAsProcessed ProductViewRepository_GetVersion WithTransaction
        (\<lambda>c e s. (None, s)) [WithMaxElapsedTime 1]) Background (zero_outbox\<lparr>oe_Version := 3\<rparr>) (session_on empty_db [])
      = (r, s')" by fastforce
  from projection_keeps_order [OF four_tries_ok run] have "r \<noteq> None \<and> committed s' = empty_db"
    by (simp add: view_version_def view_of_def zero_outbox_def)
  with run show ?thesis by auto
qed

text \<open>
  C25. For a handler that writes only through the transaction it is given, \<open>Projection.Handle\<close>
  commits the handler's writes together with the record of the event: after any run, with any
  faults and retries, either the tables are as before or the event is recorded.
\<close>

theorem projection_atomic:
  assumes "backoff_lib quiet_wait permanent retry"
    and "Projection_Handle permanent retry
      (NewProjection sub IsProcessed MarkAsProcessed ProductViewRepository_GetVersion WithTransaction hdl
        [WithMaxElapsedTime t]) c evt s = (r, s')"
    and "\<And>s r s'. hdl TxCtx evt s = (r, s') \<Longrightarrow> committed s' = committed s"
  shows "committed s' = committed s \<or> (oe_EventID evt, sub) \<in> set (processed_events (committed s'))"
proof -
  have run: "Projection_Handle permanent retry (pg_projection.proj sub hdl t) c evt s = (r, s')"
    using assms(2) by (simp add: NewProjection_def WithMaxElapsedTime_def)
  show ?thesis
    by (rule pg_projection.Handle_atomic [OF run assms(1) _ assms(3)]) (simp_all add: quiet_wait_def)
qed

definition tx_handler :: "ctx \<Rightarrow> OutboxEvent \<Rightarrow> session operation" where
  "tx_handler c e s =
     (case tx_Exec (UpsertView \<lparr>vr_id = 1, vr_name = ''n'', vr_price = 1, vr_version = 1, vr_created_at = 0, vr_updated_at = 0\<rparr>) s of
        (Inl err, s1) \<Rightarrow> (Some err, s1) | (Inr _, s1) \<Rightarrow> (None, s1))"

theorem projection_atomic_witness:
  "\<exists>r s'. Projection_Handle wrap_permanent four_tries
      (NewProjection ''s'' IsProcessed MarkAsProcessed ProductViewRepository_GetVersion WithTransaction
        tx_handler [WithMaxElapsedTime 1]) Background (zero_outbox\<lparr>oe_Version := 1\<rparr>)
        (session_on empty_db [None, None, None, None, None, Some (Fault DriverError True)]) = (r, s') \<and>
     (committed s' = empty_db \<or> (0, ''s'') \<in> set (processed_events (committed s')))"
proof -
  obtain r s' where run: "Projection_Handle wrap_permanent four_tries
      (NewProjection ''s'' IsProcessed MarkAsProcessed ProductViewRepository_GetVersion WithTransaction
        tx_handler [WithMaxElapsedTime 1]) Background (zero_outbox\<lparr>oe_Version := 1\<rparr>)
        (session_on empty_db [None, None, None, None, None, Some (Fault DriverError True)]) = (r, s')" by fastforce
  have inside: "committed s' = committed s" if "tx_handler TxCtx (zero_outbox\<lparr>oe_Version := 1\<rparr>) s = (r, s')" for s r s'
    using that by (auto simp: tx_handler_def split: prod.splits sum.splits dest!: tx_Exec_frame same_outsideD(1))
  have "committed s' = committed (session_on empty_db [None, None, None, None, None, Some (Fault DriverError True)]) \<or>
      (oe_EventID (zero_outbox\<lparr>oe_Version := 1\<rparr>), ''s'') \<in> set (processed_events (committed s'))"
    by (rule projection_atomic [OF four_tries_ok run]) (rule inside)
  with run show ?thesis by (auto simp: zero_outbox_def)
qed

section \<open>The product view\<close>

text \<open>
  C15. The view is always right, if perhaps behind: start with an empty view and deliver any
  events, in any order, any number of times, with any faults and retries. At the end there is at
  most one row per product, every row shows the name, price and time of the delivered event that
  has the row's version, and its creation time is that of the product's first event.
\<close>

theorem view_always_consistent:
  assumes "backoff_lib quiet_wait permanent retry" "list_all good_event deliveries"
    and "product_views (committed s) = []"
  shows "distinct (map vr_id (product_views (committed (deliver_all permanent retry enc deliveries s)))) \<and>
    (\<forall>row \<in> set (product_views (committed (deliver_all permanent retry enc deliveries s))).
       (\<exists>e \<in> set deliveries. row_shows enc e row) \<and> (\<exists>e \<in> set deliveries. row_created_by e row))"
proof -
  have "view_inv enc (set deliveries) (committed s)" using assms(3) by (simp add: view_inv_def)
  from deliver_all_view_inv [OF assms(1) this] assms(2) show ?thesis by (auto simp: list_all_iff view_inv_def)
qed

theorem view_always_consistent_witness:
  "distinct (map vr_id (product_views (committed (deliver_all wrap_permanent four_tries lossless_enc
     [created_row_of ''a'' (Finite 3), created_row_of ''a'' (Finite 3)] (session_on empty_db [None, None, Some (Fault DriverError True)])))))"
  using view_always_consistent [OF four_tries_ok, of "[created_row_of ''a'' (Finite 3), created_row_of ''a'' (Finite 3)]"
      "session_on empty_db [None, None, Some (Fault DriverError True)]" lossless_enc]
  by (simp add: created_row_of(1))

text \<open>
  C21. On a database that does not fail, one delivery to the product projection implements the
  specification \<open>project_db\<close>: a recorded event and an event from beyond the next version change
  nothing, an old one is recorded, the next one is applied and recorded. The broker is told to
  deliver again (an error that is \<open>ErrOutOfOrderEvent\<close>) exactly for the unrecorded events from
  beyond the next version.
\<close>

theorem deliver_refines_spec:
  assumes "backoff_lib quiet_wait permanent retry" "faults s = []" "good_event e"
  shows "\<exists>r s'. deliver permanent retry enc e s = (r, s') \<and> faults s' = [] \<and>
    committed s' = project_db enc e (committed s) \<and>
    (if refused e (committed s) then \<exists>err. r = Some err \<and> errors_Is err ErrOutOfOrderEvent else r = None)"
  using assms by (rule deliver_nofault)

theorem deliver_refines_spec_witness:
  "\<exists>s'. deliver wrap_permanent four_tries lossless_enc (created_row_of ''a'' (Finite 3)) (session_on empty_db []) = (None, s') \<and>
     map vr_price (product_views (committed s')) = [3]"
proof -
  let ?e = "created_row_of ''a'' (Finite 3)"
  have "project_db lossless_enc ?e empty_db = mark_db ?e (empty_db\<lparr>product_views :=
      [\<lparr>vr_id = 1, vr_name = ''a'', vr_price = 3, vr_version = 1, vr_created_at = 0, vr_updated_at = 0\<rparr>]\<rparr>)"
    by (simp add: project_db_def marked_def created_row_of view_version_def view_of_def apply_event_def view_stmt_def
        run_stmt_def varchar255_def int4_def created_event_def)
  moreover have "\<not> refused ?e empty_db" by (simp add: refused_def created_row_of view_version_def view_of_def)
  ultimately show ?thesis
    using deliver_refines_spec [OF four_tries_ok, of "session_on empty_db []" ?e lossless_enc] created_row_of(1)
    by (auto simp: mark_db_def)
qed


lemma sample_fits: "fits lossless_enc (created_row_of ''a'' (Finite 3))"
  by (simp add: fits_def created_row_of varchar255_def int4_def created_event_def)


section \<open>Events that the view loses\<close>

text \<open>
  C32. An event that the view's table refuses is lost for good. If the next event of a product
  cannot be stored (its statement changes nothing: the name is too long, the price does not fit
  the column, or it is an update of a product that has no row), the projection still returns
  \<open>nil\<close> and records it, because the handler only logs the error. From then on nothing that is
  delivered, in whatever order and with whatever faults, changes the view of that product.
\<close>

theorem unstorable_event_freezes_view:
  assumes "backoff_lib quiet_wait permanent retry" "faults s = []" "good_event e"
    and "(oe_EventID e, ''ProductProjection'') \<notin> set (processed_events (committed s))"
    and "oe_Version e = view_version (oe_AggregateID e) (committed s) + 1"
    and "apply_event enc e (committed s) = committed s"
    and "list_all good_event deliveries" "versions_unique (insert e (set deliveries))"
  shows "\<exists>s'. deliver permanent retry enc e s = (None, s') \<and>
    view_of (oe_AggregateID e) (committed (deliver_all permanent retry enc deliveries s')) =
    view_of (oe_AggregateID e) (committed s)"
proof -
  let ?i = "oe_AggregateID e"
  have nm: "\<not> marked e (committed s)" using assms(4) by (simp add: marked_def)
  have "project_db enc e (committed s) = mark_db e (committed s)"
    using nm assms(5,6) by (simp add: project_db_def Let_def)
  moreover have "\<not> refused e (committed s)" using assms(5) by (simp add: refused_def)
  ultimately obtain s' where s': "deliver permanent retry enc e s = (None, s')"
    "committed s' = mark_db e (committed s)"
    using deliver_nofault [OF assms(1-3), of enc] by auto
  have "lost e (view_of ?i (committed s)) (committed s')"
    by (simp add: lost_def s'(2) mark_db_def view_of_def)
  moreover have "e' \<in> insert e (set deliveries) \<and> good_event e'" if "e' \<in> set deliveries" for e'
    using that assms(7) by (simp add: list_all_iff)
  ultimately have "lost e (view_of ?i (committed s)) (committed (deliver_all permanent retry enc deliveries s'))"
    by (intro deliver_all_lost [OF assms(1,8)]) (use assms(5) in \<open>auto simp: view_version_def\<close>)
  with s'(1) show ?thesis by (auto simp: lost_def)
qed

definition long_name :: string where
  "long_name = replicate 256 (CHR ''x'')"

theorem unstorable_event_freezes_view_witness:
  "\<exists>s'. deliver wrap_permanent four_tries lossless_enc (created_row_of long_name (Finite 3)) (session_on empty_db []) = (None, s') \<and>
     view_of 1 (committed (deliver_all wrap_permanent four_tries lossless_enc [created_row_of long_name (Finite 3)] s')) = None"
proof -
  let ?e = "created_row_of long_name (Finite 3)"
  have "\<not> varchar255 long_name" by (simp add: varchar255_def long_name_def)
  then have "apply_event lossless_enc ?e empty_db = empty_db"
    by (simp add: apply_event_def view_stmt_def run_stmt_def created_row_of created_event_def)
  moreover have "versions_unique (insert ?e (set [?e]))" by (simp add: versions_unique_def)
  ultimately show ?thesis
    using unstorable_event_freezes_view [OF four_tries_ok, of "session_on empty_db []" ?e lossless_enc "[?e]"] created_row_of
    by (simp add: view_version_def view_of_def)
qed

text \<open>
  A price with a fractional part is never shown: the column holds integers, so whatever is
  delivered and however the driver encodes a float for the column, a query that succeeds returns
  an integral price (the driver reads an integer back as the float of the same value).
\<close>

theorem view_price_is_integral:
  assumes "\<And>k. dec k = Inr (Finite (of_int k))"
    and "GetProductByIDHandler_Query dec c q s = (Inr v, s')"
  shows "\<exists>k. pv_Price v = Finite (of_int k)"
  using assms(2) by (auto simp: GetProductByIDHandler_Query_def GetProductViewByID_def assms(1)
      split: prod.splits sum.splits option.splits)

theorem view_price_is_integral_witness:
  "\<exists>v s'. GetProductByIDHandler_Query lossless_dec Background \<lparr>gp_ID = 1\<rparr>
      (session_on (project_db lossless_enc (created_row_of ''a'' (Finite 3)) empty_db) []) = (Inr v, s') \<and>
     (\<exists>k. pv_Price v = Finite (of_int k))"
proof -
  have "\<exists>v s'. GetProductByIDHandler_Query lossless_dec Background \<lparr>gp_ID = 1\<rparr>
      (session_on (project_db lossless_enc (created_row_of ''a'' (Finite 3)) empty_db) []) = (Inr v, s')"
    by (simp add: project_db_def marked_def created_row_of view_version_def view_of_def apply_event_def view_stmt_def
        run_stmt_def varchar255_def int4_def created_event_def mark_db_def GetProductByIDHandler_Query_def
        GetProductViewByID_def lossless_dec_def)
  then obtain v s' where q: "GetProductByIDHandler_Query lossless_dec Background \<lparr>gp_ID = 1\<rparr>
      (session_on (project_db lossless_enc (created_row_of ''a'' (Finite 3)) empty_db) []) = (Inr v, s')" by blast
  from view_price_is_integral [OF _ q] q show ?thesis by (auto simp: lossless_dec_def)
qed

text \<open>
  The query: on a database that does not fail it returns the row of the product as a view,
  an error that is \<open>ErrorProductNotFound\<close> when there is no row, and the driver's error when the
  price cannot be read; it changes nothing.
\<close>

theorem query_result:
  assumes "faults s = []"
  shows "\<exists>res. GetProductByIDHandler_Query dec c q s = (res, s) \<and>
    (case view_of (gp_ID q) (committed s) of
       None \<Rightarrow> \<exists>err. res = Inl err \<and> errors_Is err ErrorProductNotFound
     | Some row \<Rightarrow>
         (case dec (vr_price row) of
            Inl e \<Rightarrow> \<exists>err. res = Inl err \<and> errors_Is err e
          | Inr p \<Rightarrow> res = Inr \<lparr>pv_ID = vr_id row, pv_Name = vr_name row, pv_Price = p,
              pv_CreatedAt = vr_created_at row, pv_UpdatedAt = vr_updated_at row, pv_Version = vr_version row\<rparr>))"
  using assms
  by (auto simp: GetProductByIDHandler_Query_def GetProductViewByID_def split: option.split sum.split)

theorem query_result_witness:
  "\<exists>err. GetProductByIDHandler_Query lossless_dec Background \<lparr>gp_ID = 1\<rparr> (session_on empty_db []) =
     (Inl err, session_on empty_db []) \<and> errors_Is err ErrorProductNotFound"
  using query_result [of "session_on empty_db []" lossless_dec Background "\<lparr>gp_ID = 1\<rparr>"]
  by (auto simp: view_of_def)

end
