(* ===== verification/Outbox_Store.thy ===== *)
theory Outbox_Store
  imports Event_Store
begin

text \<open>
  The reading half of \<open>infra/postgres/outbox.go\<close>: \<open>ProcessOutboxBatch\<close> and its helpers, and the
  contract of the interface \<open>Store\<close> of \<open>outbox/relay.go\<close> that they implement.
\<close>

section \<open>Operations\<close>

text \<open>
  \<open>SELECT \<dots> WHERE published = FALSE ORDER BY ts LIMIT $1 FOR UPDATE SKIP LOCKED\<close>: rows locked by
  another transaction are passed over, and do not count towards the limit.
\<close>

definition unpublished_batch :: "int \<Rightarrow> uuid list \<Rightarrow> db \<Rightarrow> OutboxEvent list" where
  "unpublished_batch batchSize lockedIds d =
     take (nat batchSize)
       (filter (\<lambda>e. oe_EventID e \<notin> set lockedIds)
          (sort_key oe_Ts (map ob_event (filter (\<lambda>r. \<not> published r) (outbox d)))))"

text \<open>
  The query is sent first and its rows are collected afterwards; either can fail. A negative
  limit is an error of the server.
\<close>

definition fetchAndLockUnpublishedInTx ::
  "int \<Rightarrow> 'x session_scheme \<Rightarrow> (error + OutboxEvent list) \<times> 'x session_scheme" where
  "fetchAndLockUnpublishedInTx batchSize s =
     (case tx_Query (unpublished_batch batchSize (locked s)) s of
        (Inl err, s1) \<Rightarrow> (Inl (Wrap ''failed to query outbox'' err), s1)
      | (Inr rows, s1) \<Rightarrow>
          (case next_fault s1 of
             (Some (Fault err _), s2) \<Rightarrow> (Inl err, abort_tx s2)
           | (None, s2) \<Rightarrow>
               if batchSize < 0 then (Inl (PgError ''2201W''), abort_tx s2) else (Inr rows, s2)))"

definition markAsPublishedInTx :: "OutboxEvent list \<Rightarrow> 'x session_scheme \<Rightarrow> error option \<times> 'x session_scheme" where
  "markAsPublishedInTx events s =
     (let eventIDs = map oe_EventID events in
      case tx_Exec (UpdatePublished eventIDs) s of
        (Inl err, s1) \<Rightarrow> (Some (Wrap ''failed to execute update for marking events as published'' err), s1)
      | (Inr rowsAffected, s1) \<Rightarrow>
          if rowsAffected \<noteq> length eventIDs
          then (Some (NewError ''consistency error: unexpected number of marked events''), s1)
          else (None, s1))"

type_synonym 's process_func = "ctx \<Rightarrow> OutboxEvent list \<Rightarrow> 's \<Rightarrow> error option \<times> 's"

definition ProcessOutboxBatch ::
  "int \<Rightarrow> 'x session_scheme process_func \<Rightarrow> ctx \<Rightarrow> 'x session_scheme \<Rightarrow> error option \<times> 'x session_scheme" where
  "ProcessOutboxBatch batchSize processFunc ctx s =
     (case pool_Begin s of
        (Some err, s1) \<Rightarrow> (Some (Wrap ''failed to begin transaction for processing outbox batch'' err), s1)
      | (None, s1) \<Rightarrow>
          (case fetchAndLockUnpublishedInTx batchSize s1 of
             (Inl err, s2) \<Rightarrow> (Some (Wrap ''failed to fetch and lock events'' err), tx_Rollback s2)
           | (Inr events, s2) \<Rightarrow>
               if events = [] then (None, tx_Rollback s2)
               else
                 (case processFunc ctx events s2 of
                    (Some err, s3) \<Rightarrow> (Some (Wrap ''event processing function failed'' err), tx_Rollback s3)
                  | (None, s3) \<Rightarrow>
                      (case markAsPublishedInTx events s3 of
                         (Some err, s4) \<Rightarrow> (Some (Wrap ''failed to mark events as published'' err), tx_Rollback s4)
                       | (None, s4) \<Rightarrow> (case tx_Commit s4 of (r, s5) \<Rightarrow> (r, tx_Rollback s5))))))"

section \<open>The interface \<open>outbox.Store\<close>\<close>

text \<open>The rows after the events of a batch have been marked.\<close>

definition mark_rows :: "OutboxEvent list \<Rightarrow> outbox_row list \<Rightarrow> outbox_row list" where
  "mark_rows events =
     map (\<lambda>x. if oe_EventID (ob_event x) \<in> oe_EventID ` set events then x\<lparr>published := True\<rparr> else x)"

text \<open>
  A batch is either left alone or marked as a whole, and it is marked only after the
  processing function has returned \<open>nil\<close> for exactly that batch. A batch consists of unpublished
  rows. \<open>quiet\<close> is the demand on the
  processing function: it does not touch the rows.
\<close>

lemma mark_rows_events [simp]: "map ob_event (mark_rows es xs) = map ob_event xs"
  by (simp add: mark_rows_def)

lemma mark_rows_published:
  "x \<in> set (mark_rows es xs) \<Longrightarrow> published x \<Longrightarrow>
     \<exists>y \<in> set xs. ob_event y = ob_event x \<and> (published y \<or> oe_EventID (ob_event x) \<in> oe_EventID ` set es)"
  by (auto simp: mark_rows_def split: if_splits)

locale outbox_store =
  fixes process :: "int \<Rightarrow> 's process_func \<Rightarrow> ctx \<Rightarrow> 's \<Rightarrow> error option \<times> 's"
    and rows :: "'s \<Rightarrow> outbox_row list"
    and batch :: "int \<Rightarrow> 's \<Rightarrow> OutboxEvent list"
    and outside :: "'s \<Rightarrow> 'b"
    and quiet :: "'s process_func \<Rightarrow> bool"
  assumes batch_rows: "e \<in> set (batch n s) \<Longrightarrow> \<exists>x \<in> set (rows s). ob_event x = e \<and> \<not> published x"
    and process_cases: "quiet pf \<Longrightarrow> process n pf c s = (r, s') \<Longrightarrow>
      rows s' = rows s \<and> outside s' = outside s \<and> (r = None \<longrightarrow> batch n s = []) \<or>
      (\<exists>s1 r1 s2. outside s1 = outside s \<and> batch n s \<noteq> [] \<and> pf c (batch n s) s1 = (r1, s2) \<and>
         outside s' = outside s2 \<and>
         (r \<noteq> None \<and> rows s' = rows s \<or> r1 = None \<and> rows s' = mark_rows (batch n s) (rows s)))"

section \<open>\<open>ProcessOutboxBatch\<close> implements it\<close>

lemma fetch_frame:
  "fetchAndLockUnpublishedInTx n s = (r, s') \<Longrightarrow> same_outside s s' \<and> tx_view s' = tx_view s"
  by (auto simp: fetchAndLockUnpublishedInTx_def same_outside_def
      split: prod.splits sum.splits option.splits fault.splits if_splits dest!: next_faultD tx_Query_frame)

lemma fetch_ok:
  assumes "fetchAndLockUnpublishedInTx n s = (Inr es, s')"
  shows "es = unpublished_batch n (locked s) (tx_view s)" "0 \<le> n" "tx_open s'"
proof -
  obtain r1 s1 where s1: "tx_Query (unpublished_batch n (locked s)) s = (r1, s1)" by fastforce
  with assms have r1: "r1 = Inr es" and n: "0 \<le> n" and nf: "next_fault s1 = (None, s')"
    by (auto simp: fetchAndLockUnpublishedInTx_def split: prod.splits sum.splits option.splits fault.splits if_splits)
  from tx_Query_ok [OF s1 [unfolded r1]] show "es = unpublished_batch n (locked s) (tx_view s)" by simp
  from tx_Query_ok [OF s1 [unfolded r1]] next_faultD [OF nf] show "tx_open s'" by (simp add: tx_open_def)
  show "0 \<le> n" by (rule n)
qed

lemma markAsPublishedInTx_frame: "markAsPublishedInTx es s = (r, s') \<Longrightarrow> same_outside s s'"
  by (auto simp: markAsPublishedInTx_def Let_def split: prod.splits sum.splits if_splits dest: call_frames)

lemma markAsPublishedInTx_ok:
  assumes "markAsPublishedInTx es s = (None, s')"
  shows "outbox (tx_view s') = mark_rows es (outbox (tx_view s))"
    "tx_view s' = (tx_view s)\<lparr>outbox := mark_rows es (outbox (tx_view s))\<rparr>" "tx_open s'"
proof -
  from assms obtain n where "tx_Exec (UpdatePublished (map oe_EventID es)) s = (Inr n, s')"
    by (auto simp: markAsPublishedInTx_def Let_def split: prod.splits sum.splits if_splits)
  from tx_Exec_ok(2,3) [OF this] show
    "tx_view s' = (tx_view s)\<lparr>outbox := mark_rows es (outbox (tx_view s))\<rparr>" "tx_open s'"
    by (auto simp: mark_rows_def)
  then show "outbox (tx_view s') = mark_rows es (outbox (tx_view s))" by simp
qed

text \<open>A processing function that works outside of the database session.\<close>

definition quiet_func :: "'x session_scheme process_func \<Rightarrow> bool" where
  "quiet_func pf \<longleftrightarrow> (\<forall>c es s r s'. pf c es s = (r, s') \<longrightarrow>
     committed s' = committed s \<and> cur_tx s' = cur_tx s \<and> locked s' = locked s)"

text \<open>The last part of the function: marking and committing.\<close>

lemma mark_and_commit:
  assumes "(case markAsPublishedInTx es s of
      (Some err, s4) \<Rightarrow> (Some (Wrap m err), tx_Rollback s4)
    | (None, s4) \<Rightarrow> (case tx_Commit s4 of (r, s5) \<Rightarrow> (r, tx_Rollback s5))) = (r, s')"
  shows "session.more s' = session.more s"
    "r \<noteq> None \<and> committed s' = committed s \<or>
     committed s' = (tx_view s)\<lparr>outbox := mark_rows es (outbox (tx_view s))\<rparr>"
proof -
  obtain rm s3 where s3: "markAsPublishedInTx es s = (rm, s3)" by fastforce
  note fm = same_outsideD [OF markAsPublishedInTx_frame [OF s3]]
  obtain rc s4 where s4: "tx_Commit s3 = (rc, s4)" by fastforce
  have "session.more s' = session.more s \<and> (r \<noteq> None \<and> committed s' = committed s \<or>
     committed s' = (tx_view s)\<lparr>outbox := mark_rows es (outbox (tx_view s))\<rparr>)"
  proof (cases rm)
    case (Some e)
    with assms s3 fm show ?thesis by auto
  next
    case rm: None
    with assms s3 s4 have res: "r = rc" "s' = tx_Rollback s4" by simp_all
    note mk = markAsPublishedInTx_ok(2) [OF s3 [unfolded rm]]
    show ?thesis
    proof (cases rc)
      case None
      with tx_Commit_ok [OF s4 [unfolded None]] tx_Commit_frame [OF s4] mk res fm show ?thesis by simp
    next
      case (Some e)
      with tx_Commit_error [OF s4 [unfolded Some]] tx_Commit_frame [OF s4] mk res fm show ?thesis by auto
    qed
  qed
  then show "session.more s' = session.more s" "r \<noteq> None \<and> committed s' = committed s \<or>
     committed s' = (tx_view s)\<lparr>outbox := mark_rows es (outbox (tx_view s))\<rparr>" by blast+
qed

text \<open>The stages of the function.\<close>

lemma ProcessOutboxBatch_stages:
  assumes "ProcessOutboxBatch n pf c s = (r, s')"
  obtains (no_tx) e where "pool_Begin s = (Some e, s')" "r \<noteq> None"
  | (no_rows) s1 e s2 where "pool_Begin s = (None, s1)" "fetchAndLockUnpublishedInTx n s1 = (Inl e, s2)"
      "r \<noteq> None" "s' = tx_Rollback s2"
  | (no_events) s1 s2 where "pool_Begin s = (None, s1)" "fetchAndLockUnpublishedInTx n s1 = (Inr [], s2)"
      "r = None" "s' = tx_Rollback s2"
  | (refused) s1 es s2 e s3 where "pool_Begin s = (None, s1)"
      "fetchAndLockUnpublishedInTx n s1 = (Inr es, s2)" "es \<noteq> []" "pf c es s2 = (Some e, s3)"
      "r \<noteq> None" "s' = tx_Rollback s3"
  | (handled) s1 es s2 s3 m where "pool_Begin s = (None, s1)"
      "fetchAndLockUnpublishedInTx n s1 = (Inr es, s2)" "es \<noteq> []" "pf c es s2 = (None, s3)"
      "(case markAsPublishedInTx es s3 of
          (Some err, s4) \<Rightarrow> (Some (Wrap m err), tx_Rollback s4)
        | (None, s4) \<Rightarrow> (case tx_Commit s4 of (r, s5) \<Rightarrow> (r, tx_Rollback s5))) = (r, s')"
proof -
  obtain r0 s1 where s1: "pool_Begin s = (r0, s1)" by fastforce
  obtain rf s2 where s2: "fetchAndLockUnpublishedInTx n s1 = (rf, s2)" by fastforce
  consider (e0) e where "r0 = Some e" | (e1) e where "r0 = None" "rf = Inl e"
    | (e2) "r0 = None" "rf = Inr []" | (ok) es where "r0 = None" "rf = Inr es" "es \<noteq> []"
    by (cases r0; cases rf) auto
  then show thesis
  proof cases
    case e0
    with assms s1 show thesis by (intro no_tx [of e]) (auto simp: ProcessOutboxBatch_def)
  next
    case e1
    with assms s1 s2 show thesis by (intro no_rows [of s1 e s2]) (auto simp: ProcessOutboxBatch_def)
  next
    case e2
    with assms s1 s2 show thesis by (intro no_events [of s1 s2]) (auto simp: ProcessOutboxBatch_def)
  next
    case ok
    obtain r1 s3 where s3: "pf c es s2 = (r1, s3)" by fastforce
    show thesis
    proof (cases r1)
      case None
      with assms s1 s2 s3 ok show thesis
        by (intro handled [of s1 es s2 s3 "''failed to mark events as published''"])
           (auto simp: ProcessOutboxBatch_def)
    next
      case (Some e)
      with assms s1 s2 s3 ok show thesis
        by (intro refused [of s1 es s2 e s3]) (auto simp: ProcessOutboxBatch_def)
    qed
  qed
qed

lemma ProcessOutboxBatch_cases:
  assumes "ProcessOutboxBatch n pf c s = (r, s')" "quiet_func pf"
  obtains (untouched) "committed s' = committed s" "session.more s' = session.more s"
      "r = None \<longrightarrow> unpublished_batch n (locked s) (committed s) = [] \<and> 0 \<le> n"
  | (processed) s1 r1 s2 where "session.more s1 = session.more s" "0 \<le> n"
      "unpublished_batch n (locked s) (committed s) \<noteq> []"
      "pf c (unpublished_batch n (locked s) (committed s)) s1 = (r1, s2)"
      "session.more s' = session.more s2"
      "r \<noteq> None \<and> committed s' = committed s \<or>
       r1 = None \<and> committed s' = (committed s)\<lparr>outbox :=
         mark_rows (unpublished_batch n (locked s) (committed s)) (outbox (committed s))\<rparr>"
proof -
  have fetched: "committed s2 = committed s \<and> session.more s2 = session.more s \<and> locked s2 = locked s \<and>
      tx_view s2 = committed s \<and>
      (\<forall>es. rf = Inr es \<longrightarrow> es = unpublished_batch n (locked s) (committed s) \<and> 0 \<le> n)"
    if "pool_Begin s = (None, s1)" "fetchAndLockUnpublishedInTx n s1 = (rf, s2)" for s1 rf s2
    using pool_Begin_durable [OF that(1)] same_outsideD [OF pool_Begin_frame [OF that(1)]]
      fetch_frame [OF that(2)] fetch_ok [of n s1 _ s2] that(2)
    by (auto simp: same_outside_def)
  from assms(1) show thesis
  proof (cases rule: ProcessOutboxBatch_stages)
    case no_tx
    then show thesis using pool_Begin_frame untouched by (metis same_outsideD(1,3))
  next
    case (no_rows s1 e s2)
    then show thesis using fetched [OF no_rows(1,2)] by (intro untouched) auto
  next
    case (no_events s1 s2)
    then show thesis using fetched [OF no_events(1,2)] by (intro untouched) auto
  next
    case (refused s1 es s2 e s3)
    note q = assms(2) [unfolded quiet_func_def, rule_format, OF refused(4)]
    show thesis
      using refused q fetched [OF refused(1,2)] by (intro processed [of s2 "Some e" s3]) auto
  next
    case (handled s1 es s2 s3 m)
    note q = assms(2) [unfolded quiet_func_def, rule_format, OF handled(4)]
    have "tx_view s3 = committed s" using q fetched [OF handled(1,2)] tx_view_cong [of s3 s2] by simp
    with mark_and_commit [OF handled(5)] handled q fetched [OF handled(1,2)] show thesis
      by (intro processed [of s2 None s3]) auto
  qed
qed

lemma set_unpublished_batch:
  "e \<in> set (unpublished_batch n l d) \<Longrightarrow>
     (\<exists>r \<in> set (outbox d). ob_event r = e \<and> \<not> published r) \<and> oe_EventID e \<notin> set l"
  by (auto simp: unpublished_batch_def dest!: in_set_takeD)

interpretation pg_outbox: outbox_store ProcessOutboxBatch "\<lambda>s. outbox (committed s)"
  "\<lambda>n s. unpublished_batch n (locked s) (committed s)" session.more quiet_func
proof
  show "\<exists>x \<in> set (outbox (committed s)). ob_event x = e \<and> \<not> published x"
    if "e \<in> set (unpublished_batch n (locked s) (committed s))" for e n and s :: "'x session_scheme"
    using set_unpublished_batch [OF that] by blast
next
  fix pf :: "'x session_scheme process_func" and n c s r s'
  assume q: "quiet_func pf" and run: "ProcessOutboxBatch n pf c s = (r, s')"
  from run q show "outbox (committed s') = outbox (committed s) \<and> session.more s' = session.more s \<and>
      (r = None \<longrightarrow> unpublished_batch n (locked s) (committed s) = []) \<or>
      (\<exists>s1 r1 s2. session.more s1 = session.more s \<and> unpublished_batch n (locked s) (committed s) \<noteq> [] \<and>
         pf c (unpublished_batch n (locked s) (committed s)) s1 = (r1, s2) \<and>
         session.more s' = session.more s2 \<and>
         (r \<noteq> None \<and> outbox (committed s') = outbox (committed s) \<or>
          r1 = None \<and> outbox (committed s') =
            mark_rows (unpublished_batch n (locked s) (committed s)) (outbox (committed s))))"
  proof (cases rule: ProcessOutboxBatch_cases)
    case untouched
    then show ?thesis by simp
  next
    case (processed s1 r1 s2)
    then have "outbox (committed s') = outbox (committed s) \<and> r \<noteq> None \<or>
        r1 = None \<and> outbox (committed s') =
          mark_rows (unpublished_batch n (locked s) (committed s)) (outbox (committed s))" by auto
    with processed(1-5) show ?thesis by blast
  qed
qed

section \<open>Batches\<close>

abbreviation outbox_ids_of :: "db \<Rightarrow> uuid list" where
  "outbox_ids_of d \<equiv> map (oe_EventID \<circ> ob_event) (outbox d)"

lemma distinct_unpublished_batch:
  assumes "distinct (outbox_ids_of d)"
  shows "distinct (map oe_EventID (unpublished_batch n l d))"
proof -
  define u where "u = map ob_event (filter (\<lambda>r. \<not> published r) (outbox d))"
  have "distinct (map oe_EventID u)"
    using distinct_map_filter [OF assms, of "\<lambda>r. \<not> published r"] by (simp add: u_def comp_def)
  then have "distinct (map oe_EventID (sort_key oe_Ts u))"
    by (simp add: distinct_map)
  then have "distinct (map oe_EventID (filter (\<lambda>e. oe_EventID e \<notin> set l) (sort_key oe_Ts u)))"
    by (rule distinct_map_filter)
  then show ?thesis
    unfolding unpublished_batch_def u_def [symmetric] take_map [symmetric] by (rule distinct_take)
qed

text \<open>The query returns the oldest unlocked events: nothing that it leaves behind is older.\<close>

lemma unpublished_batch_oldest:
  assumes "e \<in> set (unpublished_batch n l d)"
    and "r \<in> set (outbox d)" "\<not> published r" "oe_EventID (ob_event r) \<notin> set l"
    and "ob_event r \<notin> set (unpublished_batch n l d)"
  shows "oe_Ts e \<le> oe_Ts (ob_event r)"
proof -
  define xs where "xs = filter (\<lambda>e. oe_EventID e \<notin> set l)
    (sort_key oe_Ts (map ob_event (filter (\<lambda>r. \<not> published r) (outbox d))))"
  have "sorted (map oe_Ts (sort_key oe_Ts (map ob_event (filter (\<lambda>r. \<not> published r) (outbox d)))))"
    by simp
  then have "sorted (map oe_Ts xs)" unfolding xs_def by (rule sorted_filter)
  then have "sorted (map oe_Ts (take (nat n) xs @ drop (nat n) xs))" by simp
  then have "\<forall>x \<in> set (take (nat n) xs). \<forall>y \<in> set (drop (nat n) xs). oe_Ts x \<le> oe_Ts y"
    unfolding map_append sorted_append by auto
  moreover have "ob_event r \<in> set xs" using assms(2-4) by (auto simp: xs_def)
  then have "ob_event r \<in> set (take (nat n) xs) \<or> ob_event r \<in> set (drop (nat n) xs)"
    by (metis Un_iff append_take_drop_id set_append)
  ultimately show ?thesis using assms(1,5) by (auto simp: unpublished_batch_def xs_def)
qed

text \<open>The number of rows the update affects is the size of the batch.\<close>

lemma filter_mem_count:
  assumes "distinct ids" "distinct (map f xs)" "set ids \<subseteq> f ` set xs"
  shows "length (filter (\<lambda>x. f x \<in> set ids) xs) = length ids"
proof -
  have "distinct (map f (filter (\<lambda>x. f x \<in> set ids) xs))" by (rule distinct_map_filter [OF assms(2)])
  then have "length (filter (\<lambda>x. f x \<in> set ids) xs) = card (set (map f (filter (\<lambda>x. f x \<in> set ids) xs)))"
    by (metis distinct_card length_map)
  also have "set (map f (filter (\<lambda>x. f x \<in> set ids) xs)) = set ids" using assms(3) by auto
  finally show ?thesis using assms(1) by (simp add: distinct_card)
qed

lemma UpdatePublished_count:
  assumes "distinct (outbox_ids_of d)"
  shows "length (filter (\<lambda>x. oe_EventID (ob_event x) \<in> set (map oe_EventID (unpublished_batch n l d))) (outbox d)) =
    length (unpublished_batch n l d)"
proof -
  have "set (map oe_EventID (unpublished_batch n l d)) \<subseteq> (oe_EventID \<circ> ob_event) ` set (outbox d)"
    using set_unpublished_batch by fastforce
  from filter_mem_count [OF distinct_unpublished_batch [OF assms] assms this] show ?thesis
    by (simp add: comp_def)
qed

lemma markAsPublishedInTx_nofault:
  assumes "faults s = []" "tx_open s" "distinct (outbox_ids_of (tx_view s))"
    "es = unpublished_batch n l (tx_view s)"
  shows "\<exists>s'. markAsPublishedInTx es s = (None, s') \<and> faults s' = [] \<and> tx_open s' \<and> same_outside s s' \<and>
    tx_view s' = (tx_view s)\<lparr>outbox := mark_rows es (outbox (tx_view s))\<rparr>"
proof -
  have "exec_stmt (UpdatePublished (map oe_EventID es)) (tx_view s) =
      Inr (length es, (tx_view s)\<lparr>outbox := mark_rows es (outbox (tx_view s))\<rparr>)"
    using UpdatePublished_count [OF assms(3), of n l] assms(4) by (simp add: mark_rows_def)
  from tx_Exec_nofault [OF assms(1,2) this] show ?thesis
    by (auto simp: markAsPublishedInTx_def)
qed

text \<open>Without faults, a batch that the processing function accepts is marked and committed.\<close>

lemma ProcessOutboxBatch_nofault:
  assumes "faults s = []" "0 \<le> n" "distinct (outbox_ids_of (committed s))" "quiet_func pf"
    and "unpublished_batch n (locked s) (committed s) \<noteq> []"
    and "pf c (unpublished_batch n (locked s) (committed s)) (begun s) = (None, s2)" "faults s2 = []"
  shows "\<exists>s'. ProcessOutboxBatch n pf c s = (None, s') \<and> faults s' = [] \<and> cur_tx s' = None \<and>
    locked s' = locked s \<and> session.more s' = session.more s2 \<and>
    committed s' = (committed s)\<lparr>outbox :=
      mark_rows (unpublished_batch n (locked s) (committed s)) (outbox (committed s))\<rparr>"
proof -
  let ?b = "unpublished_batch n (locked s) (committed s)"
  have fetch: "fetchAndLockUnpublishedInTx n (begun s) = (Inr ?b, begun s)"
    using assms(1,2) by (simp add: fetchAndLockUnpublishedInTx_def tx_Query_def tx_view_def)
  note q = assms(4) [unfolded quiet_func_def, rule_format, OF assms(6)]
  have v2: "tx_view s2 = committed s" and o2: "tx_open s2"
    using q tx_view_cong [of s2 "begun s"] by (simp_all add: tx_open_def)
  from markAsPublishedInTx_nofault [OF assms(7) o2, of ?b n "locked s"] assms(3) v2
  obtain s3 where s3: "markAsPublishedInTx ?b s2 = (None, s3)" "faults s3 = []" "tx_open s3"
    "same_outside s2 s3" "tx_view s3 = (committed s)\<lparr>outbox := mark_rows ?b (outbox (committed s))\<rparr>"
    by auto
  from tx_Commit_nofault [OF s3(2,3)] obtain s4 where s4: "tx_Commit s3 = (None, s4)" "faults s4 = []"
    "committed s4 = tx_view s3" "cur_tx s4 = None" "locked s4 = locked s3" "session.more s4 = session.more s3"
    by blast
  show ?thesis
    using assms(1,5,6) fetch s3 s4 q by (simp add: ProcessOutboxBatch_def same_outside_def)
qed

section \<open>Properties\<close>

text \<open>
  C39. What \<open>fetchAndLockUnpublishedInTx\<close> returns: at most as many events as asked for, all of them
  unpublished rows that no other transaction has locked, and no unlocked unpublished event that
  was left behind is older than one of them.
\<close>

theorem fetched_batch_oldest:
  assumes "fetchAndLockUnpublishedInTx n s = (Inr es, s')"
  shows "int (length es) \<le> n \<and>
    (\<forall>e \<in> set es. oe_EventID e \<notin> set (locked s) \<and> (\<exists>x \<in> set (outbox (tx_view s)). ob_event x = e \<and> \<not> published x)) \<and>
    (\<forall>e \<in> set es. \<forall>x \<in> set (outbox (tx_view s)). \<not> published x \<longrightarrow> oe_EventID (ob_event x) \<notin> set (locked s) \<longrightarrow>
       ob_event x \<notin> set es \<longrightarrow> oe_Ts e \<le> oe_Ts (ob_event x))"
proof -
  note f = fetch_ok(1,2) [OF assms]
  have "int (length es) \<le> n" using f by (simp add: unpublished_batch_def)
  with f(1) set_unpublished_batch unpublished_batch_oldest show ?thesis by blast
qed

text \<open>An older and a newer event; a batch of one takes the older.\<close>

definition two_events :: session where
  "two_events = \<lparr>committed = empty_db\<lparr>outbox :=
       [\<lparr>ob_event = zero_outbox\<lparr>oe_EventID := 1, oe_Ts := 5\<rparr>, published = False\<rparr>,
        \<lparr>ob_event = zero_outbox\<lparr>oe_EventID := 2, oe_Ts := 3\<rparr>, published = False\<rparr>]\<rparr>,
     cur_tx = Some \<lparr>tx_stmts = [], tx_aborted = False\<rparr>, faults = [], locked = []\<rparr>"

theorem fetched_batch_oldest_witness:
  "\<exists>es s'. fetchAndLockUnpublishedInTx 1 two_events = (Inr es, s') \<and> map oe_EventID es = [2] \<and> int (length es) \<le> 1"
proof -
  obtain r s' where f: "fetchAndLockUnpublishedInTx 1 two_events = (r, s')" by fastforce
  moreover have "fst (fetchAndLockUnpublishedInTx 1 two_events) =
      Inr [zero_outbox\<lparr>oe_EventID := 2, oe_Ts := 3\<rparr>]"
    by (simp add: fetchAndLockUnpublishedInTx_def tx_Query_def tx_view_def two_events_def unpublished_batch_def
        zero_outbox_def)
  ultimately have es: "fetchAndLockUnpublishedInTx 1 two_events = (Inr [zero_outbox\<lparr>oe_EventID := 2, oe_Ts := 3\<rparr>], s')"
    by simp
  from fetched_batch_oldest [OF es] have "int (length [zero_outbox\<lparr>oe_EventID := 2, oe_Ts := 3\<rparr>]) \<le> 1" by blast
  with es show ?thesis
    by (intro exI [where x = "[zero_outbox\<lparr>oe_EventID := 2, oe_Ts := 3\<rparr>]"] exI [where x = s'] conjI) simp_all
qed

text \<open>
  The consistency check of \<open>markAsPublishedInTx\<close> never fires on a batch that was fetched in the
  same transaction: event ids are unique, so the update affects exactly one row per event. If
  marking fails at all, the update itself has failed and the transaction cannot commit.
\<close>

theorem consistency_error_unreachable:
  assumes "distinct (map oe_EventID (map ob_event (outbox (tx_view s))))" "es = unpublished_batch n l (tx_view s)"
    and "markAsPublishedInTx es s = (Some err, s')"
  shows "(\<exists>e. err = Wrap ''failed to execute update for marking events as published'' e) \<and> \<not> tx_open s'"
proof -
  have d: "distinct (outbox_ids_of (tx_view s))" using assms(1) by (simp add: comp_def)
  obtain r s1 where x: "tx_Exec (UpdatePublished (map oe_EventID es)) s = (r, s1)" by fastforce
  show ?thesis
  proof (cases r)
    case (Inl e)
    with assms(3) x tx_Exec_error(1) show ?thesis by (auto simp: markAsPublishedInTx_def)
  next
    case (Inr k)
    from tx_Exec_ok(3) [OF x [unfolded Inr]] UpdatePublished_count [OF d, of n l] assms(2)
    have "k = length es" by simp
    with assms(3) x Inr show ?thesis by (simp add: markAsPublishedInTx_def)
  qed
qed

theorem consistency_error_unreachable_witness:
  "\<exists>e s'. markAsPublishedInTx (unpublished_batch 2 [] (tx_view two_events))
      (two_events\<lparr>faults := [Some (Fault DriverError False)]\<rparr>) =
      (Some (Wrap ''failed to execute update for marking events as published'' e), s') \<and> \<not> tx_open s'"
proof -
  let ?s = "two_events\<lparr>faults := [Some (Fault DriverError False)]\<rparr>"
  have v: "tx_view ?s = tx_view two_events" by (rule tx_view_cong) simp_all
  have "\<exists>err s'. markAsPublishedInTx (unpublished_batch 2 [] (tx_view two_events)) ?s = (Some err, s')"
    by (simp add: markAsPublishedInTx_def tx_Exec_def two_events_def next_fault_def)
  then obtain err s' where m: "markAsPublishedInTx (unpublished_batch 2 [] (tx_view two_events)) ?s = (Some err, s')" by blast
  have "distinct (map oe_EventID (map ob_event (outbox (tx_view ?s))))"
    unfolding v by (simp add: two_events_def tx_view_def zero_outbox_def)
  from consistency_error_unreachable [OF this _ m, of 2 "[]"] v m show ?thesis by auto
qed

end
