(* ===== verification/Relays.thy ===== *)
theory Relays
  imports Outbox_Store
begin

text \<open>
  \<open>outbox/relay.go\<close> over the interfaces \<open>outbox.Store\<close> and \<open>msgbus.Broker\<close>
  (\<open>msgbus/broker.go\<close>), and the broker that the tests of the relay use
  (\<open>outbox/relay_test.go\<close>).
\<close>

section \<open>The relay\<close>

type_synonym 's store_method = "int \<Rightarrow> 's process_func \<Rightarrow> ctx \<Rightarrow> 's \<Rightarrow> error option \<times> 's"
type_synonym 's publish_method = "ctx \<Rightarrow> string \<Rightarrow> OutboxEvent \<Rightarrow> 's \<Rightarrow> error option \<times> 's"

text \<open>The loop of the processor in \<open>processBatch\<close>: an event without a topic is skipped.\<close>

fun publish_events :: "'s publish_method \<Rightarrow> ctx \<Rightarrow> OutboxEvent list \<Rightarrow> 's \<Rightarrow> error option \<times> 's" where
  "publish_events publish ctx [] s = (None, s)"
| "publish_events publish ctx (evt # events) s =
     (let topic = oe_AggregateType evt in
      if topic = '''' then publish_events publish ctx events s
      else
        (case publish ctx topic evt s of
           (Some err, s1) \<Rightarrow> (Some (Wrap ''failed to publish event'' err), s1)
         | (None, s1) \<Rightarrow> publish_events publish ctx events s1))"

definition processor :: "'s publish_method \<Rightarrow> 's process_func" where
  "processor publish ctx events s =
     (if length events = 0 then (None, s) else publish_events publish ctx events s)"

record 's Relay =
  rl_store :: "'s store_method"
  rl_broker :: "'s publish_method"
  rl_batchSize :: int
  rl_interval :: int
  rl_quit :: bool

definition NewRelay ::
  "'s store_method \<Rightarrow> 's publish_method \<Rightarrow> int \<Rightarrow> int \<Rightarrow> 's Relay" where
  "NewRelay store broker batchSize interval =
     \<lparr>rl_store = store, rl_broker = broker, rl_batchSize = batchSize, rl_interval = interval, rl_quit = False\<rparr>"

definition processBatch :: "'s Relay \<Rightarrow> ctx \<Rightarrow> 's \<Rightarrow> error option \<times> 's" where
  "processBatch r ctx s = rl_store r (rl_batchSize r) (processor (rl_broker r)) ctx s"

text \<open>
  The goroutine of \<open>Start\<close>: what its \<open>select\<close> receives is a sequence of signals. A tick whose
  batch fails is logged and the loop goes on; closing \<open>quit\<close> or cancelling the context ends it.
  The result is the state and whether the goroutine has returned.
\<close>

datatype relay_signal = Tick | QuitClosed | CtxDone

fun relay_loop :: "'s Relay \<Rightarrow> ctx \<Rightarrow> relay_signal list \<Rightarrow> 's \<Rightarrow> bool \<times> 's" where
  "relay_loop r ctx [] s = (False, s)"
| "relay_loop r ctx (Tick # sigs) s = relay_loop r ctx sigs (snd (processBatch r ctx s))"
| "relay_loop r ctx (QuitClosed # sigs) s = (True, s)"
| "relay_loop r ctx (CtxDone # sigs) s = (True, s)"

text \<open>\<open>Stop\<close> closes the channel; closing it a second time panics.\<close>

definition Relay_Stop :: "'s Relay \<Rightarrow> error + 's Relay" where
  "Relay_Stop r =
     (if rl_quit r then Inl (NewError ''close of closed channel'') else Inr (r\<lparr>rl_quit := True\<rparr>))"

section \<open>The interface \<open>Broker\<close>\<close>

text \<open>
  \<open>sent\<close> is what the broker has accepted and \<open>msg\<close> the message it makes of an event. An error
  leaves it open whether the message was accepted.
\<close>

abbreviation batch_messages :: "(string \<Rightarrow> OutboxEvent \<Rightarrow> 'm) \<Rightarrow> OutboxEvent list \<Rightarrow> 'm list" where
  "batch_messages msg es \<equiv> map (\<lambda>e. msg (oe_AggregateType e) e) (filter (\<lambda>e. oe_AggregateType e \<noteq> '''') es)"

locale broker =
  fixes publish :: "'s publish_method"
    and sent :: "'s \<Rightarrow> 'm list"
    and msg :: "string \<Rightarrow> OutboxEvent \<Rightarrow> 'm"
  assumes publish_ok: "publish c t e s = (None, s') \<Longrightarrow> sent s' = sent s @ [msg t e]"
    and publish_error: "publish c t e s = (Some err, s') \<Longrightarrow> sent s' = sent s \<or> sent s' = sent s @ [msg t e]"
begin

abbreviation messages :: "OutboxEvent list \<Rightarrow> 'm list" where
  "messages es \<equiv> batch_messages msg es"

lemma publish_events_ok:
  "publish_events publish c es s = (None, s') \<Longrightarrow> sent s' = sent s @ messages es"
  by (induction es arbitrary: s)
     (auto simp: Let_def split: if_splits prod.splits option.splits dest: publish_ok)

lemma publish_events_error:
  assumes "publish_events publish c es s = (Some err, s')"
  shows "\<exists>k \<le> length es. sent s' = sent s @ messages (take k es)"
  using assms
proof (induction es arbitrary: s)
  case Nil
  then show ?case by simp
next
  case (Cons e es)
  let ?t = "oe_AggregateType e"
  show ?case
  proof (cases "?t = ''''")
    case True
    with Cons obtain k where "k \<le> length es" "sent s' = sent s @ messages (take k es)" by auto
    with True show ?thesis by (intro exI [of _ "Suc k"]) simp
  next
    case False
    obtain r1 s1 where s1: "publish c ?t e s = (r1, s1)" by fastforce
    show ?thesis
    proof (cases r1)
      case None
      with Cons False s1 obtain k where "k \<le> length es" "sent s' = sent s1 @ messages (take k es)" by auto
      with False publish_ok [OF s1 [unfolded None]] show ?thesis by (intro exI [of _ "Suc k"]) simp
    next
      case (Some er)
      with Cons.prems False s1 have "s' = s1" by simp
      with publish_error [OF s1 [unfolded Some]] False show ?thesis
        by (auto intro: exI [of _ 0] exI [of _ "Suc 0"])
    qed
  qed
qed

lemma processor_ok: "processor publish c es s = (None, s') \<Longrightarrow> sent s' = sent s @ messages es"
  by (auto simp: processor_def split: if_splits dest: publish_events_ok)

lemma processor_error:
  "processor publish c es s = (Some err, s') \<Longrightarrow> \<exists>k \<le> length es. sent s' = sent s @ messages (take k es)"
  by (auto simp: processor_def split: if_splits dest: publish_events_error)

end

section \<open>A relay on a store and a broker\<close>

text \<open>
  The broker's state is the part of the world that the store leaves to the processing
  function.
\<close>

locale relay = outbox_store process rows batch outside quiet + broker publish sent msg
  for process :: "int \<Rightarrow> 's process_func \<Rightarrow> ctx \<Rightarrow> 's \<Rightarrow> error option \<times> 's"
    and rows :: "'s \<Rightarrow> outbox_row list" and batch :: "int \<Rightarrow> 's \<Rightarrow> OutboxEvent list"
    and outside :: "'s \<Rightarrow> 'b" and quiet :: "'s process_func \<Rightarrow> bool"
    and publish :: "'s publish_method" and sent :: "'s \<Rightarrow> 'm list" and msg :: "string \<Rightarrow> OutboxEvent \<Rightarrow> 'm" +
  assumes sent_outside: "outside s = outside s' \<Longrightarrow> sent s = sent s'"
    and publish_quiet: "quiet (processor publish)"
begin

text \<open>
  One tick: either nothing is marked and a prefix of the batch may have been sent, or the
  whole batch is marked and all of it has been sent.
\<close>

lemma process_tick:
  assumes "process n (processor publish) c s = (r, s')"
  shows "rows s' = rows s \<and> (\<exists>k. sent s' = sent s @ messages (take k (batch n s))) \<and>
           (r = None \<longrightarrow> batch n s = []) \<or>
         rows s' = mark_rows (batch n s) (rows s) \<and> sent s' = sent s @ messages (batch n s)"
  using process_cases [OF publish_quiet assms]
proof (elim disjE exE conjE)
  assume "rows s' = rows s" "outside s' = outside s" "r = None \<longrightarrow> batch n s = []"
  then show ?thesis using sent_outside [of s' s] by (auto intro: exI [of _ 0])
next
  fix s1 r1 s2
  assume o: "outside s1 = outside s" "outside s' = outside s2"
    and pf: "processor publish c (batch n s) s1 = (r1, s2)"
    and res: "r \<noteq> None" "rows s' = rows s"
  have "\<exists>k. sent s2 = sent s1 @ messages (take k (batch n s))"
  proof (cases r1)
    case None
    with processor_ok pf show ?thesis by (intro exI [of _ "length (batch n s)"]) simp
  next
    case (Some e)
    with processor_error pf show ?thesis by blast
  qed
  with o res sent_outside [of s1 s] sent_outside [of s' s2] show ?thesis by auto
next
  fix s1 r1 s2
  assume o: "outside s1 = outside s" "outside s' = outside s2"
    and pf: "processor publish c (batch n s) s1 = (r1, s2)"
    and res: "r1 = None" "rows s' = mark_rows (batch n s) (rows s)"
  with processor_ok [of c "batch n s" s1 s2] sent_outside [of s1 s] sent_outside [of s' s2]
  show ?thesis by simp
qed

text \<open>At least once: an event that is marked, and has a topic, has been accepted by the broker.\<close>

definition delivered :: "'s \<Rightarrow> bool" where
  "delivered s \<longleftrightarrow> distinct (map oe_EventID (map ob_event (rows s))) \<and>
     (\<forall>x \<in> set (rows s). published x \<longrightarrow> oe_AggregateType (ob_event x) \<noteq> '''' \<longrightarrow>
        msg (oe_AggregateType (ob_event x)) (ob_event x) \<in> set (sent s))"

lemma tick_delivered:
  assumes "process n (processor publish) c s = (r, s')" "delivered s"
  shows "delivered s'"
  using process_tick [OF assms(1)]
proof (elim disjE conjE exE)
  fix k
  assume "rows s' = rows s" "sent s' = sent s @ messages (take k (batch n s))"
  with assms(2) show ?thesis by (auto simp: delivered_def)
next
  assume r: "rows s' = mark_rows (batch n s) (rows s)" and m: "sent s' = sent s @ messages (batch n s)"
  have dist: "distinct (map oe_EventID (map ob_event (rows s)))" using assms(2) by (simp add: delivered_def)
  have "msg (oe_AggregateType (ob_event x)) (ob_event x) \<in> set (sent s')"
    if x: "x \<in> set (rows s')" "published x" "oe_AggregateType (ob_event x) \<noteq> ''''" for x
  proof -
    from mark_rows_published [OF x(1) [unfolded r] x(2)] obtain y where
      y: "y \<in> set (rows s)" "ob_event y = ob_event x"
      and c: "published y \<or> oe_EventID (ob_event x) \<in> oe_EventID ` set (batch n s)" by blast
    from c show ?thesis
    proof
      assume "published y"
      with y x(3) assms(2) m show ?thesis by (auto simp: delivered_def)
    next
      assume "oe_EventID (ob_event x) \<in> oe_EventID ` set (batch n s)"
      then obtain e where e: "e \<in> set (batch n s)" "oe_EventID e = oe_EventID (ob_event x)" by auto
      from batch_rows [OF e(1)] obtain z where "z \<in> set (rows s)" "ob_event z = e" by blast
      then have "e \<in> set (map ob_event (rows s))" "ob_event x \<in> set (map ob_event (rows s))"
        using y by (metis image_eqI set_map)+
      from distinct_map_inj [OF dist this e(2)] have "e = ob_event x" .
      with e(1) x(3) m show ?thesis by auto
    qed
  qed
  with dist r show ?thesis unfolding delivered_def by simp
qed

end

section \<open>The test broker\<close>

text \<open>\<open>MockBroker\<close>: a channel of events, and an error to return instead.\<close>

record MockBroker =
  PublishedEvents :: "OutboxEvent list"
  PublishError :: "error option"

definition MockBroker_Publish :: "MockBroker publish_method" where
  "MockBroker_Publish ctx topic evt m =
     (case PublishError m of
        Some err \<Rightarrow> (Some err, m)
      | None \<Rightarrow> (None, m\<lparr>PublishedEvents := PublishedEvents m @ [evt]\<rparr>))"

interpretation mock: broker MockBroker_Publish PublishedEvents "\<lambda>_ e. e"
  by unfold_locales (auto simp: MockBroker_Publish_def split: option.splits)

section \<open>A broker beside the database\<close>

text \<open>The world of a relay process: a database session and the state of the broker.\<close>

record 'b world = session +
  bus :: 'b

definition on_bus :: "'b publish_method \<Rightarrow> 'b world publish_method" where
  "on_bus publish ctx topic evt w =
     (case publish ctx topic evt (bus w) of (r, b) \<Rightarrow> (r, w\<lparr>bus := b\<rparr>))"

lemma on_bus_frame:
  "on_bus p c t e w = (r, w') \<Longrightarrow>
     committed w' = committed w \<and> cur_tx w' = cur_tx w \<and> locked w' = locked w \<and> faults w' = faults w"
  by (auto simp: on_bus_def split: prod.splits)

lemma publish_events_on_bus_frame:
  "publish_events (on_bus p) c es w = (r, w') \<Longrightarrow>
     committed w' = committed w \<and> cur_tx w' = cur_tx w \<and> locked w' = locked w \<and> faults w' = faults w"
proof (induction es arbitrary: w)
  case Nil
  then show ?case by simp
next
  case (Cons e es)
  obtain r1 w1 where w1: "on_bus p c (oe_AggregateType e) e w = (r1, w1)" by fastforce
  with Cons on_bus_frame [OF w1] show ?case
    by (cases r1) (auto simp: Let_def split: if_splits)
qed

lemma processor_on_bus_frame:
  "processor (on_bus p) c es w = (r, w') \<Longrightarrow>
     committed w' = committed w \<and> cur_tx w' = cur_tx w \<and> locked w' = locked w \<and> faults w' = faults w"
  by (auto simp: processor_def split: if_splits dest: publish_events_on_bus_frame)

lemma processor_quiet: "quiet_func (processor (on_bus p))"
  unfolding quiet_func_def using processor_on_bus_frame by blast

lemma broker_on_bus:
  assumes "broker p sent msg"
  shows "broker (on_bus p) (\<lambda>w. sent (bus w)) msg"
proof -
  note b = broker.publish_ok [OF assms] broker.publish_error [OF assms]
  show ?thesis
    by unfold_locales (auto simp: on_bus_def split: prod.splits dest: b)
qed

text \<open>A relay that runs \<open>ProcessOutboxBatch\<close> and any broker that keeps its contract.\<close>

lemma relay_on_bus:
  fixes p :: "'b publish_method"
  assumes "broker p sent msg"
  shows "relay ProcessOutboxBatch (\<lambda>w. outbox (committed w))
    (\<lambda>n w. unpublished_batch n (locked w) (committed w)) session.more quiet_func
    (on_bus p) (\<lambda>w. sent (bus w)) msg"
proof -
  have "bus w = bus w'" if "session.more w = session.more w'" for w w' :: "'b world"
    using that by (cases w, cases w') simp
  then have "relay_axioms session.more quiet_func (on_bus p) (\<lambda>w. sent (bus w))"
    unfolding relay_axioms_def by (metis processor_quiet)
  then show ?thesis
    by (intro relay.intro pg_outbox.outbox_store_axioms broker_on_bus [OF assms])
qed

interpretation mock_relay: relay ProcessOutboxBatch "\<lambda>w. outbox (committed w)"
  "\<lambda>n w. unpublished_batch n (locked w) (committed w)" session.more quiet_func
  "on_bus MockBroker_Publish" "\<lambda>w. PublishedEvents (bus w)" "\<lambda>_ e. e"
  by (rule relay_on_bus) (rule mock.broker_axioms)

section \<open>The goroutine of a relay\<close>

text \<open>Whatever the signals and the faults, the loop keeps what every tick keeps.\<close>

lemma relay_loop_invariant:
  assumes "relay_loop rl c sigs w = (b, w')" "P w" "\<And>w r w'. processBatch rl c w = (r, w') \<Longrightarrow> P w \<Longrightarrow> P w'"
  shows "P w'"
  using assms(1,2)
proof (induction sigs arbitrary: w)
  case Nil
  then show ?case by simp
next
  case (Cons sig sigs)
  obtain r1 w1 where w1: "processBatch rl c w = (r1, w1)" by fastforce
  with assms(3) [OF w1] Cons show ?case by (cases sig) auto
qed

end
