(* ===== verification/Nats.thy ===== *)
theory Nats
  imports Relays
begin

text \<open>
  \<open>infra/nats/broker.go\<close>: publishing and subscribing over NATS JetStream. The client library
  \<open>github.com/nats-io/nats.go\<close> and the server are not code of this repository: the methods that
  the file calls are the fields of the parameter \<open>js\<close>, acting on a state \<open>'j\<close> of the server, and
  the text form of a UUID is the parameter \<open>uuid_String\<close>. What the documentation of JetStream
  says of them is the hypothesis \<open>jetstream_ok\<close>.
\<close>

section \<open>The client library\<close>

record ('j, 'q, 'm) jetstream =
  js_StreamInfo :: "string \<Rightarrow> 'j \<Rightarrow> error option \<times> 'j"
  js_AddStream :: "string \<Rightarrow> string list \<Rightarrow> 'j \<Rightarrow> error option \<times> 'j"
  js_Publish :: "string \<Rightarrow> json \<Rightarrow> 'j \<Rightarrow> error option \<times> 'j"
  js_PullSubscribe :: "string \<Rightarrow> string \<Rightarrow> 'j \<Rightarrow> (error + 'q) \<times> 'j"
  js_Fetch :: "'q \<Rightarrow> nat \<Rightarrow> 'j \<Rightarrow> (error + 'm list) \<times> 'j"
  js_Data :: "'m \<Rightarrow> json"
  js_Ack :: "'m \<Rightarrow> 'j \<Rightarrow> 'j"
  js_Nak :: "'m \<Rightarrow> 'j \<Rightarrow> 'j"

section \<open>Publishing\<close>

definition ensureTopicExist :: "('j, 'q, 'm) jetstream \<Rightarrow> string \<Rightarrow> 'j \<Rightarrow> error option \<times> 'j" where
  "ensureTopicExist js topic j =
     (let streamName = topic in
      case js_StreamInfo js streamName j of
        (None, j1) \<Rightarrow> (None, j1)
      | (Some err, j1) \<Rightarrow>
          if err = ErrStreamNotFound then
            (case js_AddStream js streamName [streamName @ ''.*''] j1 of
               (Some err, j2) \<Rightarrow> (Some (Wrap (''failed to create stream '' @ streamName) err), j2)
             | (None, j2) \<Rightarrow> (None, j2))
          else (Some (Wrap (''failed to get stream info for '' @ streamName) err), j1))"

definition NATSBroker_Publish ::
  "(uuid \<Rightarrow> string) \<Rightarrow> ('j, 'q, 'm) jetstream \<Rightarrow> 'j publish_method" where
  "NATSBroker_Publish uuid_String js ctx topic evt j =
     (case ensureTopicExist js topic j of
        (Some err, j1) \<Rightarrow> (Some (Wrap ''failed to ensure the topic exists when publishing'' err), j1)
      | (None, j1) \<Rightarrow>
          (case marshal_outbox evt of
             Inl err \<Rightarrow> (Some (Wrap ''failed to marshal event payload'' err), j1)
           | Inr payload \<Rightarrow>
               (let subject = topic @ ''.'' @ uuid_String (oe_AggregateID evt) in
                case js_Publish js subject payload j1 of
                  (Some err, j2) \<Rightarrow> (Some (Wrap ''failed to publish event to NATS'' err), j2)
                | (None, j2) \<Rightarrow> (None, j2))))"

section \<open>Subscribing\<close>

text \<open>The body of the loop over one batch of messages. The errors of \<open>Ack\<close> and \<open>Nak\<close> are ignored.\<close>

fun handle_msgs ::
  "('j, 'q, 'm) jetstream \<Rightarrow> (ctx \<Rightarrow> OutboxEvent \<Rightarrow> 'j world \<Rightarrow> error option \<times> 'j world)
     \<Rightarrow> 'm list \<Rightarrow> 'j world \<Rightarrow> 'j world" where
  "handle_msgs js handler [] w = w"
| "handle_msgs js handler (msg # msgs) w =
     (case unmarshal_outbox (js_Data js msg) zero_outbox of
        Inl err \<Rightarrow> handle_msgs js handler msgs (w\<lparr>bus := js_Nak js msg (bus w)\<rparr>)
      | Inr evt \<Rightarrow>
          (case handler Background evt w of
             (Some err, w1) \<Rightarrow> handle_msgs js handler msgs (w1\<lparr>bus := js_Nak js msg (bus w1)\<rparr>)
           | (None, w1) \<Rightarrow> handle_msgs js handler msgs (w1\<lparr>bus := js_Ack js msg (bus w1)\<rparr>)))"

text \<open>One turn of the default branch: a failed fetch is logged and the loop goes on.\<close>

definition fetch_turn ::
  "('j, 'q, 'm) jetstream \<Rightarrow> (ctx \<Rightarrow> OutboxEvent \<Rightarrow> 'j world \<Rightarrow> error option \<times> 'j world)
     \<Rightarrow> 'q \<Rightarrow> 'j world \<Rightarrow> 'j world" where
  "fetch_turn js handler sub w =
     (case js_Fetch js sub 10 (bus w) of
        (Inl err, j) \<Rightarrow> w\<lparr>bus := j\<rparr>
      | (Inr msgs, j) \<Rightarrow> handle_msgs js handler msgs (w\<lparr>bus := j\<rparr>))"

text \<open>
  The goroutine: the list tells for each turn whether the context was found cancelled. The
  result is whether the goroutine has returned, and the state.
\<close>

fun subscriber_loop ::
  "('j, 'q, 'm) jetstream \<Rightarrow> (ctx \<Rightarrow> OutboxEvent \<Rightarrow> 'j world \<Rightarrow> error option \<times> 'j world)
     \<Rightarrow> 'q \<Rightarrow> bool list \<Rightarrow> 'j world \<Rightarrow> bool \<times> 'j world" where
  "subscriber_loop js handler sub [] w = (False, w)"
| "subscriber_loop js handler sub (cancelled # turns) w =
     (if cancelled then (True, w)
      else subscriber_loop js handler sub turns (fetch_turn js handler sub w))"

text \<open>\<open>Subscribe\<close> up to the start of the goroutine: the subscription that the goroutine polls.\<close>

definition NATSBroker_Subscribe ::
  "('j, 'q, 'm) jetstream \<Rightarrow> string \<Rightarrow> string \<Rightarrow> 'j \<Rightarrow> (error + 'q) \<times> 'j" where
  "NATSBroker_Subscribe js topic subscriberID j =
     (case ensureTopicExist js topic j of
        (Some err, j1) \<Rightarrow> (Inl (Wrap ''failed to ensure the topic exists when subscribing'' err), j1)
      | (None, j1) \<Rightarrow>
          (let streamName = topic; consumerName = topic @ ''-'' @ subscriberID in
           case js_PullSubscribe js (streamName @ ''.*'') consumerName j1 of
             (Inl err, j2) \<Rightarrow> (Inl (Wrap ''failed to create pull subscription'' err), j2)
           | (Inr sub, j2) \<Rightarrow> (Inr sub, j2)))"

section \<open>What JetStream promises\<close>

text \<open>
  \<open>stored\<close> is the content of the streams, \<open>acks\<close> the acknowledged messages. A publish that
  returns no error has stored the message; one that returns an error may have. The other calls
  store nothing, and only \<open>Ack\<close> acknowledges.
\<close>

definition jetstream_ok ::
  "('j, 'q, 'm) jetstream \<Rightarrow> ('j \<Rightarrow> (string \<times> json) list) \<Rightarrow> ('j \<Rightarrow> 'm set) \<Rightarrow> bool" where
  "jetstream_ok js stored acks \<longleftrightarrow>
     (\<forall>n j r j'. js_StreamInfo js n j = (r, j') \<longrightarrow> stored j' = stored j \<and> acks j' = acks j) \<and>
     (\<forall>n ss j r j'. js_AddStream js n ss j = (r, j') \<longrightarrow> stored j' = stored j \<and> acks j' = acks j) \<and>
     (\<forall>s x j j'. js_Publish js s x j = (None, j') \<longrightarrow> stored j' = stored j @ [(s, x)] \<and> acks j' = acks j) \<and>
     (\<forall>s x j e j'. js_Publish js s x j = (Some e, j') \<longrightarrow>
        (stored j' = stored j \<or> stored j' = stored j @ [(s, x)]) \<and> acks j' = acks j) \<and>
     (\<forall>q n j r j'. js_Fetch js q n j = (r, j') \<longrightarrow> stored j' = stored j \<and> acks j' = acks j) \<and>
     (\<forall>m j. stored (js_Ack js m j) = stored j \<and> acks (js_Ack js m j) = insert m (acks j)) \<and>
     (\<forall>m j. stored (js_Nak js m j) = stored j \<and> acks (js_Nak js m j) = acks j)"

lemma jetstream_okD:
  assumes "jetstream_ok js stored acks"
  shows "js_StreamInfo js n j = (r, j') \<Longrightarrow> stored j' = stored j"
    "js_AddStream js n ss j = (r, j') \<Longrightarrow> stored j' = stored j"
    "js_Publish js s x j = (None, j') \<Longrightarrow> stored j' = stored j @ [(s, x)]"
    "js_Publish js s x j = (Some e, j') \<Longrightarrow> stored j' = stored j \<or> stored j' = stored j @ [(s, x)]"
    "js_Fetch js q k j = (ms, j') \<Longrightarrow> acks j' = acks j"
    "acks (js_Ack js m j) = insert m (acks j)" "acks (js_Nak js m j) = acks j"
    "js_StreamInfo js n j = (r, j') \<Longrightarrow> acks j' = acks j"
    "js_AddStream js n ss j = (r, j') \<Longrightarrow> acks j' = acks j"
    "js_Publish js s x j = (r, j') \<Longrightarrow> acks j' = acks j"
    "js_Fetch js q k j = (ms, j') \<Longrightarrow> stored j' = stored j"
    "stored (js_Ack js m j) = stored j" "stored (js_Nak js m j) = stored j"
  using assms by (cases r; auto simp: jetstream_ok_def)+

lemma ensureTopicExist_stored:
  assumes "jetstream_ok js stored acks" "ensureTopicExist js t j = (r, j')"
  shows "stored j' = stored j"
proof -
  obtain r1 j1 where j1: "js_StreamInfo js t j = (r1, j1)" by fastforce
  obtain r2 j2 where j2: "js_AddStream js t [t @ ''.*''] j1 = (r2, j2)" by fastforce
  have "j' \<in> {j1, j2}"
    using assms(2) j1 j2 by (cases r1; cases r2) (auto simp: ensureTopicExist_def split: if_splits)
  with jetstream_okD(1) [OF assms(1) j1] jetstream_okD(2) [OF assms(1) j2] show ?thesis by auto
qed

section \<open>The broker\<close>

text \<open>The message that stands for an event.\<close>

definition nats_msg :: "(uuid \<Rightarrow> string) \<Rightarrow> string \<Rightarrow> OutboxEvent \<Rightarrow> string \<times> json" where
  "nats_msg uuid_String topic evt =
     (topic @ ''.'' @ uuid_String (oe_AggregateID evt), projr (marshal_outbox evt))"

lemma nats_broker:
  assumes "jetstream_ok js stored acks"
  shows "broker (NATSBroker_Publish us js) stored (nats_msg us)"
proof
  fix c t e j j'
  assume "NATSBroker_Publish us js c t e j = (None, j')"
  then obtain j1 x where j1: "ensureTopicExist js t j = (None, j1)" "marshal_outbox e = Inr x"
    and p: "js_Publish js (t @ ''.'' @ us (oe_AggregateID e)) x j1 = (None, j')"
    by (auto simp: NATSBroker_Publish_def Let_def split: prod.splits option.splits sum.splits)
  from jetstream_okD(3) [OF assms p] ensureTopicExist_stored [OF assms j1(1)] j1(2)
  show "stored j' = stored j @ [nats_msg us t e]" by (simp add: nats_msg_def)
next
  fix c t e j err j'
  assume run: "NATSBroker_Publish us js c t e j = (Some err, j')"
  obtain r1 j1 where j1: "ensureTopicExist js t j = (r1, j1)" by fastforce
  note s1 = ensureTopicExist_stored [OF assms j1]
  show "stored j' = stored j \<or> stored j' = stored j @ [nats_msg us t e]"
  proof (cases "r1 = None \<and> (\<exists>x. marshal_outbox e = Inr x)")
    case True
    then obtain x where x: "r1 = None" "marshal_outbox e = Inr x" by blast
    with run j1 obtain er where "js_Publish js (t @ ''.'' @ us (oe_AggregateID e)) x j1 = (Some er, j')"
      by (auto simp: NATSBroker_Publish_def Let_def split: prod.splits option.splits)
    from jetstream_okD(4) [OF assms this] s1 x(2) show ?thesis by (simp add: nats_msg_def)
  next
    case False
    with run j1 have "j' = j1"
      by (auto simp: NATSBroker_Publish_def split: option.splits sum.splits)
    with s1 show ?thesis by simp
  qed
qed

text \<open>A relay over NATS.\<close>

lemma nats_relay:
  assumes "jetstream_ok js stored acks"
  shows "relay ProcessOutboxBatch (\<lambda>w. outbox (committed w))
    (\<lambda>n w. unpublished_batch n (locked w) (committed w)) session.more quiet_func
    (on_bus (NATSBroker_Publish us js)) (\<lambda>w. stored (bus w)) (nats_msg us)"
  by (rule relay_on_bus [OF nats_broker [OF assms]])

text \<open>What the subscriber reads from a message is the event that the relay published.\<close>

lemma nats_msg_roundtrip:
  assumes "year_ok (oe_Ts e)" "int64 (oe_Version e)"
  shows "unmarshal_outbox (snd (nats_msg us t e)) d = Inr e"
proof -
  obtain x where x: "marshal_outbox e = Inr x" using assms(1) by (auto simp: marshal_outbox_def enc_time_def)
  with unmarshal_marshal_outbox [OF x assms(2)] show ?thesis by (simp add: nats_msg_def)
qed

section \<open>Acknowledgements\<close>

text \<open>
  A message is acknowledged only after the handler has returned \<open>nil\<close> for the event in it, and
  what the handler established then (and keeps while other events are handled) still holds.
\<close>

lemma handle_msgs_acked:
  assumes "jetstream_ok js stored acks"
    and keeps: "\<And>evt w r w' e. handler Background evt w = (r, w') \<Longrightarrow> Q e (committed w) \<Longrightarrow> Q e (committed w')"
    and accepts: "\<And>evt w w'. handler Background evt w = (None, w') \<Longrightarrow> Q evt (committed w')"
    and frame: "\<And>evt w r w'. handler Background evt w = (r, w') \<Longrightarrow> acks (bus w') = acks (bus w)"
    and "m \<in> acks (bus (handle_msgs js handler msgs w))"
    and "m \<in> acks (bus w) \<Longrightarrow> \<exists>evt. unmarshal_outbox (js_Data js m) zero_outbox = Inr evt \<and> Q evt (committed w)"
  shows "\<exists>evt. unmarshal_outbox (js_Data js m) zero_outbox = Inr evt \<and>
    Q evt (committed (handle_msgs js handler msgs w))"
  using assms(5,6)
proof (induction msgs arbitrary: w)
  case Nil
  then show ?case by simp
next
  case (Cons x xs)
  note jd = jetstream_okD(6,7) [OF assms(1)]
  show ?case
  proof (cases "unmarshal_outbox (js_Data js x) zero_outbox")
    case (Inl err)
    from Cons.prems(1) Inl have mm: "m \<in> acks (bus (handle_msgs js handler xs (w\<lparr>bus := js_Nak js x (bus w)\<rparr>)))"
      by simp
    from Cons.IH [OF mm] Cons.prems(2) Inl jd show ?thesis by simp
  next
    case (Inr evt)
    obtain r w1 where h: "handler Background evt w = (r, w1)" by fastforce
    note k = keeps [OF h] and f = frame [OF h]
    show ?thesis
    proof (cases r)
      case None
      note q = accepts [OF h [unfolded None]]
      from Cons.prems(1) Inr h None have mm: "m \<in> acks (bus (handle_msgs js handler xs (w1\<lparr>bus := js_Ack js x (bus w1)\<rparr>)))"
        by simp
      have "\<exists>evt. unmarshal_outbox (js_Data js m) zero_outbox = Inr evt \<and> Q evt (committed w1)"
        if "m = x \<or> m \<in> acks (bus w)"
        using that Inr q k Cons.prems(2) by blast
      then have "\<exists>evt. unmarshal_outbox (js_Data js m) zero_outbox = Inr evt \<and>
          Q evt (committed (handle_msgs js handler xs (w1\<lparr>bus := js_Ack js x (bus w1)\<rparr>)))"
        using Cons.IH [OF mm] jd f by simp
      with Inr h None show ?thesis by simp
    next
      case (Some err)
      from Cons.prems(1) Inr h Some have mm: "m \<in> acks (bus (handle_msgs js handler xs (w1\<lparr>bus := js_Nak js x (bus w1)\<rparr>)))"
        by simp
      have "\<exists>evt. unmarshal_outbox (js_Data js m) zero_outbox = Inr evt \<and>
          Q evt (committed (handle_msgs js handler xs (w1\<lparr>bus := js_Nak js x (bus w1)\<rparr>)))"
        using Cons.IH [OF mm] Cons.prems(2) k jd f by fastforce
      with Inr h Some show ?thesis by simp
    qed
  qed
qed

section \<open>A server in memory\<close>

text \<open>
  An instance of the parameter that keeps the hypothesis: one consumer over all streams; a message
  is its position and its data, and stays available until it is acknowledged.
\<close>

record mem_js =
  mj_streams :: "string list"
  mj_stored :: "(string \<times> json) list"
  mj_acked :: "(nat \<times> json) list"

definition mem_jetstream :: "(mem_js, unit, nat \<times> json) jetstream" where
  "mem_jetstream =
     \<lparr>js_StreamInfo = (\<lambda>n j. (if n \<in> set (mj_streams j) then None else Some ErrStreamNotFound, j)),
      js_AddStream = (\<lambda>n ss j. (None, j\<lparr>mj_streams := n # mj_streams j\<rparr>)),
      js_Publish = (\<lambda>s x j. (None, j\<lparr>mj_stored := mj_stored j @ [(s, x)]\<rparr>)),
      js_PullSubscribe = (\<lambda>s n j. (Inr (), j)),
      js_Fetch = (\<lambda>q k j. (Inr (take k (filter (\<lambda>m. m \<notin> set (mj_acked j)) (enumerate 0 (map snd (mj_stored j))))), j)),
      js_Data = snd,
      js_Ack = (\<lambda>m j. j\<lparr>mj_acked := m # mj_acked j\<rparr>),
      js_Nak = (\<lambda>m j. j)\<rparr>"

definition mem_js_empty :: mem_js where
  "mem_js_empty = \<lparr>mj_streams = [], mj_stored = [], mj_acked = []\<rparr>"

text \<open>A world with one unpublished event, for the examples below.\<close>

definition sample_event :: OutboxEvent where
  "sample_event = zero_outbox\<lparr>oe_EventID := 2, oe_AggregateType := ''products''\<rparr>"

definition sample_world :: "fault option list \<Rightarrow> mem_js world" where
  "sample_world fs =
     \<lparr>committed = empty_db\<lparr>outbox := [\<lparr>ob_event = sample_event, published = False\<rparr>]\<rparr>, cur_tx = None,
      faults = fs, locked = [], bus = mem_js_empty\<rparr>"

lemma mem_jetstream_ok: "jetstream_ok mem_jetstream mj_stored (\<lambda>j. set (mj_acked j))"
  by (simp add: jetstream_ok_def mem_jetstream_def)

section \<open>Properties\<close>

text \<open>
  What the subscriber decodes from the message of an event is the event itself: identity,
  aggregate, type, payload, version and time survive \<open>Publish\<close> and the decoding in \<open>Subscribe\<close>.
\<close>

theorem published_event_roundtrip:
  assumes "jetstream_ok js stored acks" "NATSBroker_Publish us js c topic e j = (None, j')" "int64 (oe_Version e)"
  shows "\<exists>payload. stored j' = stored j @ [(topic @ ''.'' @ us (oe_AggregateID e), payload)] \<and>
    unmarshal_outbox payload zero_outbox = Inr e"
proof -
  have "stored j' = stored j @ [nats_msg us topic e]"
    by (rule broker.publish_ok [OF nats_broker [OF assms(1)] assms(2)])
  moreover obtain x where x: "marshal_outbox e = Inr x"
    using assms(2) by (auto simp: NATSBroker_Publish_def split: prod.splits option.splits sum.splits)
  ultimately show ?thesis
    using unmarshal_marshal_outbox [OF x assms(3)] by (auto simp: nats_msg_def)
qed

theorem published_event_roundtrip_witness:
  "\<exists>j' payload. NATSBroker_Publish (\<lambda>_. ''7'') mem_jetstream Background ''products'' zero_outbox mem_js_empty = (None, j') \<and>
     mj_stored j' = [(''products.7'', payload)] \<and> unmarshal_outbox payload zero_outbox = Inr zero_outbox"
proof -
  have "\<exists>j'. NATSBroker_Publish (\<lambda>_. ''7'') mem_jetstream Background ''products'' zero_outbox mem_js_empty = (None, j')"
    by (simp add: NATSBroker_Publish_def ensureTopicExist_def mem_jetstream_def mem_js_empty_def
        marshal_outbox_def enc_time_def year_ok_def zero_outbox_def)
  then obtain j' where j': "NATSBroker_Publish (\<lambda>_. ''7'') mem_jetstream Background ''products'' zero_outbox mem_js_empty = (None, j')" ..
  from published_event_roundtrip [OF mem_jetstream_ok j'] j' show ?thesis
    by (auto simp: zero_outbox_def mem_js_empty_def int64_def)
qed

text \<open>
  C19. One run of \<open>ProcessOutboxBatch\<close> with the relay's processor over NATS is all or nothing on
  the outbox, whatever faults occur: either no row changes, and then at most a prefix of the
  batch has reached the streams; or exactly the rows of the batch are marked as published, and
  then the message of every event of the batch that has a topic is in the streams, in order.
\<close>

theorem outbox_batch_all_or_nothing:
  assumes "jetstream_ok js stored acks"
    and "ProcessOutboxBatch n (processor (on_bus (NATSBroker_Publish us js))) c w = (r, w')"
    and "es = unpublished_batch n (locked w) (committed w)"
  shows "outbox (committed w') = outbox (committed w) \<and>
       (\<exists>k. stored (bus w') = stored (bus w) @ batch_messages (nats_msg us) (take k es)) \<and> (r = None \<longrightarrow> es = []) \<or>
     outbox (committed w') = mark_rows es (outbox (committed w)) \<and>
       stored (bus w') = stored (bus w) @ batch_messages (nats_msg us) es"
  unfolding assms(3) using relay.process_tick [OF nats_relay [OF assms(1)] assms(2)] .

theorem outbox_batch_all_or_nothing_witness:
  "\<exists>r w'. ProcessOutboxBatch 10 (processor (on_bus (NATSBroker_Publish (\<lambda>_. ''7'') mem_jetstream))) Background
      (sample_world [None, None, None, Some (Fault DriverError False)]) = (r, w') \<and>
     (map published (outbox (committed w')) = [False] \<or> length (mj_stored (bus w')) = 1)"
proof -
  obtain r w' where run: "ProcessOutboxBatch 10 (processor (on_bus (NATSBroker_Publish (\<lambda>_. ''7'') mem_jetstream))) Background
      (sample_world [None, None, None, Some (Fault DriverError False)]) = (r, w')"
    by fastforce
  from outbox_batch_all_or_nothing [OF mem_jetstream_ok run refl]
  have "map published (outbox (committed w')) = [False] \<or> length (mj_stored (bus w')) = 1"
    by (auto simp: sample_world_def sample_event_def unpublished_batch_def mem_js_empty_def)
  with run show ?thesis by (intro exI conjI)
qed

end
