(* ===== verification/Relay_Workers.thy ===== *)
theory Relay_Workers
  imports Nats
begin

text \<open>
  Several relays on one outbox, as \<open>sample/main.go\<close> starts them. A batch is fetched and locked in
  one step; while a relay holds it, other relays fetch, publish and commit theirs and clients
  add events to the outbox; the rest of \<open>ProcessOutboxBatch\<close> (publishing, marking, committing) is
  one step of the relay that holds the batch. The locks of a relay last as long as it holds its
  batch, because they belong to its transaction. Every step may meet any faults.
\<close>

section \<open>The machine\<close>

text \<open>The part of \<open>ProcessOutboxBatch\<close> after a batch of events has been locked.\<close>

definition batch_rest ::
  "'x session_scheme process_func \<Rightarrow> ctx \<Rightarrow> OutboxEvent list \<Rightarrow> 'x session_scheme \<Rightarrow> error option \<times> 'x session_scheme" where
  "batch_rest processFunc ctx events s2 =
     (case processFunc ctx events s2 of
        (Some err, s3) \<Rightarrow> (Some (Wrap ''event processing function failed'' err), tx_Rollback s3)
      | (None, s3) \<Rightarrow>
          (case markAsPublishedInTx events s3 of
             (Some err, s4) \<Rightarrow> (Some (Wrap ''failed to mark events as published'' err), tx_Rollback s4)
           | (None, s4) \<Rightarrow> (case tx_Commit s4 of (r, s5) \<Rightarrow> (r, tx_Rollback s5))))"

lemma ProcessOutboxBatch_split:
  assumes "pool_Begin s = (None, s1)" "fetchAndLockUnpublishedInTx n s1 = (Inr es, s2)" "es \<noteq> []"
  shows "ProcessOutboxBatch n pf c s = batch_rest pf c es s2"
  using assms by (simp add: ProcessOutboxBatch_def batch_rest_def)

lemma batch_rest_nofault:
  assumes "faults s = []" "fresh_tx s" "distinct (outbox_ids_of (committed s))" "quiet_func pf"
    and "pf c (unpublished_batch n l (committed s)) s = (None, s2)" "faults s2 = []"
  shows "\<exists>s'. batch_rest pf c (unpublished_batch n l (committed s)) s = (None, s') \<and> faults s' = [] \<and>
    session.more s' = session.more s2 \<and>
    committed s' = (committed s)\<lparr>outbox := mark_rows (unpublished_batch n l (committed s)) (outbox (committed s))\<rparr>"
proof -
  let ?b = "unpublished_batch n l (committed s)"
  note q = assms(4) [unfolded quiet_func_def, rule_format, OF assms(5)]
  have v2: "tx_view s2 = committed s" and o2: "tx_open s2"
    using q assms(2) tx_view_cong [of s2 s] fresh_tx_view [OF assms(2)] by (simp_all add: tx_open_def fresh_tx_def)
  from markAsPublishedInTx_nofault [OF assms(6) o2, of ?b n l] assms(3) v2
  obtain s3 where s3: "markAsPublishedInTx ?b s2 = (None, s3)" "faults s3 = []" "tx_open s3"
    "same_outside s2 s3" "tx_view s3 = (committed s)\<lparr>outbox := mark_rows ?b (outbox (committed s))\<rparr>"
    by auto
  from tx_Commit_nofault [OF s3(2,3)] obtain s4 where s4: "tx_Commit s3 = (None, s4)" "faults s4 = []"
    "committed s4 = tx_view s3" "cur_tx s4 = None" "session.more s4 = session.more s3"
    by blast
  show ?thesis using assms(5) s3 s4 by (simp add: batch_rest_def same_outside_def)
qed

record 'b relays =
  rs_db :: db
  rs_held :: "(nat \<times> OutboxEvent list) list"
  rs_bus :: 'b

definition held_events :: "'b relays \<Rightarrow> OutboxEvent list" where
  "held_events y = concat (map snd (rs_held y))"

text \<open>The session in which a relay begins, and the one in which it finishes its batch.\<close>

definition fetch_session :: "'b relays \<Rightarrow> fault option list \<Rightarrow> session" where
  "fetch_session y fs =
     \<lparr>committed = rs_db y, cur_tx = None, faults = fs, locked = map oe_EventID (held_events y)\<rparr>"

definition finish_session :: "'b relays \<Rightarrow> fault option list \<Rightarrow> 'b world" where
  "finish_session y fs =
     \<lparr>committed = rs_db y, cur_tx = Some \<lparr>tx_stmts = [], tx_aborted = False\<rparr>, faults = fs, locked = [],
      bus = rs_bus y\<rparr>"

text \<open>A step is labelled with the result that the relay sees.\<close>

inductive relay_step ::
  "int \<Rightarrow> 'b publish_method \<Rightarrow> 'b relays \<Rightarrow> error option \<Rightarrow> 'b relays \<Rightarrow> bool"
  for n :: int and publish :: "'b publish_method" where
  fetch: "k \<notin> fst ` set (rs_held y) \<Longrightarrow> pool_Begin (fetch_session y fs) = (None, s1) \<Longrightarrow>
    fetchAndLockUnpublishedInTx n s1 = (Inr es, s2) \<Longrightarrow>
    relay_step n publish y None (y\<lparr>rs_held := (k, es) # rs_held y\<rparr>)"
| finish: "rs_held y = xs @ (k, es) # zs \<Longrightarrow>
    batch_rest (processor (on_bus publish)) Background es (finish_session y fs) = (r, w') \<Longrightarrow>
    relay_step n publish y r (y\<lparr>rs_db := committed w', rs_held := xs @ zs, rs_bus := bus w'\<rparr>)"
| client: "exec_stmt (InsertOutbox e) (rs_db y) = Inr (m, d') \<Longrightarrow>
    relay_step n publish y None (y\<lparr>rs_db := d'\<rparr>)"

inductive relay_reachable :: "int \<Rightarrow> 'b publish_method \<Rightarrow> 'b \<Rightarrow> 'b relays \<Rightarrow> bool"
  for n :: int and publish :: "'b publish_method" and b0 :: 'b where
  start: "relay_reachable n publish b0 \<lparr>rs_db = empty_db, rs_held = [], rs_bus = b0\<rparr>"
| step: "relay_reachable n publish b0 y \<Longrightarrow> relay_step n publish y r y' \<Longrightarrow> relay_reachable n publish b0 y'"

text \<open>Runs in which no relay has seen an error.\<close>

inductive clean_reachable :: "int \<Rightarrow> 'b publish_method \<Rightarrow> 'b \<Rightarrow> 'b relays \<Rightarrow> bool"
  for n :: int and publish :: "'b publish_method" and b0 :: 'b where
  clean_start: "clean_reachable n publish b0 \<lparr>rs_db = empty_db, rs_held = [], rs_bus = b0\<rparr>"
| clean_step: "clean_reachable n publish b0 y \<Longrightarrow> relay_step n publish y None y' \<Longrightarrow> clean_reachable n publish b0 y'"

section \<open>The rest of a batch\<close>

lemma batch_rest_cases:
  assumes "batch_rest pf c es s = (r, s')" "quiet_func pf" "fresh_tx s"
  obtains r1 s2 where "pf c es s = (r1, s2)" "session.more s' = session.more s2"
    "r \<noteq> None \<and> committed s' = committed s \<or>
     r1 = None \<and> committed s' = (committed s)\<lparr>outbox := mark_rows es (outbox (committed s))\<rparr>"
proof -
  obtain r1 s2 where s2: "pf c es s = (r1, s2)" by fastforce
  note q = assms(2) [unfolded quiet_func_def, rule_format, OF s2]
  have v: "tx_view s2 = committed s"
    using q fresh_tx_view [OF assms(3)] tx_view_cong [of s2 s] by simp
  show thesis
  proof (cases r1)
    case (Some e)
    with assms(1) s2 q that [of r1 s2] show thesis by (auto simp: batch_rest_def)
  next
    case None
    with assms(1) s2 have "(case markAsPublishedInTx es s2 of
        (Some err, s4) \<Rightarrow> (Some (Wrap ''failed to mark events as published'' err), tx_Rollback s4)
      | (None, s4) \<Rightarrow> (case tx_Commit s4 of (r, s5) \<Rightarrow> (r, tx_Rollback s5))) = (r, s')"
      by (simp add: batch_rest_def)
    note m = mark_and_commit [OF this]
    show thesis using m q v None by (intro that [OF s2]) auto
  qed
qed

lemma finish_session_simps [simp]:
  "committed (finish_session y fs) = rs_db y" "bus (finish_session y fs) = rs_bus y" "fresh_tx (finish_session y fs)"
  by (simp_all add: finish_session_def fresh_tx_def)

text \<open>
  What the end of a batch does: an error leaves the rows alone and has sent a prefix of the
  batch, or the batch is marked and all of it has been sent.
\<close>

lemma finish_effect:
  fixes publish :: "'b publish_method"
  assumes "batch_rest (processor (on_bus publish)) Background es (finish_session y fs) = (r, w')"
    and "broker publish sent msg"
  shows "r \<noteq> None \<and> committed w' = rs_db y \<and> (\<exists>k. sent (bus w') = sent (rs_bus y) @ batch_messages msg (take k es)) \<or>
    committed w' = (rs_db y)\<lparr>outbox := mark_rows es (outbox (rs_db y))\<rparr> \<and>
    sent (bus w') = sent (rs_bus y) @ batch_messages msg es"
proof -
  note b = broker_on_bus [OF assms(2)]
  obtain r1 w2 where w2: "processor (on_bus publish) Background es (finish_session y fs) = (r1, w2)"
    and m: "session.more w' = session.more w2"
    and c: "r \<noteq> None \<and> committed w' = rs_db y \<or>
      r1 = None \<and> committed w' = (rs_db y)\<lparr>outbox := mark_rows es (outbox (rs_db y))\<rparr>"
    by (rule batch_rest_cases [OF assms(1) processor_quiet]) auto
  have bus: "bus w' = bus w2" using m by (cases w', cases w2) simp
  show ?thesis
  proof (cases r1)
    case None
    with broker.processor_ok [OF b] w2 have "sent (bus w2) = sent (rs_bus y) @ batch_messages msg es" by fastforce
    with c bus show ?thesis by (elim disjE) (auto intro!: exI [of _ "length es"])
  next
    case (Some e)
    with broker.processor_error [OF b] w2 obtain k where
      "sent (bus w2) = sent (rs_bus y) @ batch_messages msg (take k es)" by fastforce
    with c bus Some show ?thesis by auto
  qed
qed

section \<open>Exclusive batches\<close>

text \<open>The rows have different ids, no event is held twice, and what is held is not yet published.\<close>

definition workers_inv :: "'b relays \<Rightarrow> bool" where
  "workers_inv y \<longleftrightarrow>
     distinct (outbox_ids_of (rs_db y)) \<and> distinct (map oe_EventID (held_events y)) \<and>
     (\<forall>e \<in> set (held_events y). \<exists>x \<in> set (outbox (rs_db y)). ob_event x = e \<and> \<not> published x)"

lemma fetched_batch:
  assumes "pool_Begin (fetch_session y fs) = (None, s1)" "fetchAndLockUnpublishedInTx n s1 = (Inr es, s2)"
  shows "es = unpublished_batch n (map oe_EventID (held_events y)) (rs_db y)"
  using fetch_ok(1) [OF assms(2)] pool_Begin_durable [OF assms(1)] same_outsideD(2) [OF pool_Begin_frame [OF assms(1)]]
  by (simp add: fetch_session_def)

lemma workers_inv_fetch:
  assumes "workers_inv y" "es = unpublished_batch n (map oe_EventID (held_events y)) (rs_db y)"
  shows "workers_inv (y\<lparr>rs_held := (k, es) # rs_held y\<rparr>)"
proof -
  have held: "held_events (y\<lparr>rs_held := (k, es) # rs_held y\<rparr>) = es @ held_events y"
    by (simp add: held_events_def)
  have es: "(\<exists>x \<in> set (outbox (rs_db y)). ob_event x = e \<and> \<not> published x) \<and> oe_EventID e \<notin> oe_EventID ` set (held_events y)"
    if "e \<in> set es" for e
    using set_unpublished_batch [of e n "map oe_EventID (held_events y)" "rs_db y"] that assms(2) by simp
  have "distinct (map oe_EventID es)"
    using assms distinct_unpublished_batch [of "rs_db y" n "map oe_EventID (held_events y)"]
    by (simp add: workers_inv_def)
  with assms(1) es show ?thesis unfolding workers_inv_def held by auto
qed

lemma mark_rows_keeps:
  assumes "x \<in> set rows" "oe_EventID (ob_event x) \<notin> oe_EventID ` set es"
  shows "x \<in> set (mark_rows es rows)"
  using assms by (auto simp: mark_rows_def image_iff intro!: bexI [of _ x])

lemma outbox_ids_mark [simp]:
  "outbox_ids_of (d\<lparr>outbox := mark_rows es (outbox d)\<rparr>) = outbox_ids_of d"
  by (auto simp: mark_rows_def)

lemma distinct_map_middle:
  "distinct (map f (as @ bs @ cs)) \<Longrightarrow>
     distinct (map f (as @ cs)) \<and> f ` set (as @ cs) \<inter> f ` set bs = {}"
  by auto

lemma workers_inv_finish:
  assumes "workers_inv y" "rs_held y = xs @ (k, es) # zs"
    and "d' = rs_db y \<or> d' = (rs_db y)\<lparr>outbox := mark_rows es (outbox (rs_db y))\<rparr>"
  shows "workers_inv (y\<lparr>rs_db := d', rs_held := xs @ zs, rs_bus := b\<rparr>)"
proof -
  let ?y = "y\<lparr>rs_db := d', rs_held := xs @ zs, rs_bus := b\<rparr>"
  let ?rest = "concat (map snd xs) @ concat (map snd zs)"
  have rest: "held_events ?y = ?rest" by (simp add: held_events_def)
  have all: "held_events y = concat (map snd xs) @ es @ concat (map snd zs)"
    using assms(2) by (simp add: held_events_def)
  have dist: "distinct (map oe_EventID ?rest)" "oe_EventID ` set ?rest \<inter> oe_EventID ` set es = {}"
    using distinct_map_middle [of oe_EventID "concat (map snd xs)" es "concat (map snd zs)"] assms(1) all
    unfolding workers_inv_def by (simp_all only:)
  have "\<exists>x \<in> set (outbox d'). ob_event x = e \<and> \<not> published x" if e: "e \<in> set ?rest" for e
  proof -
    have "e \<in> set (held_events y)" using e unfolding all by (simp only: set_append Un_iff) blast
    then obtain x where x: "x \<in> set (outbox (rs_db y))" "ob_event x = e" "\<not> published x"
      using assms(1) unfolding workers_inv_def by blast
    have "oe_EventID (ob_event x) \<notin> oe_EventID ` set es" using dist(2) e x(2) by blast
    with mark_rows_keeps [OF x(1)] x assms(3) show ?thesis by auto
  qed
  moreover have "outbox_ids_of d' = outbox_ids_of (rs_db y)" using assms(3) outbox_ids_mark by metis
  ultimately show ?thesis using assms(1) dist(1) rest by (simp add: workers_inv_def)
qed

lemma workers_inv_client:
  assumes "workers_inv y" "exec_stmt (InsertOutbox e) (rs_db y) = Inr (m, d')"
  shows "workers_inv (y\<lparr>rs_db := d'\<rparr>)"
  using assms by (auto simp: workers_inv_def exec_InsertOutbox_iff held_events_def)

lemma workers_inv_step:
  assumes "relay_step n publish y r y'" "workers_inv y"
  shows "workers_inv y'"
  using assms
proof (induction rule: relay_step.induct)
  case (fetch k y fs s1 es s2)
  then show ?case using workers_inv_fetch fetched_batch by blast
next
  case (finish y xs k es zs fs r w')
  have "committed w' = committed (finish_session y fs) \<or>
      committed w' = (committed (finish_session y fs))\<lparr>outbox := mark_rows es (outbox (committed (finish_session y fs)))\<rparr>"
    by (rule batch_rest_cases [OF finish.hyps(2) processor_quiet finish_session_simps(3)]) blast
  then have "committed w' = rs_db y \<or> committed w' = (rs_db y)\<lparr>outbox := mark_rows es (outbox (rs_db y))\<rparr>"
    by simp
  then show ?case by (rule workers_inv_finish [OF finish.prems finish.hyps(1)])
next
  case (client e y m d')
  then show ?case using workers_inv_client by blast
qed

lemma relay_reachable_inv: "relay_reachable n publish b0 y \<Longrightarrow> workers_inv y"
proof (induction rule: relay_reachable.induct)
  case start
  then show ?case by (simp add: workers_inv_def held_events_def empty_db_def)
next
  case (step y r y')
  then show ?case using workers_inv_step by blast
qed

lemma clean_reachable_reachable: "clean_reachable n publish b0 y \<Longrightarrow> relay_reachable n publish b0 y"
  by (induction rule: clean_reachable.induct) (auto intro: relay_reachable.intros)

section \<open>At least once, and exactly once\<close>

definition all_sent :: "('b \<Rightarrow> 'm list) \<Rightarrow> (string \<Rightarrow> OutboxEvent \<Rightarrow> 'm) \<Rightarrow> 'b relays \<Rightarrow> bool" where
  "all_sent sent msg y \<longleftrightarrow>
     (\<forall>x \<in> set (outbox (rs_db y)). published x \<longrightarrow> oe_AggregateType (ob_event x) \<noteq> '''' \<longrightarrow>
        msg (oe_AggregateType (ob_event x)) (ob_event x) \<in> set (sent (rs_bus y)))"

text \<open>A row that a batch marks is the row of an event of the batch.\<close>

lemma marked_row_held:
  assumes "workers_inv y" "rs_held y = xs @ (k, es) # zs"
    and "x \<in> set (outbox (rs_db y))" "oe_EventID (ob_event x) \<in> oe_EventID ` set es"
  shows "ob_event x \<in> set es"
proof -
  obtain e where e: "e \<in> set es" "oe_EventID e = oe_EventID (ob_event x)" using assms(4) by auto
  then have "e \<in> set (held_events y)" using assms(2) by (simp add: held_events_def)
  then obtain x' where x': "x' \<in> set (outbox (rs_db y))" "ob_event x' = e"
    using assms(1) unfolding workers_inv_def by blast
  have "distinct (outbox_ids_of (rs_db y))" using assms(1) by (simp add: workers_inv_def)
  from distinct_map_inj [OF this x'(1) assms(3)] x'(2) e(2) have "x' = x" by simp
  with x'(2) e(1) show ?thesis by simp
qed

lemma all_sent_step:
  assumes "relay_step n publish y r y'" "broker publish sent msg" "workers_inv y" "all_sent sent msg y"
  shows "all_sent sent msg y'"
  using assms(1,3,4)
proof (induction rule: relay_step.induct)
  case (fetch k y fs s1 es s2)
  then show ?case by (simp add: all_sent_def)
next
  case (finish y xs k es zs fs r w')
  from finish_effect [OF finish.hyps(2) assms(2)] show ?case
  proof (elim disjE conjE exE)
    fix j
    assume "committed w' = rs_db y" "sent (bus w') = sent (rs_bus y) @ batch_messages msg (take j es)"
    with finish.prems(2) show ?thesis by (auto simp: all_sent_def)
  next
    assume d: "committed w' = (rs_db y)\<lparr>outbox := mark_rows es (outbox (rs_db y))\<rparr>"
      and m: "sent (bus w') = sent (rs_bus y) @ batch_messages msg es"
    have "msg (oe_AggregateType (ob_event x)) (ob_event x) \<in> set (sent (bus w'))"
      if x: "x \<in> set (mark_rows es (outbox (rs_db y)))" "published x" "oe_AggregateType (ob_event x) \<noteq> ''''" for x
    proof -
      from mark_rows_published [OF x(1,2)] obtain z where z: "z \<in> set (outbox (rs_db y))" "ob_event z = ob_event x"
        and c: "published z \<or> oe_EventID (ob_event x) \<in> oe_EventID ` set es" by blast
      from c show ?thesis
      proof
        assume "published z"
        with z x(3) finish.prems(2) m show ?thesis by (auto simp: all_sent_def)
      next
        assume "oe_EventID (ob_event x) \<in> oe_EventID ` set es"
        with marked_row_held [OF finish.prems(1) finish.hyps(1) z(1)] z(2) have "ob_event x \<in> set es" by simp
        with x(3) m show ?thesis by auto
      qed
    qed
    with d show ?thesis by (simp add: all_sent_def)
  qed
next
  case (client e y m d')
  then show ?case by (auto simp: all_sent_def exec_InsertOutbox_iff)
qed

lemma relay_reachable_all_sent:
  assumes "relay_reachable n publish b0 y" "broker publish sent msg"
  shows "all_sent sent msg y"
  using assms
proof (induction rule: relay_reachable.induct)
  case start
  then show ?case by (simp add: all_sent_def empty_db_def)
next
  case (step y r y')
  from step.hyps(2) step.prems relay_reachable_inv [OF step.hyps(1)] step.IH [OF step.prems]
  show ?case by (rule all_sent_step)
qed

text \<open>Without errors, what was sent are the messages of different, published events.\<close>

definition sent_once :: "('b \<Rightarrow> 'm list) \<Rightarrow> (string \<Rightarrow> OutboxEvent \<Rightarrow> 'm) \<Rightarrow> 'm list \<Rightarrow> 'b relays \<Rightarrow> bool" where
  "sent_once sent msg ms0 y \<longleftrightarrow>
     (\<exists>es. sent (rs_bus y) = ms0 @ batch_messages msg es \<and> distinct (map oe_EventID es) \<and>
        (\<forall>e \<in> set es. \<exists>x \<in> set (outbox (rs_db y)). ob_event x = e \<and> published x))"

lemma sent_once_step:
  assumes "relay_step n publish y r y'" "broker publish sent msg" "workers_inv y"
    and "sent_once sent msg ms0 y" "r = None"
  shows "sent_once sent msg ms0 y'"
  using assms(1,3-)
proof (induction rule: relay_step.induct)
  case (fetch k y fs s1 es s2)
  then show ?case by (simp add: sent_once_def)
next
  case (finish y xs k es zs fs r w')
  from finish_effect [OF finish.hyps(2) assms(2)] finish.prems(3)
  have d: "committed w' = (rs_db y)\<lparr>outbox := mark_rows es (outbox (rs_db y))\<rparr>"
    and m: "sent (bus w') = sent (rs_bus y) @ batch_messages msg es" by auto
  obtain fs where fs: "sent (rs_bus y) = ms0 @ batch_messages msg fs" "distinct (map oe_EventID fs)"
    and pub: "\<And>e. e \<in> set fs \<Longrightarrow> \<exists>x \<in> set (outbox (rs_db y)). ob_event x = e \<and> published x"
    using finish.prems(2) unfolding sent_once_def by blast
  have dist: "distinct (outbox_ids_of (rs_db y))" using finish.prems(1) by (simp add: workers_inv_def)
  have "distinct (map oe_EventID (held_events y))" using finish.prems(1) by (simp add: workers_inv_def)
  then have des: "distinct (map oe_EventID es)" unfolding held_events_def finish.hyps(1) by simp
  have unpub: "\<exists>x \<in> set (outbox (rs_db y)). ob_event x = e \<and> \<not> published x" if "e \<in> set es" for e
  proof -
    have "e \<in> set (held_events y)" using that finish.hyps(1) by (simp add: held_events_def)
    then show ?thesis using finish.prems(1) unfolding workers_inv_def by blast
  qed
  have "oe_EventID ` set fs \<inter> oe_EventID ` set es = {}"
  proof (rule ccontr)
    assume "oe_EventID ` set fs \<inter> oe_EventID ` set es \<noteq> {}"
    then obtain e e' where e: "e \<in> set fs" "e' \<in> set es" "oe_EventID e = oe_EventID e'" by blast
    obtain x x' where x: "x \<in> set (outbox (rs_db y))" "ob_event x = e" "published x"
      and x': "x' \<in> set (outbox (rs_db y))" "ob_event x' = e'" "\<not> published x'"
      using pub [OF e(1)] unpub [OF e(2)] by blast
    have "(oe_EventID \<circ> ob_event) x = (oe_EventID \<circ> ob_event) x'" using x(2) x'(2) e(3) by simp
    from distinct_map_inj [OF dist x(1) x'(1) this] x(3) x'(3) show False by simp
  qed
  moreover have "\<exists>x \<in> set (mark_rows es (outbox (rs_db y))). ob_event x = e \<and> published x"
    if e: "e \<in> set (fs @ es)" for e
  proof -
    obtain x where x: "x \<in> set (outbox (rs_db y))" "ob_event x = e" "published x \<or> e \<in> set es"
      using e pub unpub by auto
    then have "(if oe_EventID (ob_event x) \<in> oe_EventID ` set es then x\<lparr>published := True\<rparr> else x)
        \<in> set (mark_rows es (outbox (rs_db y)))" by (auto simp: mark_rows_def)
    with x show ?thesis by (intro bexI) auto
  qed
  ultimately show ?case
    using fs m d des by (auto simp: sent_once_def intro!: exI [of _ "fs @ es"])
next
  case (client e y m d')
  then show ?case by (fastforce simp: sent_once_def exec_InsertOutbox_iff)
qed

lemma clean_reachable_sent_once:
  assumes "clean_reachable n publish b0 y" "broker publish sent msg"
  shows "sent_once sent msg (sent b0) y"
  using assms
proof (induction rule: clean_reachable.induct)
  case clean_start
  then show ?case by (auto simp: sent_once_def empty_db_def intro: exI [of _ "[]"])
next
  case (clean_step y y')
  from clean_step.hyps(2) clean_step.prems
    relay_reachable_inv [OF clean_reachable_reachable [OF clean_step.hyps(1)]] clean_step.IH [OF clean_step.prems] refl
  show ?case by (rule sent_once_step)
qed

end
