(* ===== verification/Relay_Progress.thy ===== *)
theory Relay_Progress
  imports Relay_Workers
begin

text \<open>
  A relay makes progress: on a database and a broker that do not fail, every tick publishes and
  marks a full batch, so finitely many ticks empty the outbox.
\<close>

definition unpublished_count :: "db \<Rightarrow> nat" where
  "unpublished_count d = length (filter (\<lambda>r. \<not> published r) (outbox d))"

lemma length_unpublished_batch:
  "length (unpublished_batch n [] d) = min (nat n) (unpublished_count d)"
  by (simp add: unpublished_batch_def unpublished_count_def min.commute)

text \<open>Marking a batch takes its events off the unpublished ones.\<close>

lemma unpublished_count_mark:
  assumes "distinct (outbox_ids_of d)" "es = unpublished_batch n l d"
  shows "unpublished_count (d\<lparr>outbox := mark_rows es (outbox d)\<rparr>) = unpublished_count d - length es"
proof -
  define ids where "ids = set (map oe_EventID es)"
  let ?in = "\<lambda>r. oe_EventID (ob_event r) \<in> ids"
  have unpub: "\<not> published r" if r: "r \<in> set (outbox d)" "?in r" for r
  proof -
    from r(2) obtain e where e: "e \<in> set es" "oe_EventID e = oe_EventID (ob_event r)" by (auto simp: ids_def)
    then obtain x where x: "x \<in> set (outbox d)" "ob_event x = e" "\<not> published x"
      using set_unpublished_batch [of e n l d] assms(2) by blast
    from distinct_map_inj [OF assms(1) x(1) r(1)] x e(2) show ?thesis by auto
  qed
  have "unpublished_count (d\<lparr>outbox := mark_rows es (outbox d)\<rparr>) =
      length (filter (\<lambda>r. \<not> ?in r) (filter (\<lambda>r. \<not> published r) (outbox d)))"
    by (auto simp: unpublished_count_def mark_rows_def ids_def filter_map comp_def conj_commute
        intro!: arg_cong [where f = length] filter_cong)
  moreover have "filter ?in (filter (\<lambda>r. \<not> published r) (outbox d)) = filter ?in (outbox d)"
    using unpub by (auto intro: filter_cong)
  moreover have "length (filter ?in (outbox d)) = length es"
    using UpdatePublished_count [OF assms(1), of n l] assms(2) by (simp add: ids_def)
  moreover have "length (filter ?in (filter (\<lambda>r. \<not> published r) (outbox d))) +
      length (filter (\<lambda>r. \<not> ?in r) (filter (\<lambda>r. \<not> published r) (outbox d))) = unpublished_count d"
    unfolding unpublished_count_def by (rule sum_length_filter_compl)
  ultimately show ?thesis by simp
qed

text \<open>A broker that accepts everything.\<close>

definition never_fails :: "'b publish_method \<Rightarrow> bool" where
  "never_fails p \<longleftrightarrow> (\<forall>c t e b. fst (p c t e b) = None)"

lemma publish_events_accepted:
  assumes "never_fails p"
  shows "fst (publish_events (on_bus p) c es w) = None"
proof (induction es arbitrary: w)
  case (Cons e es)
  have "fst (on_bus p c (oe_AggregateType e) e w) = None"
    using assms by (auto simp: on_bus_def never_fails_def split: prod.split) (metis fst_conv)
  with Cons show ?case by (auto simp: Let_def split: prod.split option.split)
qed simp

lemma processor_accepted: "never_fails p \<Longrightarrow> fst (processor (on_bus p) c es w) = None"
  by (simp add: processor_def publish_events_accepted)

text \<open>The relay of one process, with the store of theory \<open>Outbox_Store\<close>.\<close>

abbreviation pg_relay :: "'b publish_method \<Rightarrow> int \<Rightarrow> 'b world Relay" where
  "pg_relay p n \<equiv> NewRelay ProcessOutboxBatch (on_bus p) n 2000000000"

lemma tick_nofault:
  assumes "faults w = []" "locked w = []" "0 \<le> n" "distinct (outbox_ids_of (committed w))" "never_fails p"
  shows "\<exists>w'. processBatch (pg_relay p n) c w = (None, w') \<and> faults w' = [] \<and> locked w' = [] \<and>
    committed w' = (committed w)\<lparr>outbox := mark_rows (unpublished_batch n [] (committed w)) (outbox (committed w))\<rparr>"
proof (cases "unpublished_batch n [] (committed w) = []")
  case True
  have "fetchAndLockUnpublishedInTx n (begun w) = (Inr [], begun w)"
    using assms(1-3) True by (simp add: fetchAndLockUnpublishedInTx_def tx_Query_def tx_view_def)
  moreover have "(committed w)\<lparr>outbox := mark_rows [] (outbox (committed w))\<rparr> = committed w"
    by (simp add: mark_rows_def)
  ultimately show ?thesis
    using assms(1,2) True by (simp add: processBatch_def NewRelay_def ProcessOutboxBatch_def)
next
  case False
  obtain r w2 where w2: "processor (on_bus p) c (unpublished_batch n [] (committed w)) (begun w) = (r, w2)"
    by fastforce
  with processor_accepted [OF assms(5), of c "unpublished_batch n [] (committed w)" "begun w"] have r: "r = None" by simp
  have "faults w2 = []" using processor_on_bus_frame [OF w2] assms(1) by simp
  with ProcessOutboxBatch_nofault [OF assms(1,3,4) processor_quiet [of p], of c w2] w2 r False assms(2)
  show ?thesis by (auto simp: processBatch_def NewRelay_def)
qed

lemma ticks_drain:
  assumes "faults w = []" "locked w = []" "0 < n" "distinct (outbox_ids_of (committed w))" "never_fails p"
    and "unpublished_count (committed w) \<le> k * nat n"
  shows "unpublished_count (committed (snd (relay_loop (pg_relay p n) c (replicate k Tick) w))) = 0"
  using assms(1,2,4,6)
proof (induction k arbitrary: w)
  case 0
  then show ?case by simp
next
  case (Suc k)
  let ?b = "unpublished_batch n [] (committed w)"
  obtain w' where w': "processBatch (pg_relay p n) c w = (None, w')" "faults w' = []" "locked w' = []"
    "committed w' = (committed w)\<lparr>outbox := mark_rows ?b (outbox (committed w))\<rparr>"
    using tick_nofault [OF Suc.prems(1,2) _ Suc.prems(3) assms(5), of n c] assms(3) by auto
  have "unpublished_count (committed w') = unpublished_count (committed w) - length ?b"
    unfolding w'(4) by (rule unpublished_count_mark [OF Suc.prems(3) refl])
  then have le: "unpublished_count (committed w') \<le> k * nat n"
    using Suc.prems(4) by (simp add: length_unpublished_batch)
  have dist: "distinct (outbox_ids_of (committed w'))" unfolding w'(4) outbox_ids_mark by (rule Suc.prems(3))
  from Suc.IH [OF w'(2,3) dist le] w'(1) show ?case by simp
qed

section \<open>Samples\<close>

abbreviation mem_publish :: "mem_js publish_method" where
  "mem_publish \<equiv> NATSBroker_Publish (\<lambda>_. ''7'') mem_jetstream"

lemma mem_publish_accepts: "year_ok (oe_Ts e) \<Longrightarrow> fst (mem_publish c t e j) = None"
  by (simp add: NATSBroker_Publish_def ensureTopicExist_def mem_jetstream_def marshal_outbox_def enc_time_def Let_def)

lemma sample_held:
  obtains y where "clean_reachable 10 mem_publish mem_js_empty y" "rs_held y = [(0, [sample_event])]"
    "rs_db y = empty_db\<lparr>outbox := [\<lparr>ob_event = sample_event, published = False\<rparr>]\<rparr>" "rs_bus y = mem_js_empty"
proof -
  let ?d = "empty_db\<lparr>outbox := [\<lparr>ob_event = sample_event, published = False\<rparr>]\<rparr>"
  let ?y0 = "\<lparr>rs_db = empty_db, rs_held = [], rs_bus = mem_js_empty\<rparr>"
  let ?y1 = "?y0\<lparr>rs_db := ?d\<rparr>" and ?y2 = "?y0\<lparr>rs_db := ?d, rs_held := [(0, [sample_event])]\<rparr>"
  have "exec_stmt (InsertOutbox sample_event) (rs_db ?y0) = Inr (1, ?d)"
    by (simp add: exec_InsertOutbox_iff empty_db_def row_sized_def sample_event_def zero_outbox_def varchar255_def int4_def)
  then have "relay_step 10 mem_publish ?y0 None ?y1" by (rule relay_step.client)
  then have r1: "clean_reachable 10 mem_publish mem_js_empty ?y1" by (rule clean_step [OF clean_start])
  have b: "pool_Begin (fetch_session ?y1 []) = (None, begun (fetch_session ?y1 []))"
    by (simp add: fetch_session_def)
  have f: "fetchAndLockUnpublishedInTx 10 (begun (fetch_session ?y1 [])) = (Inr [sample_event], begun (fetch_session ?y1 []))"
    by (simp add: fetchAndLockUnpublishedInTx_def tx_Query_def tx_view_def fetch_session_def held_events_def unpublished_batch_def)
  have "relay_step 10 mem_publish ?y1 None (?y1\<lparr>rs_held := (0, [sample_event]) # rs_held ?y1\<rparr>)"
    by (rule relay_step.fetch [OF _ b f]) simp
  then have "clean_reachable 10 mem_publish mem_js_empty ?y2" by (intro clean_step [OF r1]) simp
  then show thesis by (rule that) simp_all
qed

lemma sample_published:
  obtains y where "clean_reachable 10 mem_publish mem_js_empty y"
    "outbox (rs_db y) = [\<lparr>ob_event = sample_event, published = True\<rparr>]" "length (mj_stored (rs_bus y)) = 1"
proof -
  obtain y where y: "clean_reachable 10 mem_publish mem_js_empty y" "rs_held y = [(0, [sample_event])]"
    "rs_db y = empty_db\<lparr>outbox := [\<lparr>ob_event = sample_event, published = False\<rparr>]\<rparr>" "rs_bus y = mem_js_empty"
    by (rule sample_held)
  have "\<exists>w'. batch_rest (processor (on_bus mem_publish)) Background [sample_event] (finish_session y []) = (None, w') \<and>
      outbox (committed w') = [\<lparr>ob_event = sample_event, published = True\<rparr>] \<and> length (mj_stored (bus w')) = 1"
    using y(3,4)
    by (simp add: batch_rest_def processor_def on_bus_def NATSBroker_Publish_def ensureTopicExist_def mem_jetstream_def
        mem_js_empty_def marshal_outbox_def enc_time_def year_ok_def sample_event_def zero_outbox_def finish_session_def
        markAsPublishedInTx_def tx_Exec_def tx_Commit_def tx_view_def run_stmt_def tx_Rollback_def Let_def)
  then obtain w' where w': "batch_rest (processor (on_bus mem_publish)) Background [sample_event] (finish_session y []) = (None, w')"
    "outbox (committed w') = [\<lparr>ob_event = sample_event, published = True\<rparr>]" "length (mj_stored (bus w')) = 1" by blast
  have "relay_step 10 mem_publish y None (y\<lparr>rs_db := committed w', rs_held := [] @ [], rs_bus := bus w'\<rparr>)"
    by (rule relay_step.finish [OF _ w'(1)]) (simp add: y(2))
  from that [OF clean_step [OF y(1) this]] w'(2,3) show thesis by simp
qed

section \<open>Properties\<close>

text \<open>
  C17. At least once, with any number of relays: in every state that relays and clients can reach
  over NATS, whatever faults occur, an event that is marked as published in the outbox and has a
  topic is stored in the streams under the subject of its aggregate.
\<close>

theorem relays_at_least_once:
  assumes "jetstream_ok js stored acks" "relay_reachable n (NATSBroker_Publish us js) j0 y"
    and "x \<in> set (outbox (rs_db y))" "published x" "oe_AggregateType (ob_event x) \<noteq> ''''"
  shows "\<exists>payload. (oe_AggregateType (ob_event x) @ ''.'' @ us (oe_AggregateID (ob_event x)), payload) \<in> set (stored (rs_bus y)) \<and>
    payload = projr (marshal_outbox (ob_event x))"
  using relay_reachable_all_sent [OF assms(2) nats_broker [OF assms(1)]] assms(3-5)
  by (auto simp: all_sent_def nats_msg_def)

theorem relays_at_least_once_witness:
  "\<exists>y. relay_reachable 10 mem_publish mem_js_empty y \<and>
     outbox (rs_db y) = [\<lparr>ob_event = sample_event, published = True\<rparr>] \<and>
     (\<exists>payload. (''products.7'', payload) \<in> set (mj_stored (rs_bus y)))"
proof -
  obtain y where y: "clean_reachable 10 mem_publish mem_js_empty y"
    "outbox (rs_db y) = [\<lparr>ob_event = sample_event, published = True\<rparr>]" by (rule sample_published)
  note r = clean_reachable_reachable [OF y(1)]
  from relays_at_least_once [OF mem_jetstream_ok r, of "\<lparr>ob_event = sample_event, published = True\<rparr>"] y(2)
  have "\<exists>payload. (''products.7'', payload) \<in> set (mj_stored (rs_bus y))" by (simp add: sample_event_def) blast
  with r y(2) show ?thesis by blast
qed

text \<open>
  C33. Relays do not share events: in every reachable state the batches that the relays hold are
  disjoint (no event is held twice), and every held event is an unpublished row of the outbox.
\<close>

theorem relays_exclusive:
  assumes "relay_reachable n publish b0 y"
  shows "distinct (map oe_EventID (held_events y)) \<and>
    (\<forall>e \<in> set (held_events y). \<exists>x \<in> set (outbox (rs_db y)). ob_event x = e \<and> \<not> published x)"
  using relay_reachable_inv [OF assms] unfolding workers_inv_def by blast

theorem relays_exclusive_witness:
  "\<exists>y. relay_reachable 10 mem_publish mem_js_empty y \<and> held_events y = [sample_event] \<and>
     (\<exists>x \<in> set (outbox (rs_db y)). ob_event x = sample_event \<and> \<not> published x)"
proof -
  obtain y where y: "clean_reachable 10 mem_publish mem_js_empty y" "rs_held y = [(0, [sample_event])]"
    by (rule sample_held)
  note r = clean_reachable_reachable [OF y(1)]
  have "held_events y = [sample_event]" by (simp add: held_events_def y(2))
  with relays_exclusive [OF r] r show ?thesis by auto
qed






end
