(* ===== verification/System.thy ===== *)
theory System
  imports Read_Properties Relay_Progress
begin

text \<open>
  The whole application as one machine: any number of clients that send commands, any number of
  relays, and the subscriber of the product projection, over one database and one JetStream
  server, as \<open>sample/main.go\<close> wires them together. A step is a step of one of them: a command or
  one half of an update (theory \<open>Clients\<close>), the fetch or the rest of a relay's batch (theory
  \<open>Relay_Workers\<close>), or one turn of the subscriber's loop (theory \<open>Nats\<close>) with the projection of
  theory \<open>Product_View\<close> as its handler. Every step may meet any faults of the database. One turn is
  one step, because the tables that the projection reads and writes are written by nobody else.
\<close>

section \<open>The machine\<close>

record 'j app =
  app_db :: db
  app_pending :: "nat \<Rightarrow> (UpdateProduct \<times> ProductAggregate) option"
  app_held :: "(nat \<times> OutboxEvent list) list"
  app_bus :: 'j

abbreviation clients_of :: "'j app \<Rightarrow> system" where
  "clients_of y \<equiv> \<lparr>sys_db = app_db y, pending = app_pending y\<rparr>"

abbreviation relays_of :: "'j app \<Rightarrow> 'j relays" where
  "relays_of y \<equiv> \<lparr>rs_db = app_db y, rs_held = app_held y, rs_bus = app_bus y\<rparr>"

definition app_world :: "'j app \<Rightarrow> fault option list \<Rightarrow> 'j world" where
  "app_world y fs = \<lparr>committed = app_db y, cur_tx = None, faults = fs, locked = [], bus = app_bus y\<rparr>"

text \<open>What the program is built from: the parameters of the libraries it calls.\<close>

record ('j, 'q, 'm) libs =
  lib_js :: "('j, 'q, 'm) jetstream"
  lib_uuid_String :: "uuid \<Rightarrow> string"
  lib_permanent :: "error option \<Rightarrow> error option"
  lib_retry :: "'j world retry_function"
  lib_enc :: "float64 \<Rightarrow> error + int"

abbreviation app_publish :: "('j, 'q, 'm) libs \<Rightarrow> 'j publish_method" where
  "app_publish l \<equiv> NATSBroker_Publish (lib_uuid_String l) (lib_js l)"

definition app_handler :: "('j, 'q, 'm) libs \<Rightarrow> ctx \<Rightarrow> OutboxEvent \<Rightarrow> 'j world operation" where
  "app_handler l = Projection_Handle (lib_permanent l) (lib_retry l) (productProjection (lib_enc l))"

inductive app_step :: "int \<Rightarrow> int \<Rightarrow> ('j, 'q, 'm) libs \<Rightarrow> 'j app \<Rightarrow> 'j app \<Rightarrow> bool"
  for f :: int and n :: int and l :: "('j, 'q, 'm) libs" where
  command: "cmd_step f (clients_of y) c \<Longrightarrow> app_step f n l y (y\<lparr>app_db := sys_db c, app_pending := pending c\<rparr>)"
| fetch: "k \<notin> fst ` set (app_held y) \<Longrightarrow> pool_Begin (fetch_session (relays_of y) fs) = (None, s1) \<Longrightarrow>
    fetchAndLockUnpublishedInTx n s1 = (Inr es, s2) \<Longrightarrow>
    app_step f n l y (y\<lparr>app_held := (k, es) # app_held y\<rparr>)"
| finish: "app_held y = xs @ (k, es) # zs \<Longrightarrow>
    batch_rest (processor (on_bus (app_publish l))) Background es (finish_session (relays_of y) fs) = (r, w') \<Longrightarrow>
    app_step f n l y (y\<lparr>app_db := committed w', app_held := xs @ zs, app_bus := bus w'\<rparr>)"
| turn: "fetch_turn (lib_js l) (app_handler l) q (app_world y fs) = w' \<Longrightarrow>
    app_step f n l y (y\<lparr>app_db := committed w', app_bus := bus w'\<rparr>)"

inductive app_reachable :: "int \<Rightarrow> int \<Rightarrow> ('j, 'q, 'm) libs \<Rightarrow> 'j \<Rightarrow> 'j app \<Rightarrow> bool"
  for f :: int and n :: int and l :: "('j, 'q, 'm) libs" and j0 :: 'j where
  start: "app_reachable f n l j0 \<lparr>app_db = empty_db, app_pending = (\<lambda>_. None), app_held = [], app_bus = j0\<rparr>"
| step: "app_reachable f n l j0 y \<Longrightarrow> app_step f n l y y' \<Longrightarrow> app_reachable f n l j0 y'"

text \<open>
  What the program relies on: the promises of JetStream and of the back-off library, and that a
  consumer is only handed messages that the stream holds. The last argument of \<open>libs_ok\<close> is the
  server at the start: its streams are empty.
\<close>

definition still :: "'x session_scheme \<Rightarrow> 'x session_scheme \<Rightarrow> bool" where
  "still s s' \<longleftrightarrow> committed s' = committed s \<and> locked s' = locked s \<and> session.more s' = session.more s"

definition libs_ok ::
  "('j, 'q, 'm) libs \<Rightarrow> ('j \<Rightarrow> (string \<times> json) list) \<Rightarrow> ('j \<Rightarrow> 'm set) \<Rightarrow> 'j \<Rightarrow> bool" where
  "libs_ok l stored acks j0 \<longleftrightarrow>
     jetstream_ok (lib_js l) stored acks \<and>
     (\<forall>q n j ms j'. js_Fetch (lib_js l) q n j = (Inr ms, j') \<longrightarrow>
        (\<forall>m \<in> set ms. js_Data (lib_js l) m \<in> snd ` set (stored j))) \<and>
     backoff_lib still (lib_permanent l) (lib_retry l) \<and> stored j0 = [] \<and> acks j0 = {}"

lemma libs_okD:
  assumes "libs_ok l stored acks j0"
  shows "jetstream_ok (lib_js l) stored acks"
    "js_Fetch (lib_js l) q n j = (Inr ms, j') \<Longrightarrow> m \<in> set ms \<Longrightarrow> js_Data (lib_js l) m \<in> snd ` set (stored j)"
    "backoff_lib still (lib_permanent l) (lib_retry l)"
    "backoff_lib quiet_wait (lib_permanent l) (lib_retry l)" "stored j0 = []" "acks j0 = {}"
proof -
  show "backoff_lib quiet_wait (lib_permanent l) (lib_retry l)"
    using assms backoff_lib_mono [of still _ _ quiet_wait] by (auto simp: libs_ok_def still_def quiet_wait_def)
qed (use assms in \<open>unfold libs_ok_def, blast+\<close>)

section \<open>The projection and the rest of the world\<close>

lemma deliver_app: "app_handler l Background = deliver (lib_permanent l) (lib_retry l) (lib_enc l)"
  by (simp add: app_handler_def deliver_def fun_eq_iff)

text \<open>The projection writes to its own two tables only.\<close>

definition write_tables :: "db \<Rightarrow> event_row list \<times> snapshot_row list \<times> outbox_row list" where
  "write_tables d = (event_store d, snapshots d, outbox d)"

lemma deliver_write_tables:
  assumes "backoff_lib quiet_wait permanent retry" "deliver permanent retry enc e s = (r, s')" "good_event e"
  shows "write_tables (committed s') = write_tables (committed s)"
proof (rule deliver_keeps [OF assms, where P = "\<lambda>d. write_tables d = write_tables (committed s)"])
  show "pg_projection.marks_stable (\<lambda>d. write_tables d = write_tables (committed s))"
    unfolding pg_projection.marks_stable_def
  proof (intro allI impI)
    fix d d' m
    assume "other_tables d' = other_tables d" "write_tables d = write_tables (committed s)"
    then show "write_tables d' = write_tables (committed s)"
      by (cases d, cases d') (simp add: other_tables_def write_tables_def)
  qed
qed (auto simp: view_stmt_def run_stmt_def write_tables_def split: sum.splits if_splits)

text \<open>The projection leaves the state of the broker and the locks of others alone.\<close>

definition outside :: "'x session_scheme \<Rightarrow> uuid list \<times> 'x" where
  "outside s = (locked s, session.more s)"

lemma same_outside_outside: "same_outside s s' \<Longrightarrow> outside s' = outside s"
  by (simp add: same_outside_def outside_def)

lemma tx_Commit_outside: "tx_Commit s = (r, s') \<Longrightarrow> outside s' = outside s"
  by (auto simp: tx_Commit_def split: option.splits prod.splits fault.splits if_splits dest!: next_faultD simp: outside_def)

lemma WithTransaction_outside:
  assumes "WithTransaction fn c s = (r, s')" "\<And>s r s'. fn TxCtx s = (r, s') \<Longrightarrow> outside s' = outside s"
  shows "outside s' = outside s"
  using assms(1)
proof (cases rule: WithTransaction_cases)
  case begin_failed
  then show ?thesis by (simp add: same_outside_outside)
next
  case (fn_failed s1 e s2)
  from assms(2) [OF fn_failed(2)] same_outside_outside [OF pool_Begin_frame [OF fn_failed(1)]] fn_failed(4)
  show ?thesis by (simp add: outside_def)
next
  case (fn_done s1 s2 s3)
  from assms(2) [OF fn_done(2)] same_outside_outside [OF pool_Begin_frame [OF fn_done(1)]]
    tx_Commit_outside [OF fn_done(3)] fn_done(4)
  show ?thesis by (simp add: outside_def)
qed

lemma handler_outside:
  "ProductProjectionHandler_Handle enc c e s = (r, s') \<Longrightarrow> outside s' = outside s"
  by (auto simp: handler_defs split: if_splits sum.splits prod.splits dest!: pool_Exec_frame simp: outside_def)

lemma MarkAsProcessed_outside: "MarkAsProcessed c i sub s = (r, s') \<Longrightarrow> outside s' = outside s"
  using MarkAsProcessed_frame same_outside_outside by blast

lemma project_tx_outside:
  "project_tx (productProjection enc) e c s = (r, s') \<Longrightarrow> outside s' = outside s"
  by (auto simp: project_tx_def split: prod.splits option.splits dest!: handler_outside MarkAsProcessed_outside)

lemma attempt_outside:
  assumes "attempt permanent (productProjection enc) c e s = (r, s')"
  shows "outside s' = outside s"
proof -
  obtain v s1 where v: "ProductViewRepository_GetVersion c (oe_AggregateID e) s = (v, s1)" by fastforce
  have s1: "outside s1 = outside s" using GetVersion_frame [OF v] same_outside_outside by blast
  obtain r2 s2 where m: "WithTransaction (\<lambda>txCtx. MarkAsProcessed txCtx (oe_EventID e) ''ProductProjection'') c s1 = (r2, s2)"
    by fastforce
  obtain r3 s3 where p: "WithTransaction (project_tx (productProjection enc) e) c s1 = (r3, s3)" by fastforce
  have "outside s2 = outside s1" by (rule WithTransaction_outside [OF m]) (rule MarkAsProcessed_outside)
  moreover have "outside s3 = outside s1" by (rule WithTransaction_outside [OF p]) (rule project_tx_outside)
  moreover have "s' \<in> {s1, s2, s3}"
    using assms v m p by (auto simp: attempt_def split: sum.splits if_splits option.splits)
  ultimately show ?thesis using s1 by auto
qed

lemma retry_run_outside:
  assumes "retry_run still op s r s'" "\<And>s r s'. op s = (r, s') \<Longrightarrow> outside s' = outside s"
  shows "outside s' = outside s"
  using assms(1)
proof (induction rule: retry_run.induct)
  case (again s e s1 s2 r s')
  then show ?case using assms(2) [OF again.hyps(1)] by (simp add: still_def outside_def)
qed (use assms(2) in blast)+

lemma deliver_outside:
  assumes "backoff_lib still permanent retry" "deliver permanent retry enc e s = (r, s')"
  shows "outside s' = outside s"
proof -
  obtain b s1 where b: "IsProcessed Background (oe_EventID e) ''ProductProjection'' s = (b, s1)" by fastforce
  have s1: "outside s1 = outside s" using IsProcessed_frame [OF b] same_outside_outside by blast
  obtain r2 s2 where r2: "retry 60000000000 (attempt permanent (productProjection enc) Background e) s1 = (r2, s2)" by fastforce
  have "outside s2 = outside s1"
    by (rule retry_run_outside [OF backoff_libD(3) [OF assms(1) r2]]) (rule attempt_outside)
  moreover have "s' \<in> {s1, s2}"
    using assms(2) b r2 by (auto simp: deliver_def Projection_Handle_def split: sum.splits if_splits option.splits)
  ultimately show ?thesis using s1 by auto
qed

lemma world_bus: "session.more w' = session.more w \<Longrightarrow> bus w' = bus (w :: 'j world)"
  by (cases w, cases w') simp

lemma app_handler_bus:
  assumes "libs_ok l stored acks j0" "app_handler l Background e w = (r, w')"
  shows "bus w' = bus w"
proof -
  from deliver_outside [OF libs_okD(3) [OF assms(1)] assms(2) [unfolded deliver_app]]
  have "session.more w' = session.more w" by (simp add: outside_def)
  then show ?thesis by (rule world_bus)
qed

section \<open>A batch of messages\<close>

lemma handle_msgs_keeps:
  assumes "\<And>evt w r w'. evt \<in> E \<Longrightarrow> handler Background evt w = (r, w') \<Longrightarrow> P (committed w) \<Longrightarrow> P (committed w')"
    and "\<And>m evt. m \<in> set msgs \<Longrightarrow> unmarshal_outbox (js_Data js m) zero_outbox = Inr evt \<Longrightarrow> evt \<in> E"
    and "P (committed w)"
  shows "P (committed (handle_msgs js handler msgs w))"
  using assms(2,3)
proof (induction msgs arbitrary: w)
  case Nil
  then show ?case by simp
next
  case (Cons m ms)
  have ih: "P (committed w1) \<Longrightarrow> P (committed (handle_msgs js handler ms w1))" for w1
    by (rule Cons.IH) (use Cons.prems(1) in auto)
  show ?case
  proof (cases "unmarshal_outbox (js_Data js m) zero_outbox")
    case (Inl err)
    with ih Cons.prems(2) show ?thesis by simp
  next
    case (Inr evt)
    have "evt \<in> E" by (rule Cons.prems(1) [OF _ Inr]) simp
    obtain r w1 where w1: "handler Background evt w = (r, w1)" by fastforce
    from assms(1) [OF \<open>evt \<in> E\<close> w1 Cons.prems(2)] have "P (committed w1)" .
    with ih Inr w1 show ?thesis by (cases r) simp_all
  qed
qed

lemma handle_msgs_bus:
  assumes "jetstream_ok js stored acks" "\<And>evt w r w'. handler Background evt w = (r, w') \<Longrightarrow> bus w' = bus w"
  shows "stored (bus (handle_msgs js handler msgs w)) = stored (bus w) \<and>
    acks (bus (handle_msgs js handler msgs w)) \<subseteq> acks (bus w) \<union> set msgs"
proof (induction msgs arbitrary: w)
  case Nil
  then show ?case by simp
next
  case (Cons m ms)
  note js = jetstream_okD(6,7,12,13) [OF assms(1)]
  show ?case
  proof (cases "unmarshal_outbox (js_Data js m) zero_outbox")
    case (Inl err)
    with Cons [of "w\<lparr>bus := js_Nak js m (bus w)\<rparr>"] js show ?thesis by auto
  next
    case (Inr evt)
    obtain r w1 where w1: "handler Background evt w = (r, w1)" by fastforce
    from assms(2) [OF this] have b: "bus w1 = bus w" .
    show ?thesis
    proof (cases r)
      case None
      with Cons [of "w1\<lparr>bus := js_Ack js m (bus w1)\<rparr>"] Inr w1 b js show ?thesis by auto
    next
      case (Some err)
      with Cons [of "w1\<lparr>bus := js_Nak js m (bus w1)\<rparr>"] Inr w1 b js show ?thesis by auto
    qed
  qed
qed

text \<open>A record of an event is never removed.\<close>

abbreviation recorded :: "OutboxEvent \<Rightarrow> db \<Rightarrow> bool" where
  "recorded e d \<equiv> (oe_EventID e, ''ProductProjection'') \<in> set (processed_events d)"

lemma handler_processed:
  assumes "ProductProjectionHandler_Handle enc c e s = (r, s')"
  shows "processed_events (committed s') = processed_events (committed s) \<and> cur_tx s' = cur_tx s"
proof -
  have view: "processed_events (committed s2) = processed_events (committed s1) \<and> cur_tx s2 = cur_tx s1"
    if "pool_Exec st s1 = (x, s2)" "\<exists>row i n p v t. st = UpsertView row \<or> st = UpdateView i n p v t" for st x s1 s2
    using pool_Exec_effect [OF that(1)] pool_Exec_frame [OF that(1)] that(2)
    by (auto simp: run_stmt_def split: if_splits)
  from assms show ?thesis
    by (auto simp: handler_defs split: if_splits sum.splits prod.splits dest!: view)
qed

lemma deliver_recorded:
  assumes "backoff_lib quiet_wait permanent retry" "deliver permanent retry enc e s = (r, s')"
    and "recorded e' (committed s)"
  shows "recorded e' (committed s')"
proof (rule pg_projection.Handle_keeps [where P = "recorded e'",
    OF assms(2) [unfolded deliver_def productProjection_eq] assms(1)])
  show "pg_projection.marks_stable (recorded e')" by (simp add: pg_projection.marks_stable_def)
  show "pg_projection.handler_keeps (recorded e') (ProductProjectionHandler_Handle enc) e"
    unfolding pg_projection.handler_keeps_def
  proof (intro allI impI)
    fix s s' :: "'x session_scheme" and r
    assume run: "ProductProjectionHandler_Handle enc TxCtx e s = (r, s')" and "recorded e' (committed s)" "fresh_tx s"
    with handler_processed [OF run] fresh_tx_view [of s']
    show "recorded e' (committed s') \<and> (r = None \<longrightarrow> recorded e' (tx_view s'))" by (simp add: fresh_tx_def)
  qed
qed (use assms(3) in \<open>simp_all add: quiet_wait_def\<close>)

lemma deliver_records:
  assumes "backoff_lib quiet_wait permanent retry" "deliver permanent retry enc e s = (None, s')"
  shows "recorded e (committed s')"
  using pg_projection.Handle_marks [OF assms(2) [unfolded deliver_def productProjection_eq] assms(1)] .

section \<open>The invariant\<close>

text \<open>
  Every message of the streams is the message of an event of the event store; every message that
  has been acknowledged carries an event of the event store that is recorded as processed.
\<close>

definition messages_known :: "(uuid \<Rightarrow> string) \<Rightarrow> (string \<times> json) list \<Rightarrow> db \<Rightarrow> bool" where
  "messages_known us msgs d \<longleftrightarrow> (\<forall>x \<in> set msgs. \<exists>e \<in> set (event_store d). x = nats_msg us (oe_AggregateType e) e)"

definition acks_recorded :: "('m \<Rightarrow> json) \<Rightarrow> 'm set \<Rightarrow> db \<Rightarrow> bool" where
  "acks_recorded data ms d \<longleftrightarrow>
     (\<forall>m \<in> ms. \<exists>e \<in> set (event_store d). unmarshal_outbox (data m) zero_outbox = Inr e \<and> recorded e d)"

definition app_inv ::
  "('j, 'q, 'm) libs \<Rightarrow> ('j \<Rightarrow> (string \<times> json) list) \<Rightarrow> ('j \<Rightarrow> 'm set) \<Rightarrow> 'j app \<Rightarrow> bool" where
  "app_inv l stored acks y \<longleftrightarrow>
     cmd_inv (clients_of y) \<and> workers_inv (relays_of y) \<and>
     all_sent stored (nats_msg (lib_uuid_String l)) (relays_of y) \<and>
     messages_known (lib_uuid_String l) (stored (app_bus y)) (app_db y) \<and>
     view_inv (lib_enc l) (set (event_store (app_db y))) (app_db y) \<and>
     acks_recorded (js_Data (lib_js l)) (acks (app_bus y)) (app_db y)"

lemma app_invD:
  assumes "app_inv l stored acks y"
  shows "cmd_inv (clients_of y)" "workers_inv (relays_of y)"
    "all_sent stored (nats_msg (lib_uuid_String l)) (relays_of y)"
    "messages_known (lib_uuid_String l) (stored (app_bus y)) (app_db y)"
    "view_inv (lib_enc l) (set (event_store (app_db y))) (app_db y)"
    "acks_recorded (js_Data (lib_js l)) (acks (app_bus y)) (app_db y)"
    "write_inv (app_db y)" "map ob_event (outbox (app_db y)) = event_store (app_db y)"
  using assms by (simp_all add: app_inv_def cmd_inv_def write_inv_def store_wf_def)

lemma valid_row_year_ok:
  assumes "valid_row e"
  shows "year_ok (oe_Ts e)"
proof -
  note r = valid_row_decode(2) [OF assms]
  obtain x where "enc_time (oe_Ts e) = Inr x"
    using event_row_of_fields(6,7) [OF r]
    by (auto simp: marshal_event_def Timestamp_def Let_def split: sum.splits)
  then show ?thesis by (simp add: enc_time_def split: if_splits)
qed

lemma valid_row_message:
  assumes "valid_row e"
  shows "unmarshal_outbox (snd (nats_msg us t e)) zero_outbox = Inr e"
proof -
  have "year_ok (oe_Ts e)" by (rule valid_row_year_ok [OF assms])
  moreover have "int64 (oe_Version e)"
    using assms int4_int64 by (simp add: valid_row_def row_sized_def)
  ultimately show ?thesis by (rule nats_msg_roundtrip)
qed

text \<open>What grows with the event store.\<close>

lemma messages_known_mono:
  "messages_known us ms d \<Longrightarrow> set (event_store d) \<subseteq> set (event_store d') \<Longrightarrow> messages_known us ms d'"
  unfolding messages_known_def by blast

lemma acks_recorded_mono:
  "acks_recorded data ms d \<Longrightarrow> set (event_store d) \<subseteq> set (event_store d') \<Longrightarrow>
     processed_events d' = processed_events d \<Longrightarrow> acks_recorded data ms d'"
  unfolding acks_recorded_def by (simp add: subset_iff) blast

lemma view_inv_mono:
  "view_inv enc evs d \<Longrightarrow> evs \<subseteq> evs' \<Longrightarrow> product_views d' = product_views d \<Longrightarrow> view_inv enc evs' d'"
  unfolding view_inv_def by (simp add: subset_iff) blast

section \<open>Commands\<close>

lemma grown_fields:
  assumes "grown d d'"
  obtains rows where "event_store d' = event_store d @ rows" "outbox d' = outbox d @ unpublished_rows rows"
    "product_views d' = product_views d" "processed_events d' = processed_events d"
  using assms by (auto simp: grown_def append_rows_def)

lemma app_inv_command:
  assumes "cmd_step f (clients_of y) c" "app_inv l stored acks y"
  shows "app_inv l stored acks (y\<lparr>app_db := sys_db c, app_pending := pending c\<rparr>)"
proof -
  let ?y = "y\<lparr>app_db := sys_db c, app_pending := pending c\<rparr>"
  note i = app_invD [OF assms(2)]
  have c: "cmd_inv c" by (rule cmd_step_inv [OF assms(1) i(1)])
  then have clients: "cmd_inv \<lparr>sys_db = sys_db c, pending = pending c\<rparr>" by (cases c) simp
  obtain rows where g: "event_store (sys_db c) = event_store (app_db y) @ rows"
    "outbox (sys_db c) = outbox (app_db y) @ unpublished_rows rows"
    "product_views (sys_db c) = product_views (app_db y)"
    "processed_events (sys_db c) = processed_events (app_db y)"
    using grown_fields [OF cmd_step_grown [OF assms(1) i(1)]] by auto
  have "distinct (outbox_ids_of (sys_db c))"
    using c by (simp add: cmd_inv_def write_inv_def store_wf_def flip: map_map)
  moreover have "\<exists>x \<in> set (outbox (sys_db c)). ob_event x = e \<and> \<not> published x"
    if "e \<in> set (held_events (relays_of y))" for e
    using that i(2) g(2) unfolding workers_inv_def by fastforce
  ultimately have "workers_inv (relays_of ?y)" using i(2) by (simp add: workers_inv_def held_events_def)
  moreover have "all_sent stored (nats_msg (lib_uuid_String l)) (relays_of ?y)"
    using i(3) g(2) by (auto simp: all_sent_def)
  moreover have sub: "set (event_store (app_db y)) \<subseteq> set (event_store (app_db ?y))" using g(1) by simp
  ultimately show ?thesis
    using clients messages_known_mono [OF i(4) sub] view_inv_mono [OF i(5) sub] acks_recorded_mono [OF i(6) sub] g(3,4)
    by (simp add: app_inv_def)
qed

section \<open>Relays\<close>

lemma app_inv_fetch:
  assumes "k \<notin> fst ` set (app_held y)" "pool_Begin (fetch_session (relays_of y) fs) = (None, s1)"
    "fetchAndLockUnpublishedInTx n s1 = (Inr es, s2)" "app_inv l stored acks y"
  shows "app_inv l stored acks (y\<lparr>app_held := (k, es) # app_held y\<rparr>)"
proof -
  have "relay_step n (app_publish l) (relays_of y) None ((relays_of y)\<lparr>rs_held := (k, es) # rs_held (relays_of y)\<rparr>)"
    by (rule relay_step.fetch [OF _ assms(2,3)]) (use assms(1) in simp)
  from workers_inv_step [OF this] app_invD(2) [OF assms(4)]
  have "workers_inv (relays_of (y\<lparr>app_held := (k, es) # app_held y\<rparr>))" by simp
  with assms(4) show ?thesis by (simp add: app_inv_def all_sent_def)
qed

text \<open>Marking rows changes nothing on the write side but the flags.\<close>

lemma ob_event_mark [simp]: "map ob_event (mark_rows es rows) = map ob_event rows"
  by (simp add: mark_rows_def)

lemma write_inv_cong:
  assumes "event_store d' = event_store d" "map ob_event (outbox d') = map ob_event (outbox d)" "snapshots d' = snapshots d"
  shows "write_inv d' = write_inv d" "stream_len a d' = stream_len a d"
  using store_wf_cong [OF assms] assms(1) by (simp_all add: write_inv_def contiguous_def stream_len_def)

lemma cmd_inv_cong:
  assumes "event_store d' = event_store d" "map ob_event (outbox d') = map ob_event (outbox d)" "snapshots d' = snapshots d"
  shows "cmd_inv \<lparr>sys_db = d', pending = ps\<rparr> = cmd_inv \<lparr>sys_db = d, pending = ps\<rparr>"
  using write_inv_cong [OF assms] by (simp add: cmd_inv_def pending_ok_def)

lemma batch_messages_known:
  assumes "workers_inv y" "set es \<subseteq> set (held_events y)" "map ob_event (outbox (rs_db y)) = event_store (rs_db y)"
  shows "messages_known us (batch_messages (nats_msg us) es) (rs_db y)"
proof -
  have "e \<in> set (event_store (rs_db y))" if "e \<in> set es" for e
  proof -
    have "\<forall>e \<in> set (held_events y). \<exists>x \<in> set (outbox (rs_db y)). ob_event x = e \<and> \<not> published x"
      using assms(1) by (simp add: workers_inv_def)
    from bspec [OF this subsetD [OF assms(2) that]] obtain x where "x \<in> set (outbox (rs_db y))" "ob_event x = e"
      by (elim bexE conjE)
    then have "e \<in> set (map ob_event (outbox (rs_db y)))" by auto
    then show ?thesis unfolding assms(3) .
  qed
  then show ?thesis by (auto simp: messages_known_def)
qed

lemma messages_known_append:
  "messages_known us (xs @ zs) d \<longleftrightarrow> messages_known us xs d \<and> messages_known us zs d"
  by (auto simp: messages_known_def)

lemma messages_known_take:
  "messages_known us (batch_messages msg es) d \<Longrightarrow> messages_known us (batch_messages msg (take k es)) d"
  unfolding messages_known_def by (auto dest: in_set_takeD)

text \<open>Publishing acknowledges nothing.\<close>

lemma Publish_acks:
  assumes "jetstream_ok js stored acks" "NATSBroker_Publish us js c t e j = (r, j')"
  shows "acks j' = acks j"
proof -
  obtain r1 j1 where j1: "js_StreamInfo js t j = (r1, j1)" by fastforce
  obtain r2 j2 where j2: "js_AddStream js t [t @ ''.*''] j1 = (r2, j2)" by fastforce
  obtain r3 j3 where j3: "ensureTopicExist js t j = (r3, j3)" by fastforce
  note jd = jetstream_okD [OF assms(1)]
  have "acks j1 = acks j" "acks j2 = acks j1" using jd(8) [OF j1] jd(9) [OF j2] by simp_all
  moreover have "j3 \<in> {j1, j2}"
    using j1 j2 j3 by (cases r1; cases r2) (auto simp: ensureTopicExist_def split: if_splits)
  ultimately have a3: "acks j3 = acks j" by auto
  have pub: "acks (snd (js_Publish js s x j3)) = acks j3" for s x
    using jd(10) [of s x j3 "fst (js_Publish js s x j3)"] by simp
  have "j' = j3 \<or> (\<exists>s x. j' = snd (js_Publish js s x j3))"
    using assms(2) j3 by (auto simp: NATSBroker_Publish_def Let_def split: option.splits sum.splits prod.splits)
      (metis snd_conv)+
  with a3 pub show ?thesis by auto
qed

lemma publish_events_acks:
  assumes "jetstream_ok js stored acks"
    and "publish_events (on_bus (NATSBroker_Publish us js)) c es w = (r, w')"
  shows "acks (bus w') = acks (bus w)"
  using assms(2)
proof (induction es arbitrary: w)
  case Nil
  then show ?case by simp
next
  case (Cons e es)
  obtain r1 j1 where j1: "NATSBroker_Publish us js c (oe_AggregateType e) e (bus w) = (r1, j1)" by fastforce
  from Publish_acks [OF assms(1) j1] Cons j1 show ?case
    by (cases r1) (auto simp: Let_def on_bus_def split: if_splits)
qed

lemma finish_acks:
  assumes "jetstream_ok js stored acks"
    and "batch_rest (processor (on_bus (NATSBroker_Publish us js))) Background es (finish_session y fs) = (r, w')"
  shows "acks (bus w') = acks (rs_bus y)"
proof -
  obtain r1 w2 where w2: "processor (on_bus (NATSBroker_Publish us js)) Background es (finish_session y fs) = (r1, w2)"
    and m: "session.more w' = session.more w2"
    by (rule batch_rest_cases [OF assms(2) processor_quiet finish_session_simps(3)]) blast
  have "acks (bus w2) = acks (bus (finish_session y fs))"
    using w2 publish_events_acks [OF assms(1)] by (auto simp: processor_def split: if_splits)
  with world_bus [OF m] show ?thesis by simp
qed

lemma app_inv_finish:
  assumes "libs_ok l stored acks j0" "app_held y = xs @ (k, es) # zs"
    "batch_rest (processor (on_bus (app_publish l))) Background es (finish_session (relays_of y) fs) = (r, w')"
    "app_inv l stored acks y"
  shows "app_inv l stored acks (y\<lparr>app_db := committed w', app_held := xs @ zs, app_bus := bus w'\<rparr>)"
proof -
  let ?y = "y\<lparr>app_db := committed w', app_held := xs @ zs, app_bus := bus w'\<rparr>" and ?us = "lib_uuid_String l"
  note i = app_invD [OF assms(4)] and js = libs_okD(1) [OF assms(1)]
  note brk = nats_broker [OF js, of ?us]
  have "relay_step n (app_publish l) (relays_of y) r
      ((relays_of y)\<lparr>rs_db := committed w', rs_held := xs @ zs, rs_bus := bus w'\<rparr>)" for n
    by (rule relay_step.finish [OF _ assms(3)]) (simp add: assms(2))
  note st = this
  have relays: "workers_inv (relays_of ?y)" "all_sent stored (nats_msg ?us) (relays_of ?y)"
    using workers_inv_step [OF st i(2)] all_sent_step [OF st brk i(2,3)] by simp_all
  have held: "set es \<subseteq> set (held_events (relays_of y))" using assms(2) by (auto simp: held_events_def)
  have known: "messages_known ?us (batch_messages (nats_msg ?us) es) (app_db y)"
    using batch_messages_known [OF i(2) held] i(8) by simp
  obtain ms where ms: "stored (bus w') = stored (app_bus y) @ ms" "messages_known ?us ms (app_db y)"
    and d: "committed w' = app_db y \<or> committed w' = (app_db y)\<lparr>outbox := mark_rows es (outbox (app_db y))\<rparr>"
    using finish_effect [OF assms(3) brk] known messages_known_take [of ?us "nats_msg ?us" es "app_db y"] by auto
  have db: "event_store (committed w') = event_store (app_db y)" "snapshots (committed w') = snapshots (app_db y)"
    "map ob_event (outbox (committed w')) = map ob_event (outbox (app_db y))"
    "product_views (committed w') = product_views (app_db y)"
    "processed_events (committed w') = processed_events (app_db y)"
    using d by auto
  have "messages_known ?us (stored (bus w')) (committed w')"
    unfolding ms(1) messages_known_append
    using messages_known_mono [OF i(4), of "committed w'"] messages_known_mono [OF ms(2), of "committed w'"] db(1) by simp
  moreover have "cmd_inv (clients_of ?y)" using i(1) cmd_inv_cong [OF db(1,3,2)] by simp
  moreover have "view_inv (lib_enc l) (set (event_store (committed w'))) (committed w')"
    using view_inv_mono [OF i(5) _ db(4)] db(1) by simp
  moreover have "acks_recorded (js_Data (lib_js l)) (acks (bus w')) (committed w')"
    using acks_recorded_mono [OF i(6) _ db(5)] db(1) finish_acks [OF js assms(3)] by simp
  ultimately show ?thesis using relays by (simp add: app_inv_def)
qed

section \<open>The subscriber\<close>

lemma app_world_simps [simp]:
  "committed (app_world y fs) = app_db y" "bus (app_world y fs) = app_bus y"
  by (simp_all add: app_world_def)

text \<open>What a fetched message decodes to is an event of the event store.\<close>

lemma known_message_decodes:
  assumes "messages_known us ms d" "data \<in> snd ` set ms" "write_inv d"
  shows "\<exists>e \<in> set (event_store d). unmarshal_outbox data zero_outbox = Inr e"
proof -
  from assms(1,2) obtain e where e: "e \<in> set (event_store d)" "data = snd (nats_msg us (oe_AggregateType e) e)"
    unfolding messages_known_def by fastforce
  have "valid_row e" using assms(3) e(1) by (simp add: write_inv_def store_wf_def)
  from valid_row_message [OF this] e show ?thesis by blast
qed

text \<open>A turn is the handling of a batch of messages, each of which carries a stored event.\<close>

lemma turn_batch:
  assumes "libs_ok l stored acks j0" "fetch_turn (lib_js l) (app_handler l) q (app_world y fs) = w'" "app_inv l stored acks y"
  obtains ms w0 where "w' = handle_msgs (lib_js l) (app_handler l) ms w0" "committed w0 = app_db y"
    "stored (bus w0) = stored (app_bus y)" "acks (bus w0) = acks (app_bus y)"
    "\<And>m. m \<in> set ms \<Longrightarrow> \<exists>e \<in> set (event_store (app_db y)). unmarshal_outbox (js_Data (lib_js l) m) zero_outbox = Inr e"
proof -
  let ?js = "lib_js l"
  note i = app_invD [OF assms(3)] and lib = libs_okD [OF assms(1)]
  obtain res j where f: "js_Fetch ?js q 10 (app_bus y) = (res, j)" by fastforce
  define ms where "ms = (case res of Inl err \<Rightarrow> [] | Inr ms \<Rightarrow> ms)"
  define w0 where "w0 = (app_world y fs)\<lparr>bus := j\<rparr>"
  show thesis
  proof
    show "w' = handle_msgs ?js (app_handler l) ms w0"
      using assms(2) f by (auto simp: fetch_turn_def ms_def w0_def split: sum.splits)
    show "stored (bus w0) = stored (app_bus y)" "acks (bus w0) = acks (app_bus y)" "committed w0 = app_db y"
      using jetstream_okD(5,11) [OF lib(1) f] by (simp_all add: w0_def)
    show "\<exists>e \<in> set (event_store (app_db y)). unmarshal_outbox (js_Data ?js m) zero_outbox = Inr e" if "m \<in> set ms" for m
      using that f lib(2) known_message_decodes [OF i(4) _ i(7)] by (auto simp: ms_def split: sum.splits)
  qed
qed

text \<open>It leaves the tables of the write side alone and keeps the invariant of the view.\<close>

lemma turn_tables:
  assumes "libs_ok l stored acks j0" "fetch_turn (lib_js l) (app_handler l) q (app_world y fs) = w'" "app_inv l stored acks y"
  shows "write_tables (committed w') = write_tables (app_db y) \<and>
    view_inv (lib_enc l) (set (event_store (app_db y))) (committed w')"
proof (rule turn_batch [OF assms])
  let ?E = "set (event_store (app_db y))" and ?js = "lib_js l"
  note i = app_invD [OF assms(3)] and lib = libs_okD [OF assms(1)]
  have good: "good_event e" if "e \<in> ?E" for e
    using that i(7) valid_row_good by (simp add: write_inv_def store_wf_def)
  fix ms w0
  assume w': "w' = handle_msgs ?js (app_handler l) ms w0" and w0: "committed w0 = app_db y"
    and dec: "\<And>m. m \<in> set ms \<Longrightarrow> \<exists>e \<in> ?E. unmarshal_outbox (js_Data ?js m) zero_outbox = Inr e"
  show ?thesis
    unfolding w'
  proof (rule handle_msgs_keeps [where E = ?E and P = "\<lambda>d. write_tables d = write_tables (app_db y) \<and> view_inv (lib_enc l) ?E d"])
    fix evt :: OutboxEvent and w w1 :: "'a world" and r
    assume e: "evt \<in> ?E" and run: "app_handler l Background evt w = (r, w1)"
      and P: "write_tables (committed w) = write_tables (app_db y) \<and> view_inv (lib_enc l) ?E (committed w)"
    note run' = run [unfolded deliver_app]
    have "view_inv (lib_enc l) ?E (committed w1)"
      using deliver_keeps [OF lib(4) run' good [OF e] _ view_inv_marks_stable] P run_stmt_view_inv e by blast
    with deliver_write_tables [OF lib(4) run' good [OF e]] P
    show "write_tables (committed w1) = write_tables (app_db y) \<and> view_inv (lib_enc l) ?E (committed w1)" by simp
  next
    fix m evt
    assume "m \<in> set ms" "unmarshal_outbox (js_Data ?js m) zero_outbox = Inr evt"
    then show "evt \<in> ?E" using dec by fastforce
  qed (use i(5) w0 in simp)
qed

text \<open>What is acknowledged after a turn was acknowledged before, or has been recorded in it.\<close>

lemma turn_acks:
  assumes "libs_ok l stored acks j0" "fetch_turn (lib_js l) (app_handler l) q (app_world y fs) = w'" "app_inv l stored acks y"
  shows "stored (bus w') = stored (app_bus y) \<and> acks_recorded (js_Data (lib_js l)) (acks (bus w')) (committed w')"
proof (rule turn_batch [OF assms])
  let ?E = "set (event_store (app_db y))" and ?js = "lib_js l"
  note i = app_invD [OF assms(3)] and lib = libs_okD [OF assms(1)]
  have E: "event_store (committed w') = event_store (app_db y)" using turn_tables [OF assms] by (simp add: write_tables_def)
  fix ms w0
  assume w': "w' = handle_msgs ?js (app_handler l) ms w0" and w0: "committed w0 = app_db y"
    "stored (bus w0) = stored (app_bus y)" "acks (bus w0) = acks (app_bus y)"
    and dec: "\<And>m. m \<in> set ms \<Longrightarrow> \<exists>e \<in> ?E. unmarshal_outbox (js_Data ?js m) zero_outbox = Inr e"
  have b: "stored (bus w') = stored (app_bus y)" "acks (bus w') \<subseteq> acks (app_bus y) \<union> set ms"
    using handle_msgs_bus [where handler = "app_handler l" and msgs = ms and w = w0, OF lib(1) app_handler_bus [OF assms(1)]] w0
    unfolding w' by simp_all
  have "\<exists>e \<in> ?E. unmarshal_outbox (js_Data ?js m) zero_outbox = Inr e \<and> recorded e (committed w')" if m: "m \<in> acks (bus w')" for m
  proof -
    have "\<exists>evt. unmarshal_outbox (js_Data ?js m) zero_outbox = Inr evt \<and> recorded evt (committed w')"
      unfolding w'
    proof (rule handle_msgs_acked [OF lib(1), where Q = recorded])
      show "\<exists>evt. unmarshal_outbox (js_Data ?js m) zero_outbox = Inr evt \<and> recorded evt (committed w0)"
        if "m \<in> acks (bus w0)"
        using that i(6) w0 by (auto simp: acks_recorded_def)
    qed (use m w' deliver_recorded [OF lib(4)] deliver_records [OF lib(4)] app_handler_bus [OF assms(1)] in
        \<open>auto simp: deliver_app\<close>)
    moreover have "\<exists>e \<in> ?E. unmarshal_outbox (js_Data ?js m) zero_outbox = Inr e"
      using m b(2) dec i(6) unfolding acks_recorded_def by blast
    ultimately show ?thesis by auto
  qed
  with b(1) E show ?thesis by (simp add: acks_recorded_def)
qed

lemma app_inv_turn:
  assumes "libs_ok l stored acks j0" "fetch_turn (lib_js l) (app_handler l) q (app_world y fs) = w'" "app_inv l stored acks y"
  shows "app_inv l stored acks (y\<lparr>app_db := committed w', app_bus := bus w'\<rparr>)"
proof -
  let ?y = "y\<lparr>app_db := committed w', app_bus := bus w'\<rparr>" and ?d = "committed w'"
  note i = app_invD [OF assms(3)]
  have db: "event_store ?d = event_store (app_db y)" "snapshots ?d = snapshots (app_db y)" "outbox ?d = outbox (app_db y)"
    and view: "view_inv (lib_enc l) (set (event_store (app_db y))) ?d"
    using turn_tables [OF assms] by (simp_all add: write_tables_def)
  have b: "stored (bus w') = stored (app_bus y)" and acked: "acks_recorded (js_Data (lib_js l)) (acks (bus w')) ?d"
    using turn_acks [OF assms] by simp_all
  have "cmd_inv (clients_of ?y)" using i(1) cmd_inv_cong [of ?d "app_db y"] db by simp
  moreover have "workers_inv (relays_of ?y)" "all_sent stored (nats_msg (lib_uuid_String l)) (relays_of ?y)"
    using i(2,3) db b by (simp_all add: workers_inv_def held_events_def all_sent_def)
  moreover have "messages_known (lib_uuid_String l) (stored (bus w')) ?d"
    using messages_known_mono [OF i(4), of ?d] db(1) b by simp
  ultimately show ?thesis using view acked db(1) by (simp add: app_inv_def)
qed

section \<open>Every reachable state\<close>

lemma app_step_inv:
  assumes "app_step f n l y y'" "libs_ok l stored acks j0" "app_inv l stored acks y"
  shows "app_inv l stored acks y'"
  using assms(1)
proof cases
  case (command c)
  with app_inv_command [OF _ assms(3)] show ?thesis by blast
next
  case (fetch k fs s1 es s2)
  with app_inv_fetch [OF _ _ _ assms(3)] show ?thesis by blast
next
  case (finish xs k es zs fs r w')
  with app_inv_finish [OF assms(2) _ _ assms(3)] show ?thesis by blast
next
  case (turn q fs w')
  with app_inv_turn [OF assms(2) _ assms(3)] show ?thesis by blast
qed

lemma app_reachable_inv:
  assumes "app_reachable f n l j0 y" "libs_ok l stored acks j0"
  shows "app_inv l stored acks y"
  using assms(1)
proof (induction rule: app_reachable.induct)
  case start
  have "cmd_inv \<lparr>sys_db = empty_db, pending = \<lambda>_. None\<rparr>" by (rule cmd_reachable_inv [OF cmd_reachable.start])
  then show ?case
    using libs_okD(5,6) [OF assms(2)]
    by (simp add: app_inv_def workers_inv_def held_events_def all_sent_def messages_known_def view_inv_def acks_recorded_def)
next
  case (step y y')
  then show ?case using app_step_inv [OF _ assms(2)] by blast
qed

end
