(* ===== verification/Sample_Main.thy ===== *)
theory Sample_Main
  imports System
begin

text \<open>
  \<open>sample/main.go\<close>: how the program starts (with \<open>NewDB\<close> of \<open>infra/postgres/db.go\<close> and
  \<open>NewNATSBroker\<close> of \<open>infra/nats/broker.go\<close>) and the work it simulates. Opening connections is
  code of the client libraries, reading the environment of the operating system: both are fields
  of the parameter \<open>start_libs\<close>. Logging is left out; what the simulation logs of its queries is
  part of its result.
\<close>

section \<open>Opening the connections\<close>

record ('p, 'c, 's) start_libs =
  os_Getenv :: "string \<Rightarrow> string"
  pgxpool_New :: "string \<Rightarrow> 's \<Rightarrow> (error + 'p) \<times> 's"
  pool_Ping :: "'p \<Rightarrow> 's \<Rightarrow> error option \<times> 's"
  pool_Close :: "'p \<Rightarrow> 's \<Rightarrow> 's"
  nats_Connect :: "string \<Rightarrow> 's \<Rightarrow> (error + 'c) \<times> 's"
  conn_JetStream :: "'c \<Rightarrow> 's \<Rightarrow> error option \<times> 's"
  conn_Close :: "'c \<Rightarrow> 's \<Rightarrow> 's"

definition NewDB :: "('p, 'c, 's) start_libs \<Rightarrow> string \<Rightarrow> 's \<Rightarrow> (error + 'p) \<times> 's" where
  "NewDB sl dsn s =
     (case pgxpool_New sl dsn s of
        (Inl err, s1) \<Rightarrow> (Inl (Wrap ''unable to create connection pool'' err), s1)
      | (Inr pool, s1) \<Rightarrow>
          (case pool_Ping sl pool s1 of
             (Some err, s2) \<Rightarrow> (Inl (Wrap ''unable to ping database'' err), s2)
           | (None, s2) \<Rightarrow> (Inr pool, s2)))"

definition NewNATSBroker :: "('p, 'c, 's) start_libs \<Rightarrow> string \<Rightarrow> 's \<Rightarrow> (error + 'c) \<times> 's" where
  "NewNATSBroker sl url s =
     (case nats_Connect sl url s of
        (Inl err, s1) \<Rightarrow> (Inl (Wrap ''failed to connect to NATS'' err), s1)
      | (Inr nc, s1) \<Rightarrow>
          (case conn_JetStream sl nc s1 of
             (Some err, s2) \<Rightarrow> (Inl (Wrap ''failed to create JetStream context'' err), conn_Close sl nc s2)
           | (None, s2) \<Rightarrow> (Inr nc, s2)))"

text \<open>The two deferred calls of \<open>main\<close>; a broker without a connection has nothing to close.\<close>

definition DB_Close :: "('p, 'c, 's) start_libs \<Rightarrow> 'p \<Rightarrow> 's \<Rightarrow> 's" where
  "DB_Close sl pool s = pool_Close sl pool s"

definition NATSBroker_Close :: "('p, 'c, 's) start_libs \<Rightarrow> 'c option \<Rightarrow> 's \<Rightarrow> 's" where
  "NATSBroker_Close sl conn s = (case conn of None \<Rightarrow> s | Some nc \<Rightarrow> conn_Close sl nc s)"

text \<open>The table is part of the type \<open>db\<close>, so creating it where it exists already changes nothing.\<close>

definition createProductViewTable :: "'x session_scheme \<Rightarrow> error option \<times> 'x session_scheme" where
  "createProductViewTable s =
     (case next_fault s of (Some (Fault err _), s1) \<Rightarrow> (Some err, s1) | (None, s1) \<Rightarrow> (None, s1))"

section \<open>The start of the program\<close>

definition snapshotFrequency :: int where
  "snapshotFrequency = 5"

text \<open>Three relays; the interval of two seconds is in nanoseconds.\<close>

definition main_relays :: "('j, 'q, 'm) libs \<Rightarrow> 'j world Relay list" where
  "main_relays l = replicate 3 (NewRelay ProcessOutboxBatch (on_bus (app_publish l)) 10 2000000000)"

text \<open>
  \<open>main\<close> up to the simulation: \<open>Inl\<close> is an exit with status 1 after logging the error, \<open>Inr\<close>
  the two connections, the relays that run and the subscription that the projection polls.
\<close>

definition main_start ::
  "('p, 'c, 'j world) start_libs \<Rightarrow> ('j, 'q, 'm) libs \<Rightarrow> 'j world
     \<Rightarrow> (error + 'p \<times> 'c \<times> 'j world Relay list \<times> 'q) \<times> 'j world" where
  "main_start sl l w =
     (let dsn = os_Getenv sl ''APP_DSN''; natsURL = os_Getenv sl ''APP_NATS_URL'' in
      if dsn = '''' then (Inl (NewError ''APP_DSN environment variable not set''), w)
      else if natsURL = '''' then (Inl (NewError ''APP_NATS_URL environment variable not set''), w)
      else
        (case NewDB sl dsn w of
           (Inl err, w1) \<Rightarrow> (Inl (Wrap ''Failed to connect to database'' err), w1)
         | (Inr pool, w1) \<Rightarrow>
             (case createProductViewTable w1 of
                (Some err, w2) \<Rightarrow> (Inl (Wrap ''Failed to create product views'' err), w2)
              | (None, w2) \<Rightarrow>
                  (case NewNATSBroker sl natsURL w2 of
                     (Inl err, w3) \<Rightarrow> (Inl (Wrap ''Failed to connect to NATS'' err), w3)
                   | (Inr nc, w3) \<Rightarrow>
                       (case NATSBroker_Subscribe (lib_js l) ''products'' ''ProductProjection'' (bus w3) of
                          (Inl err, j) \<Rightarrow> (Inl (Wrap ''Failed to subscribe to topic'' err), w3\<lparr>bus := j\<rparr>)
                        | (Inr sub, j) \<Rightarrow> (Inr (pool, nc, main_relays l, sub), w3\<lparr>bus := j\<rparr>))))))"

text \<open>
  The whole of \<open>main\<close>. \<open>run\<close> is what the goroutines do until the signal arrives. After it the
  deferred calls run, the last one first; an exit by \<open>os.Exit\<close> runs none of them.
\<close>

definition main_run ::
  "('p, 'c, 'j world) start_libs \<Rightarrow> ('j, 'q, 'm) libs \<Rightarrow> ('j world Relay list \<Rightarrow> 'q \<Rightarrow> 'j world \<Rightarrow> 'j world)
     \<Rightarrow> 'j world \<Rightarrow> error option \<times> 'j world" where
  "main_run sl l run w =
     (case main_start sl l w of
        (Inl err, w1) \<Rightarrow> (Some err, w1)
      | (Inr (pool, nc, relays, sub), w1) \<Rightarrow>
          (None, DB_Close sl pool (NATSBroker_Close sl (Some nc) (run relays sub w1))))"

section \<open>The simulated work\<close>

text \<open>The values of the literals \<open>199.99\<close> and \<open>200.01\<close> as 64-bit floats.\<close>

definition price_199_99 :: float64 where
  "price_199_99 = Finite (879565321755689 / 4398046511104)"

definition price_200_01 :: float64 where
  "price_200_01 = Finite (879653282685911 / 4398046511104)"

text \<open>
  The goroutine of \<open>main\<close>. Its results are the names and prices that it logs, the error that ends
  it early, and the state. \<open>pause\<close> is what the relays and the subscriber do while it sleeps for
  five seconds; the arguments \<open>i\<close> and \<open>t\<close> are the event ids and times of the two commands.
\<close>

definition simulated_work ::
  "(int \<Rightarrow> error + float64) \<Rightarrow> uuid \<Rightarrow> uuid \<Rightarrow> time \<Rightarrow> uuid \<Rightarrow> time \<Rightarrow> ('x session_scheme \<Rightarrow> 'x session_scheme)
     \<Rightarrow> 'x session_scheme \<Rightarrow> (string \<times> float64) list \<times> error option \<times> 'x session_scheme" where
  "simulated_work dec productID i1 t1 i2 t2 pause w =
     (let createCmd = \<lparr>cp_ID = productID, cp_Name = ''CQRS-Powered Widget'', cp_Price = price_199_99\<rparr> in
      case CreateProductHandler_Handle snapshotFrequency i1 t1 Background createCmd w of
        (Some err, w1) \<Rightarrow> ([], Some err, w1)
      | (None, w1) \<Rightarrow>
          (case GetProductByIDHandler_Query dec Background \<lparr>gp_ID = productID\<rparr> (pause w1) of
             (Inl err, w2) \<Rightarrow> ([], Some err, w2)
           | (Inr productView, w2) \<Rightarrow>
               (let out = [(pv_Name productView, pv_Price productView)];
                    updateCmd = \<lparr>up_ID = productID, up_Name = ''CQRS-Powered Widget (Updated)'', up_Price = price_200_01\<rparr> in
                case UpdateProductHandler_Handle snapshotFrequency i2 t2 Background updateCmd w2 of
                  (Some err, w3) \<Rightarrow> (out, Some err, w3)
                | (None, w3) \<Rightarrow>
                    (case GetProductByIDHandler_Query dec Background \<lparr>gp_ID = productID\<rparr> (pause w3) of
                       (Inl err, w4) \<Rightarrow> (out, Some err, w4)
                     | (Inr productView2, w4) \<Rightarrow>
                         (out @ [(pv_Name productView2, pv_Price productView2)], None, w4)))))"

text \<open>One way the background goes: every relay ticks once, then the subscriber takes one turn.\<close>

definition background_round :: "('j, 'q, 'm) libs \<Rightarrow> 'j world Relay list \<Rightarrow> 'q \<Rightarrow> 'j world \<Rightarrow> 'j world" where
  "background_round l relays sub w =
     fetch_turn (lib_js l) (app_handler l) sub
       (fold (\<lambda>r w. snd (relay_loop r Background [Tick] w)) relays w)"

end
