(* ===== verification/Simulation.thy ===== *)
theory Simulation
  imports Sample_Main
begin

text \<open>
  The simulated work of \<open>main\<close> run to its end over the in-memory server of theory \<open>Nats\<close>, on a
  database that does not fail: what one round of the background does with one new event, and
  what the queries see.
\<close>

section \<open>The libraries of the run\<close>

definition mem_libs :: "(float64 \<Rightarrow> error + int) \<Rightarrow> (mem_js, unit, nat \<times> json) libs" where
  "mem_libs enc = \<lparr>lib_js = mem_jetstream, lib_uuid_String = (\<lambda>_. ''7''), lib_permanent = wrap_permanent,
     lib_retry = four_tries, lib_enc = enc\<rparr>"

lemma mem_libs_sel [simp]:
  "lib_js (mem_libs enc) = mem_jetstream" "lib_uuid_String (mem_libs enc) = (\<lambda>_. ''7'')"
  "lib_permanent (mem_libs enc) = wrap_permanent" "lib_retry (mem_libs enc) = four_tries" "lib_enc (mem_libs enc) = enc"
  by (simp_all add: mem_libs_def)

lemma four_tries_still: "backoff_lib still wrap_permanent four_tries"
  unfolding four_tries_def [abs_def]
  by (rule backoff_lib_mono [OF backoff_lib_times]) (simp add: still_def)

lemma mem_libs_ok: "libs_ok (mem_libs enc) mj_stored (\<lambda>j. set (mj_acked j)) mem_js_empty"
proof -
  have "\<forall>m \<in> set (take n (filter P (enumerate 0 (map snd (mj_stored j))))). snd m \<in> snd ` set (mj_stored j)"
    for n P and j :: mem_js
  proof
    fix m
    assume that: "m \<in> set (take n (filter P (enumerate 0 (map snd (mj_stored j)))))"
    have "m \<in> set (enumerate 0 (map snd (mj_stored j)))" using that by (meson in_set_takeD filter_is_subset subsetD)
    then have "snd m \<in> set (map snd (enumerate 0 (map snd (mj_stored j))))" unfolding set_map by (rule imageI)
    then show "snd m \<in> snd ` set (mj_stored j)" by simp
  qed
  then show ?thesis
    using mem_jetstream_ok by (simp add: libs_ok_def four_tries_still mem_jetstream_def mem_js_empty_def)
qed

section \<open>Ticks\<close>

text \<open>The server has delivered and seen acknowledged all that it stores.\<close>

definition all_acked :: "mem_js \<Rightarrow> bool" where
  "all_acked j \<longleftrightarrow> set (mj_acked j) = set (enumerate 0 (map snd (mj_stored j)))"

abbreviation message_of :: "OutboxEvent \<Rightarrow> string \<times> json" where
  "message_of e \<equiv> nats_msg (\<lambda>_. ''7'') (oe_AggregateType e) e"

lemma mem_publish_valid:
  assumes "valid_row e"
  obtains j' where "mem_publish c (oe_AggregateType e) e j = (None, j')"
    "mj_stored j' = mj_stored j @ [message_of e]" "mj_acked j' = mj_acked j"
proof -
  have "year_ok (oe_Ts e)" using valid_row_year_ok [OF assms] .
  then have "fst (mem_publish c (oe_AggregateType e) e j) = None" by (rule mem_publish_accepts)
  then obtain j' where j': "mem_publish c (oe_AggregateType e) e j = (None, j')" by (metis prod.collapse)
  from broker.publish_ok [OF nats_broker [OF mem_jetstream_ok] j']
  have "mj_stored j' = mj_stored j @ [message_of e]" .
  moreover have "mj_acked j' = mj_acked j"
    using j' by (auto simp: NATSBroker_Publish_def ensureTopicExist_def mem_jetstream_def Let_def
        split: prod.splits option.splits sum.splits if_splits)
  ultimately show thesis using that j' by blast
qed

text \<open>A tick that finds one event publishes and marks it; one that finds none does nothing.\<close>

lemma batch_one:
  assumes "faults w = []" "locked w = []" "unpublished_batch 10 [] (committed w) = [e]"
    and "valid_row e" "oe_AggregateType e \<noteq> ''''" "distinct (outbox_ids_of (committed w))"
  obtains w' where "ProcessOutboxBatch 10 (processor (on_bus mem_publish)) c w = (None, w')" "faults w' = []" "locked w' = []"
    "committed w' = (committed w)\<lparr>outbox := mark_rows [e] (outbox (committed w))\<rparr>"
    "mj_stored (bus w') = mj_stored (bus w) @ [message_of e]" "mj_acked (bus w') = mj_acked (bus w)"
proof -
  obtain j where j: "mem_publish c (oe_AggregateType e) e (bus w) = (None, j)"
    "mj_stored j = mj_stored (bus w) @ [message_of e]" "mj_acked j = mj_acked (bus w)"
    by (rule mem_publish_valid [OF assms(4)])
  let ?w2 = "(begun w)\<lparr>bus := j\<rparr>"
  have "processor (on_bus mem_publish) c [e] (begun w) = (None, ?w2)"
    using j(1) assms(5) by (simp add: processor_def on_bus_def)
  with ProcessOutboxBatch_nofault [OF assms(1) _ assms(6) processor_quiet [of mem_publish], of 10 c ?w2] assms(1-3)
  obtain w' where w': "ProcessOutboxBatch 10 (processor (on_bus mem_publish)) c w = (None, w')" "faults w' = []"
    "locked w' = []" "session.more w' = session.more ?w2"
    "committed w' = (committed w)\<lparr>outbox := mark_rows [e] (outbox (committed w))\<rparr>" by auto
  have "bus w' = j" using world_bus [OF w'(4)] by simp
  with w' j show thesis by (intro that [of w']) simp_all
qed

lemma tick_one:
  assumes "faults w = []" "locked w = []" "unpublished_batch 10 [] (committed w) = [e]"
    and "valid_row e" "oe_AggregateType e \<noteq> ''''" "distinct (outbox_ids_of (committed w))"
  obtains w' where "relay_loop (pg_relay mem_publish 10) c [Tick] w = (False, w')" "faults w' = []" "locked w' = []"
    "committed w' = (committed w)\<lparr>outbox := mark_rows [e] (outbox (committed w))\<rparr>"
    "mj_stored (bus w') = mj_stored (bus w) @ [message_of e]" "mj_acked (bus w') = mj_acked (bus w)"
proof (rule batch_one [OF assms, of c])
  fix w'
  assume "ProcessOutboxBatch 10 (processor (on_bus mem_publish)) c w = (None, w')"
  then have "relay_loop (pg_relay mem_publish 10) c [Tick] w = (False, w')"
    by (simp add: processBatch_def NewRelay_def)
  then show "faults w' = [] \<Longrightarrow> locked w' = [] \<Longrightarrow>
      committed w' = (committed w)\<lparr>outbox := mark_rows [e] (outbox (committed w))\<rparr> \<Longrightarrow>
      mj_stored (bus w') = mj_stored (bus w) @ [message_of e] \<Longrightarrow> mj_acked (bus w') = mj_acked (bus w) \<Longrightarrow> thesis"
    by (rule that)
qed

lemma tick_none:
  assumes "faults w = []" "locked w = []" "unpublished_batch 10 [] (committed w) = []"
  obtains w' where "relay_loop (pg_relay mem_publish 10) c [Tick] w = (False, w')" "faults w' = []" "locked w' = []"
    "committed w' = committed w" "bus w' = bus w"
proof -
  have "fetchAndLockUnpublishedInTx 10 (begun w) = (Inr [], begun w)"
    using assms by (simp add: fetchAndLockUnpublishedInTx_def tx_Query_def tx_view_def)
  then have "relay_loop (pg_relay mem_publish 10) c [Tick] w = (False, w\<lparr>cur_tx := None\<rparr>)"
    using assms(1) by (simp add: processBatch_def NewRelay_def ProcessOutboxBatch_def tx_Rollback_def)
  with assms show thesis by (intro that [of "w\<lparr>cur_tx := None\<rparr>"]) simp_all
qed

lemma unpublished_after_mark:
  assumes "distinct (outbox_ids_of d)" "unpublished_batch 10 [] d = [e]"
  shows "unpublished_batch n l (d\<lparr>outbox := mark_rows [e] (outbox d)\<rparr>) = []"
proof -
  have "unpublished_count d = 1"
    using length_unpublished_batch [of 10 d] assms(2) by simp
  then have "unpublished_count (d\<lparr>outbox := mark_rows [e] (outbox d)\<rparr>) = 0"
    using unpublished_count_mark [OF assms(1), of "[e]" 10 "[]"] assms(2) by simp
  then show ?thesis by (simp add: unpublished_count_def unpublished_batch_def)
qed

text \<open>The relays of \<open>main\<close> tick one after the other: the first publishes the event.\<close>

lemma relays_round:
  assumes "faults w = []" "locked w = []" "unpublished_batch 10 [] (committed w) = [e]"
    and "valid_row e" "oe_AggregateType e \<noteq> ''''" "distinct (outbox_ids_of (committed w))"
  obtains w' where "fold (\<lambda>r w. snd (relay_loop r Background [Tick] w)) (main_relays (mem_libs enc)) w = w'"
    "faults w' = []" "locked w' = []" "committed w' = (committed w)\<lparr>outbox := mark_rows [e] (outbox (committed w))\<rparr>"
    "mj_stored (bus w') = mj_stored (bus w) @ [message_of e]" "mj_acked (bus w') = mj_acked (bus w)"
proof -
  obtain w1 where w1: "relay_loop (pg_relay mem_publish 10) Background [Tick] w = (False, w1)" "faults w1 = []" "locked w1 = []"
    "committed w1 = (committed w)\<lparr>outbox := mark_rows [e] (outbox (committed w))\<rparr>"
    "mj_stored (bus w1) = mj_stored (bus w) @ [message_of e]" "mj_acked (bus w1) = mj_acked (bus w)"
    by (rule tick_one [OF assms])
  have none: "unpublished_batch 10 [] (committed w1) = []"
    unfolding w1(4) by (rule unpublished_after_mark [OF assms(6,3)])
  obtain w2 where w2: "relay_loop (pg_relay mem_publish 10) Background [Tick] w1 = (False, w2)" "faults w2 = []" "locked w2 = []"
    "committed w2 = committed w1" "bus w2 = bus w1"
    by (rule tick_none [OF w1(2,3) none])
  have none2: "unpublished_batch 10 [] (committed w2) = []" using none w2(4) by simp
  obtain w3 where w3: "relay_loop (pg_relay mem_publish 10) Background [Tick] w2 = (False, w3)" "faults w3 = []" "locked w3 = []"
    "committed w3 = committed w2" "bus w3 = bus w2"
    by (rule tick_none [OF w2(2,3) none2])
  have "main_relays (mem_libs enc) = [pg_relay mem_publish 10, pg_relay mem_publish 10, pg_relay mem_publish 10]"
    by (simp add: main_relays_def numeral_3_eq_3)
  with w1 w2 w3 show thesis by (intro that [of w3]) (simp_all del: relay_loop.simps)
qed

section \<open>The turn of the subscriber\<close>

lemma turn_one:
  assumes "faults w = []" "locked w = []" "all_acked j0" "mj_stored (bus w) = mj_stored j0 @ [message_of e]"
    and "mj_acked (bus w) = mj_acked j0" "valid_row e" "\<not> refused e (committed w)"
  obtains w' where "fetch_turn mem_jetstream (app_handler (mem_libs enc)) () w = w'" "faults w' = []" "locked w' = []"
    "committed w' = project_db enc e (committed w)" "mj_stored (bus w') = mj_stored (bus w)" "all_acked (bus w')"
proof -
  let ?n = "length (mj_stored j0)" and ?x = "snd (message_of e)"
  let ?m = "(?n, ?x)"
  have en: "enumerate 0 (map snd (mj_stored (bus w))) = enumerate 0 (map snd (mj_stored j0)) @ [?m]"
    by (simp add: assms(4) enumerate_append_eq)
  have new: "?m \<notin> set (enumerate 0 (map snd (mj_stored j0)))" by (auto simp: in_set_enumerate_eq)
  have old: "filter (\<lambda>m. m \<notin> set (mj_acked j0)) (enumerate 0 (map snd (mj_stored j0))) = []"
    using assms(3) by (simp add: all_acked_def filter_empty_conv)
  have msgs: "filter (\<lambda>m. m \<notin> set (mj_acked (bus w))) (enumerate 0 (map snd (mj_stored (bus w)))) = [?m]"
    using new assms(3) old by (simp add: en assms(5) all_acked_def)
  have fetch: "js_Fetch mem_jetstream () 10 (bus w) = (Inr [?m], bus w)"
    using msgs by (simp add: mem_jetstream_def)
  have dec: "unmarshal_outbox (js_Data mem_jetstream ?m) zero_outbox = Inr e"
    using valid_row_message [OF assms(6)] by (simp add: mem_jetstream_def)
  obtain w1 where run: "deliver wrap_permanent four_tries enc e w = (None, w1)" "faults w1 = []"
    "committed w1 = project_db enc e (committed w)"
    using deliver_nofault [OF four_tries_ok assms(1) valid_row_good [OF assms(6)], of enc] assms(7) by auto
  have out: "outside w1 = outside w" by (rule deliver_outside [OF four_tries_still run(1)])
  then have b: "bus w1 = bus w" "locked w1 = []" using world_bus [of w1 w] assms(2) by (simp_all add: outside_def)
  have h: "app_handler (mem_libs enc) Background e w = (None, w1)" using run(1) by (simp add: deliver_app)
  define w2 where "w2 = w1\<lparr>bus := (bus w1)\<lparr>mj_acked := ?m # mj_acked (bus w1)\<rparr>\<rparr>"
  have "w\<lparr>bus := bus w\<rparr> = w" by simp
  then have "fetch_turn mem_jetstream (app_handler (mem_libs enc)) () w = w2"
    using fetch dec h by (simp add: fetch_turn_def w2_def) (simp add: mem_jetstream_def)
  moreover have "all_acked (bus w2)"
    using assms(3,5) en b(1) by (auto simp: all_acked_def w2_def)
  ultimately show thesis using run b by (intro that [of w2]) (simp_all add: w2_def)
qed

section \<open>One round\<close>

lemma round_one:
  assumes "faults w = []" "locked w = []" "unpublished_batch 10 [] (committed w) = [e]" "all_acked (bus w)"
    and "valid_row e" "oe_AggregateType e \<noteq> ''''" "distinct (outbox_ids_of (committed w))" "\<not> refused e (committed w)"
  obtains w' where "background_round (mem_libs enc) (main_relays (mem_libs enc)) () w = w'" "faults w' = []" "locked w' = []"
    "committed w' = project_db enc e ((committed w)\<lparr>outbox := mark_rows [e] (outbox (committed w))\<rparr>)" "all_acked (bus w')"
proof -
  obtain w1 where w1: "fold (\<lambda>r w. snd (relay_loop r Background [Tick] w)) (main_relays (mem_libs enc)) w = w1"
    "faults w1 = []" "locked w1 = []" "committed w1 = (committed w)\<lparr>outbox := mark_rows [e] (outbox (committed w))\<rparr>"
    "mj_stored (bus w1) = mj_stored (bus w) @ [message_of e]" "mj_acked (bus w1) = mj_acked (bus w)"
    by (rule relays_round [OF assms(1-3,5-7)])
  have ref: "\<not> refused e (committed w1)"
    using assms(8) by (simp add: w1(4) refused_def marked_def view_version_def view_of_def)
  obtain w2 where "fetch_turn mem_jetstream (app_handler (mem_libs enc)) () w1 = w2" "faults w2 = []" "locked w2 = []"
    "committed w2 = project_db enc e (committed w1)" "all_acked (bus w2)"
    by (rule turn_one [OF w1(2,3) assms(4) w1(5,6) assms(5) ref])
  with w1(1,4) show thesis by (intro that) (simp_all add: background_round_def)
qed

section \<open>Commands in the world\<close>

lemma CreateProductHandler_outside:
  assumes "CreateProductHandler_Handle f i now c cmd s = (r, s')"
  shows "outside s' = outside s"
proof -
  have "WithTransaction (create_product_tx f i now cmd) c s = (r, s')"
    using assms by (auto simp: CreateProductHandler_Handle_def split: prod.splits option.splits)
  then show ?thesis
    by (rule WithTransaction_outside) (rule same_outside_outside, rule create_product_tx_frame)
qed

lemma UpdateProductHandler_outside:
  assumes "UpdateProductHandler_Handle f i now c cmd s = (r, s')"
  shows "outside s' = outside s"
  using assms unfolding UpdateProductHandler_Handle_def
  by (rule WithTransaction_outside) (rule same_outside_outside, rule update_product_tx_frame)

lemma world_outside: "outside w' = outside w \<Longrightarrow> bus w' = bus (w :: 'j world) \<and> locked w' = locked w"
  using world_bus by (auto simp: outside_def)

lemma no_snapshot_between:
  assumes "ar_version a \<in> {1, 2}"
  shows "snapshots_after snapshotFrequency m a d = []"
  using assms by (auto simp: snapshots_after_def shouldSnapshot_def snapshotFrequency_def split: sum.split)

text \<open>What the projection makes of the two events of one product.\<close>

lemma project_created:
  assumes "event_row_of (created_event i t cmd) = Inr r" "row_sized r" "product_views d = []" "processed_events d = []"
    and "varchar255 (cp_Name cmd)" "\<And>k. enc (cp_Price cmd) = Inr k \<Longrightarrow> int4 k"
  shows "project_db enc r d = d\<lparr>processed_events := [(i, ''ProductProjection'')], product_views :=
    (case enc (cp_Price cmd) of Inl _ \<Rightarrow> []
     | Inr k \<Rightarrow> [\<lparr>vr_id = cp_ID cmd, vr_name = cp_Name cmd, vr_price = k, vr_version = 1, vr_created_at = t, vr_updated_at = t\<rparr>])\<rparr>"
proof -
  note fld = event_row_of_fields [OF assms(1)] and good = event_row_good [OF assms(1,2)]
  have data: "event_data r = body (created_event i t cmd)" using good by simp
  show ?thesis
    using fld assms(3-6)
    by (auto simp: project_db_def marked_def view_version_def view_of_def apply_event_def view_stmt_def mark_db_def data
        run_stmt_def created_event_def event_accessors int4_def Let_def split: sum.split)
qed

lemma project_updated:
  assumes "event_row_of (updated_event i t cmd 2) = Inr r" "row_sized r"
    and "product_views d = [row]" "vr_id row = up_ID cmd" "vr_version row = 1" "processed_events d = [(i1, ''ProductProjection'')]"
    and "i1 \<noteq> i" "varchar255 (up_Name cmd)" "\<And>k. enc (up_Price cmd) = Inr k \<Longrightarrow> int4 k"
  shows "product_views (project_db enc r d) =
    (case enc (up_Price cmd) of Inl _ \<Rightarrow> [row]
     | Inr k \<Rightarrow> [row\<lparr>vr_name := up_Name cmd, vr_price := k, vr_version := 2, vr_updated_at := t\<rparr>])"
proof -
  note fld = event_row_of_fields [OF assms(1)] and good = event_row_good [OF assms(1,2)]
  have data: "event_data r = body (updated_event i t cmd 2)" using good by simp
  show ?thesis
    using fld assms(3-9)
    by (auto simp: project_db_def marked_def view_version_def view_of_def apply_event_def view_stmt_def mark_db_def data
        run_stmt_def updated_event_def event_accessors int4_def Let_def ProductUpdatedEventType_def
        ProductCreatedEventType_def split: sum.split)
qed

section \<open>The run of \<open>main\<close>\<close>

definition start_world :: "mem_js world" where
  "start_world = \<lparr>committed = empty_db, cur_tx = None, faults = [], locked = [], bus = mem_js_empty\<rparr>"

definition main_create :: "uuid \<Rightarrow> CreateProductCommand" where
  "main_create a = \<lparr>cp_ID = a, cp_Name = ''CQRS-Powered Widget'', cp_Price = price_199_99\<rparr>"

definition main_update :: "uuid \<Rightarrow> UpdateProduct" where
  "main_update a = \<lparr>up_ID = a, up_Name = ''CQRS-Powered Widget (Updated)'', up_Price = price_200_01\<rparr>"

lemma main_commands [simp]:
  "cp_ID (main_create a) = a" "cp_Name (main_create a) = ''CQRS-Powered Widget''" "cp_Price (main_create a) = price_199_99"
  "up_ID (main_update a) = a" "up_Name (main_update a) = ''CQRS-Powered Widget (Updated)''" "up_Price (main_update a) = price_200_01"
  by (simp_all add: main_create_def main_update_def)

lemma main_commands_valid:
  "valid_data (cp_Name (main_create a)) (cp_Price (main_create a))"
  "valid_data (up_Name (main_update a)) (up_Price (main_update a))"
  by (simp_all add: valid_data_def price_199_99_def price_200_01_def)

lemma main_prices:
  "cp_Price (main_create a) = Finite (879565321755689 / 4398046511104)"
  "up_Price (main_update a) = Finite (879653282685911 / 4398046511104)"
  by (simp_all add: price_199_99_def price_200_01_def)

abbreviation mem_round :: "(float64 \<Rightarrow> error + int) \<Rightarrow> mem_js world \<Rightarrow> mem_js world" where
  "mem_round enc \<equiv> background_round (mem_libs enc) (main_relays (mem_libs enc)) ()"

text \<open>The view after the first event.\<close>

definition first_views :: "(float64 \<Rightarrow> error + int) \<Rightarrow> uuid \<Rightarrow> time \<Rightarrow> view_row list" where
  "first_views enc a t =
     (case enc price_199_99 of Inl _ \<Rightarrow> []
      | Inr k \<Rightarrow> [\<lparr>vr_id = a, vr_name = ''CQRS-Powered Widget'', vr_price = k, vr_version = 1,
                  vr_created_at = t, vr_updated_at = t\<rparr>])"

lemma events_of_main:
  assumes "event_row_of e = Inr r" "e \<in> {created_event i t cmd, updated_event i t cmd' v}"
  shows "oe_AggregateType r \<noteq> ''''" "oe_EventID r = i" "registered e"
  using event_row_of_fields [OF assms(1)] assms(2)
  by (auto simp: AggregateType_def created_event_def updated_event_def ProductAggregateType_def EventID_def)

lemma phase_create:
  assumes "year_ok t" "\<And>k. enc price_199_99 = Inr k \<Longrightarrow> int4 k"
  obtains w1 w2 r where
    "CreateProductHandler_Handle snapshotFrequency i t Background (main_create a) start_world = (None, w1)"
    "mem_round enc w1 = w2" "faults w2 = []" "locked w2 = []" "all_acked (bus w2)"
    "event_store (committed w2) = [r]" "oe_EventID r = i" "oe_AggregateID r = a"
    "outbox (committed w2) = [\<lparr>ob_event = r, published = True\<rparr>]"
    "snapshots (committed w2) = []" "processed_events (committed w2) = [(i, ''ProductProjection'')]"
    "product_views (committed w2) = first_views enc a t" "write_inv (committed w2)"
proof -
  let ?e = "created_event i t (main_create a)"
  have "\<exists>r s'. CreateProductHandler_Handle snapshotFrequency i t Background (main_create a) start_world = (None, s') \<and>
      faults s' = [] \<and> cur_tx s' = None \<and> event_row_of ?e = Inr r \<and>
      committed s' = (append_rows [r] (committed start_world))\<lparr>snapshots := snapshots (committed start_world) @
        snapshots_after snapshotFrequency MarshalJSON (created_aggregate i t (main_create a)) (committed start_world)\<rparr>"
    by (rule CreateProduct_success [OF _ _ main_commands_valid(1) main_prices(1) assms(1)])
       (simp_all add: start_world_def write_inv_empty)
  then obtain r w1 where w1: "CreateProductHandler_Handle snapshotFrequency i t Background (main_create a) start_world = (None, w1)"
    "faults w1 = []" "event_row_of ?e = Inr r"
    "committed w1 = (append_rows [r] empty_db)\<lparr>snapshots := []\<rparr>"
    using no_snapshot_between [of "created_aggregate i t (main_create a)"] by (auto simp: start_world_def)
  have d1: "committed w1 = empty_db\<lparr>event_store := [r], outbox := [\<lparr>ob_event = r, published = False\<rparr>]\<rparr>"
    using w1(4) by (simp add: append_rows_def empty_db_def)
  have out: "bus w1 = mem_js_empty" "locked w1 = []"
    using world_outside [OF CreateProductHandler_outside [OF w1(1)]] by (simp_all add: start_world_def)
  have inv1: "write_inv (committed w1)"
    using CreateProductHandler_keeps [OF w1(1)] write_inv_empty by (simp add: start_world_def)
  then have valid: "valid_row r" by (simp add: d1 write_inv_def store_wf_def)
  then have sized: "row_sized r" by (simp add: valid_row_def)
  note fld = event_row_of_fields [OF w1(3)]
  have batch: "unpublished_batch 10 [] (committed w1) = [r]" by (simp add: d1 unpublished_batch_def)
  have notref: "\<not> refused r (committed w1)" using fld(3) by (simp add: refused_def d1 view_version_def view_of_def)
  have acked: "all_acked (bus w1)" by (simp add: out(1) all_acked_def mem_js_empty_def)
  have dist: "distinct (outbox_ids_of (committed w1))" by (simp add: d1)
  note topic = events_of_main(1) [OF w1(3), of i t "main_create a"]
  obtain w2 where w2: "mem_round enc w1 = w2" "faults w2 = []" "locked w2 = []"
    "committed w2 = project_db enc r ((committed w1)\<lparr>outbox := mark_rows [r] (outbox (committed w1))\<rparr>)" "all_acked (bus w2)"
    by (rule round_one [OF w1(2) out(2) batch acked valid _ dist notref]) (use topic in auto)
  have "committed w2 = ((committed w1)\<lparr>outbox := mark_rows [r] (outbox (committed w1))\<rparr>)
      \<lparr>processed_events := [(i, ''ProductProjection'')], product_views := first_views enc a t\<rparr>"
    unfolding w2(4) using project_created [OF w1(3) sized, of _ enc] assms(2)
    by (simp add: d1 varchar255_def first_views_def split: sum.split)
  then have d2: "committed w2 = empty_db\<lparr>event_store := [r], outbox := [\<lparr>ob_event = r, published = True\<rparr>],
      processed_events := [(i, ''ProductProjection'')], product_views := first_views enc a t\<rparr>"
    by (simp add: d1 mark_rows_def)
  then have "write_inv (committed w2)"
    using write_inv_cong(1) [of "committed w2" "committed w1"] inv1 by (simp add: d1)
  moreover have "oe_EventID r = i" "oe_AggregateID r = a" using fld(1,2) by simp_all
  ultimately show thesis by (intro that [of w1 w2 r, OF w1(1) w2(1-3,5)]) (simp_all add: d2)
qed

lemma phase_update:
  assumes "year_ok t" "i1 \<noteq> i" "\<And>k. enc price_200_01 = Inr k \<Longrightarrow> int4 k"
    and "faults w = []" "locked w = []" "all_acked (bus w)" "write_inv (committed w)"
    and "event_store (committed w) = [r1]" "oe_EventID r1 = i1" "oe_AggregateID r1 = a"
    and "outbox (committed w) = [\<lparr>ob_event = r1, published = True\<rparr>]" "snapshots (committed w) = []"
    and "processed_events (committed w) = [(i1, ''ProductProjection'')]"
    and "product_views (committed w) = [row]" "vr_id row = a" "vr_version row = 1"
  obtains w1 w2 where
    "UpdateProductHandler_Handle snapshotFrequency i t Background (main_update a) w = (None, w1)"
    "mem_round enc w1 = w2" "faults w2 = []"
    "product_views (committed w2) = (case enc price_200_01 of Inl _ \<Rightarrow> [row]
       | Inr k \<Rightarrow> [row\<lparr>vr_name := ''CQRS-Powered Widget (Updated)'', vr_price := k, vr_version := 2, vr_updated_at := t\<rparr>])"
proof -
  let ?cmd = "main_update a" and ?d = "committed w"
  have len: "stream_len a ?d = 1" using assms(8,10) by (simp add: stream_len_def stream_rows_def)
  obtain p where p: "ProductRepository_Load TxCtx (up_ID ?cmd) (begun w) = (Inr p, begun w)"
    "ar_version p = stream_len (up_ID ?cmd) ?d"
    by (rule Load_without_snapshot [of "begun w" "up_ID ?cmd" TxCtx]) (use assms in auto)
  have v: "ar_version p = 1" using p(2) len by simp
  have fresh: "i \<notin> oe_EventID ` set (event_store ?d)" using assms(2,8,9) by auto
  have small: "int4 (ar_version p + 1)" by (simp add: v int4_def)
  from UpdateProduct_success [OF assms(4,7) main_commands_valid(2) main_prices(2) assms(1) fresh p small,
      of snapshotFrequency Background]
  obtain r w1 where w1: "UpdateProductHandler_Handle snapshotFrequency i t Background ?cmd w = (None, w1)"
    "faults w1 = []" "event_row_of (updated_event i t ?cmd 2) = Inr r"
    "committed w1 = (append_rows [r] ?d)\<lparr>snapshots := snapshots ?d @
       snapshots_after snapshotFrequency MarshalJSON (saved_update i t ?cmd p) ?d\<rparr>"
    by (auto simp: v)
  note fld = event_row_of_fields [OF w1(3)]
  have "snapshots_after snapshotFrequency MarshalJSON (saved_update i t ?cmd p) ?d = []"
    by (rule no_snapshot_between) (simp add: saved_update_def updated_aggregate_def v)
  then have d1: "event_store (committed w1) = [r1, r]"
    "outbox (committed w1) = [\<lparr>ob_event = r1, published = True\<rparr>, \<lparr>ob_event = r, published = False\<rparr>]"
    "processed_events (committed w1) = [(i1, ''ProductProjection'')]" "product_views (committed w1) = [row]"
    using w1(4) assms(8,11,13,14) by (simp_all add: append_rows_def)
  have out: "bus w1 = bus w" "locked w1 = []"
    using world_outside [OF UpdateProductHandler_outside [OF w1(1)]] assms(5) by simp_all
  have "write_inv (committed w1)" using UpdateProductHandler_keeps [OF w1(1)] assms(7) by simp
  then have valid: "valid_row r" by (simp add: d1(1) write_inv_def store_wf_def)
  then have sized: "row_sized r" by (simp add: valid_row_def)
  have batch: "unpublished_batch 10 [] (committed w1) = [r]" by (simp add: d1(2) unpublished_batch_def)
  have ref: "\<not> refused r (committed w1)"
    using fld assms(15,16) by (simp add: refused_def d1(4) view_version_def view_of_def)
  have acked: "all_acked (bus w1)" by (simp add: out(1) assms(6))
  have dist: "distinct (outbox_ids_of (committed w1))" using fld assms(2,9) by (simp add: d1(2))
  note topic = events_of_main(1) [OF w1(3), of i t _ ?cmd]
  let ?m = "(committed w1)\<lparr>outbox := mark_rows [r] (outbox (committed w1))\<rparr>"
  obtain w2 where w2: "mem_round enc w1 = w2" "faults w2 = []" "committed w2 = project_db enc r ?m"
    by (rule round_one [OF w1(2) out(2) batch acked valid _ dist ref]) (use topic in auto)
  have "product_views (committed w2) = (case enc (up_Price ?cmd) of Inl _ \<Rightarrow> [row]
       | Inr k \<Rightarrow> [row\<lparr>vr_name := up_Name ?cmd, vr_price := k, vr_version := 2, vr_updated_at := t\<rparr>])"
    unfolding w2(3)
    by (rule project_updated [OF w1(3) sized]) (use d1 assms(2,3,15,16) in \<open>simp_all add: varchar255_def\<close>)
  then show thesis by (intro that [OF w1(1) w2(1,2)]) (simp only: main_commands)
qed

section \<open>What the simulation logs\<close>

definition truncating_enc :: "float64 \<Rightarrow> error + int" where
  "truncating_enc p = (case p of Finite q \<Rightarrow> Inr \<lfloor>q\<rfloor> | _ \<Rightarrow> Inl DriverError)"


lemma encoded_prices:
  "truncating_enc price_199_99 = Inr 199" "truncating_enc price_200_01 = Inr 200"
  "lossless_enc price_199_99 = Inl DriverError" "lossless_enc price_200_01 = Inl DriverError"
proof -
  have "\<lfloor>(879565321755689 / 4398046511104 :: rat)\<rfloor> = 199" "\<lfloor>(879653282685911 / 4398046511104 :: rat)\<rfloor> = 200"
    by (simp_all add: floor_eq_iff)
  then show "truncating_enc price_199_99 = Inr 199" "truncating_enc price_200_01 = Inr 200"
    "lossless_enc price_199_99 = Inl DriverError" "lossless_enc price_200_01 = Inl DriverError"
    by (simp_all add: truncating_enc_def price_199_99_def price_200_01_def)
qed


end
