(* ===== verification/Sample_Run.thy ===== *)
theory Sample_Run
  imports Simulation
begin

text \<open>
  The steps of the machine of theory \<open>System\<close> that the first half of the simulated work takes: a
  client creates a product, a relay fetches and finishes a batch, the subscriber takes a turn. They
  lead to a reachable state in which the event is stored, published, acknowledged and shown.
\<close>

text \<open>A relay that is inside a batch of one event publishes and marks it.\<close>

lemma publish_finish:
  assumes "app_held y = xs @ (k, [e]) # zs" "valid_row e" "oe_AggregateType e \<noteq> ''''" "distinct (outbox_ids_of (app_db y))"
    and "unpublished_batch 10 ids (app_db y) = [e]"
  obtains y' where "app_step f 10 (mem_libs enc) y y'" "app_held y' = xs @ zs"
    "app_db y' = (app_db y)\<lparr>outbox := mark_rows [e] (outbox (app_db y))\<rparr>" "app_pending y' = app_pending y"
    "mj_stored (app_bus y') = mj_stored (app_bus y) @ [message_of e]" "mj_acked (app_bus y') = mj_acked (app_bus y)"
proof -
  let ?t = "finish_session (relays_of y) []"
  obtain j where j: "mem_publish Background (oe_AggregateType e) e (app_bus y) = (None, j)"
    "mj_stored j = mj_stored (app_bus y) @ [message_of e]" "mj_acked j = mj_acked (app_bus y)"
    by (rule mem_publish_valid [OF assms(2)])
  have t: "faults ?t = []" by (simp add: finish_session_def)
  have "processor (on_bus mem_publish) Background [e] ?t = (None, ?t\<lparr>bus := j\<rparr>)"
    using j(1) assms(3) by (simp add: processor_def on_bus_def)
  with batch_rest_nofault [OF t finish_session_simps(3) _ processor_quiet [of mem_publish], of Background 10 ids "?t\<lparr>bus := j\<rparr>"]
    assms(4,5) t
  obtain w where w: "batch_rest (processor (on_bus mem_publish)) Background [e] ?t = (None, w)"
    "session.more w = session.more (?t\<lparr>bus := j\<rparr>)" "committed w = (app_db y)\<lparr>outbox := mark_rows [e] (outbox (app_db y))\<rparr>"
    by auto
  have bus: "bus w = j" using world_bus [OF w(2)] by simp
  have "app_step f 10 (mem_libs enc) y (y\<lparr>app_db := committed w, app_held := xs @ zs, app_bus := bus w\<rparr>)"
    by (rule app_step.finish [OF assms(1)]) (use w(1) in simp_all)
  from that [OF this] w(3) bus j(2,3) show thesis by simp
qed

text \<open>A relay fetches the only event that no other relay holds, publishes and marks it.\<close>

lemma publish_steps:
  assumes "k \<notin> fst ` set (app_held y)" "valid_row e" "oe_AggregateType e \<noteq> ''''" "distinct (outbox_ids_of (app_db y))"
    and "unpublished_batch 10 (map oe_EventID (held_events (relays_of y))) (app_db y) = [e]"
  obtains y' where "app_step f 10 (mem_libs enc) y (y\<lparr>app_held := (k, [e]) # app_held y\<rparr>)"
    "app_step f 10 (mem_libs enc) (y\<lparr>app_held := (k, [e]) # app_held y\<rparr>) y'" "app_held y' = app_held y"
    "app_db y' = (app_db y)\<lparr>outbox := mark_rows [e] (outbox (app_db y))\<rparr>" "app_pending y' = app_pending y"
    "mj_stored (app_bus y') = mj_stored (app_bus y) @ [message_of e]" "mj_acked (app_bus y') = mj_acked (app_bus y)"
proof -
  let ?l = "map oe_EventID (held_events (relays_of y))" and ?y1 = "y\<lparr>app_held := (k, [e]) # app_held y\<rparr>"
  let ?s = "fetch_session (relays_of y) []"
  have s: "faults ?s = []" "locked ?s = ?l" "committed ?s = app_db y" by (simp_all add: fetch_session_def)
  have "pool_Begin ?s = (None, begun ?s)" using s(1) by (simp add: pool_Begin_def)
  moreover have "fetchAndLockUnpublishedInTx 10 (begun ?s) = (Inr [e], begun ?s)"
    using assms(5) s by (simp add: fetchAndLockUnpublishedInTx_def tx_Query_def tx_view_def)
  ultimately have fetch: "app_step f 10 (mem_libs enc) y ?y1" by (rule app_step.fetch [OF assms(1)])
  show thesis
    by (rule publish_finish [of ?y1 "[]" k e "app_held y" ?l f enc]) (use assms(2-5) that [OF fetch] in simp_all)
qed

lemma app_published:
  assumes "app_reachable f 10 (mem_libs enc) j0 y" "app_held y = []"
    and "unpublished_batch 10 [] (app_db y) = [e]" "valid_row e" "oe_AggregateType e \<noteq> ''''"
    and "distinct (outbox_ids_of (app_db y))"
  obtains y' where "app_reachable f 10 (mem_libs enc) j0 y'" "app_held y' = []"
    "app_db y' = (app_db y)\<lparr>outbox := mark_rows [e] (outbox (app_db y))\<rparr>"
    "mj_stored (app_bus y') = mj_stored (app_bus y) @ [message_of e]" "mj_acked (app_bus y') = mj_acked (app_bus y)"
proof (rule publish_steps [of 0 y e f enc])
  fix y'
  assume "app_step f 10 (mem_libs enc) y (y\<lparr>app_held := (0, [e]) # app_held y\<rparr>)"
    "app_step f 10 (mem_libs enc) (y\<lparr>app_held := (0, [e]) # app_held y\<rparr>) y'"
  then have "app_reachable f 10 (mem_libs enc) j0 y'" by (rule app_reachable.step [OF app_reachable.step [OF assms(1)]])
  then show "app_held y' = app_held y \<Longrightarrow>
      app_db y' = (app_db y)\<lparr>outbox := mark_rows [e] (outbox (app_db y))\<rparr> \<Longrightarrow>
      mj_stored (app_bus y') = mj_stored (app_bus y) @ [message_of e] \<Longrightarrow>
      mj_acked (app_bus y') = mj_acked (app_bus y) \<Longrightarrow> thesis"
    using assms(2) that by simp
qed (use assms in \<open>simp_all add: held_events_def\<close>)

text \<open>The subscriber takes a turn.\<close>

lemma app_turned:
  assumes "app_reachable f 10 (mem_libs enc) j0 y" "all_acked j1" "mj_stored (app_bus y) = mj_stored j1 @ [message_of e]"
    and "mj_acked (app_bus y) = mj_acked j1" "valid_row e" "\<not> refused e (app_db y)"
  obtains y' where "app_reachable f 10 (mem_libs enc) j0 y'" "app_db y' = project_db enc e (app_db y)"
    "mj_stored (app_bus y') = mj_stored (app_bus y)" "all_acked (app_bus y')"
proof -
  let ?w = "app_world y []"
  have w: "faults ?w = []" "locked ?w = []" by (simp_all add: app_world_def)
  obtain w3 where w3: "fetch_turn mem_jetstream (app_handler (mem_libs enc)) () ?w = w3"
    "committed w3 = project_db enc e (committed ?w)" "mj_stored (bus w3) = mj_stored (bus ?w)" "all_acked (bus w3)"
    using turn_one [OF w assms(2), of e enc] assms(3-) by auto
  have "app_step f 10 (mem_libs enc) y (y\<lparr>app_db := committed w3, app_bus := bus w3\<rparr>)"
    by (rule app_step.turn) (use w3(1) in simp)
  with assms(1) have "app_reachable f 10 (mem_libs enc) j0 (y\<lparr>app_db := committed w3, app_bus := bus w3\<rparr>)"
    by (rule app_reachable.step)
  then show thesis by (rule that) (use w3 in simp_all)
qed

section \<open>States of the run\<close>

text \<open>The event is stored.\<close>

abbreviation first_db :: "OutboxEvent \<Rightarrow> db" where
  "first_db r \<equiv> empty_db\<lparr>event_store := [r], outbox := [\<lparr>ob_event = r, published = False\<rparr>]\<rparr>"

lemma sample_created_step:
  assumes "year_ok t"
  obtains r where "app_step snapshotFrequency 10 (mem_libs enc)
      \<lparr>app_db = empty_db, app_pending = (\<lambda>_. None), app_held = [], app_bus = mem_js_empty\<rparr>
      \<lparr>app_db = first_db r, app_pending = (\<lambda>_. None), app_held = [], app_bus = mem_js_empty\<rparr>"
    "event_row_of (created_event i t (main_create a)) = Inr r" "write_inv (first_db r)" "valid_row r" "oe_AggregateType r \<noteq> ''''"
proof -
  let ?cmd = "main_create a" and ?s = "session_on empty_db []"
  let ?start = "\<lparr>app_db = empty_db, app_pending = (\<lambda>_. None), app_held = [], app_bus = mem_js_empty\<rparr>"
  have "\<exists>r s'. CreateProductHandler_Handle snapshotFrequency i t Background ?cmd ?s = (None, s') \<and>
      faults s' = [] \<and> cur_tx s' = None \<and> event_row_of (created_event i t ?cmd) = Inr r \<and>
      committed s' = (append_rows [r] (committed ?s))\<lparr>snapshots := snapshots (committed ?s) @
        snapshots_after snapshotFrequency MarshalJSON (created_aggregate i t ?cmd) (committed ?s)\<rparr>"
    by (rule CreateProduct_success [OF _ _ main_commands_valid(1) main_prices(1) assms(1)])
       (simp_all add: write_inv_empty)
  then obtain r s' where h: "CreateProductHandler_Handle snapshotFrequency i t Background ?cmd ?s = (None, s')"
    "event_row_of (created_event i t ?cmd) = Inr r" "committed s' = (append_rows [r] empty_db)\<lparr>snapshots := []\<rparr>"
    using no_snapshot_between [of "created_aggregate i t ?cmd"] by auto
  let ?d = "empty_db\<lparr>event_store := [r], outbox := [\<lparr>ob_event = r, published = False\<rparr>]\<rparr>"
  have d: "committed s' = ?d" using h(3) by (simp add: append_rows_def empty_db_def)
  have "write_inv ?d" using CreateProductHandler_keeps [OF h(1)] write_inv_empty by (simp add: d)
  then have valid: "valid_row r" by (simp add: write_inv_def store_wf_def)
  have topic: "oe_AggregateType r \<noteq> ''''" using events_of_main(1) [OF h(2), of i t ?cmd] by auto
  have "cmd_step snapshotFrequency (clients_of ?start) ((clients_of ?start)\<lparr>sys_db := committed s'\<rparr>)"
    by (rule cmd_step.create) (use h(1) in simp)
  from app_step.command [OF this] have "app_step snapshotFrequency 10 (mem_libs enc) ?start (?start\<lparr>app_db := ?d\<rparr>)" by (simp add: d)
  with that [OF _ h(2) \<open>write_inv ?d\<close> valid topic] show thesis by simp
qed

lemma sample_stored_state:
  assumes "year_ok t"
  obtains y r where "app_reachable snapshotFrequency 10 (mem_libs enc) mem_js_empty y" "app_db y = first_db r"
    "event_row_of (created_event i t (main_create a)) = Inr r" "valid_row r" "oe_AggregateType r \<noteq> ''''"
    "app_held y = []" "app_bus y = mem_js_empty"
proof (rule sample_created_step [OF assms, of enc i a])
  fix r
  assume step: "app_step snapshotFrequency 10 (mem_libs enc)
      \<lparr>app_db = empty_db, app_pending = (\<lambda>_. None), app_held = [], app_bus = mem_js_empty\<rparr>
      \<lparr>app_db = first_db r, app_pending = (\<lambda>_. None), app_held = [], app_bus = mem_js_empty\<rparr>"
    and r: "event_row_of (created_event i t (main_create a)) = Inr r" "valid_row r" "oe_AggregateType r \<noteq> ''''"
  show thesis by (rule that [OF app_reachable.step [OF app_reachable.start step] _ r]) simp_all
qed

text \<open>The event is in the stream; the subscriber has not seen it.\<close>

lemma sample_published_state:
  assumes "year_ok t"
  obtains y r where "app_reachable snapshotFrequency 10 (mem_libs enc) mem_js_empty y"
    "app_db y = empty_db\<lparr>event_store := [r], outbox := [\<lparr>ob_event = r, published = True\<rparr>]\<rparr>"
    "event_row_of (created_event i t (main_create a)) = Inr r" "valid_row r" "oe_AggregateType r \<noteq> ''''"
    "mj_stored (app_bus y) = [message_of r]" "mj_acked (app_bus y) = []"
proof (rule sample_stored_state [OF assms, of enc i a])
  fix y r
  assume reach: "app_reachable snapshotFrequency 10 (mem_libs enc) mem_js_empty y"
    and y: "app_db y = empty_db\<lparr>event_store := [r], outbox := [\<lparr>ob_event = r, published = False\<rparr>]\<rparr>"
    and row: "event_row_of (created_event i t (main_create a)) = Inr r" and valid: "valid_row r" "oe_AggregateType r \<noteq> ''''"
    and idle: "app_held y = []" "app_bus y = mem_js_empty"
  have facts: "unpublished_batch 10 [] (app_db y) = [r]" "distinct (outbox_ids_of (app_db y))"
    by (simp_all add: unpublished_batch_def y)
  obtain z where z: "app_reachable snapshotFrequency 10 (mem_libs enc) mem_js_empty z"
    "app_db z = (app_db y)\<lparr>outbox := mark_rows [r] (outbox (app_db y))\<rparr>"
    "mj_stored (app_bus z) = mj_stored (app_bus y) @ [message_of r]" "mj_acked (app_bus z) = mj_acked (app_bus y)"
    by (rule app_published [OF reach idle(1) facts(1) valid facts(2)])
  show thesis
    by (rule that [OF z(1) _ row valid]) (use z(2-) in \<open>simp_all add: y idle mark_rows_def mem_js_empty_def\<close>)
qed

text \<open>The event is acknowledged and shown.\<close>

lemma sample_app_state:
  assumes "year_ok t" "\<And>k. enc price_199_99 = Inr k \<Longrightarrow> int4 k"
  obtains y r where "app_reachable snapshotFrequency 10 (mem_libs enc) mem_js_empty y"
    "event_store (app_db y) = [r]" "oe_EventID r = i" "oe_AggregateID r = a" "event_row_of (created_event i t (main_create a)) = Inr r"
    "outbox (app_db y) = [\<lparr>ob_event = r, published = True\<rparr>]"
    "product_views (app_db y) = first_views enc a t"
    "mj_stored (app_bus y) = [message_of r]" "all_acked (app_bus y)"
proof (rule sample_published_state [OF assms(1), of enc i a])
  fix y r
  let ?d = "empty_db\<lparr>event_store := [r], outbox := [\<lparr>ob_event = r, published = True\<rparr>]\<rparr>"
  assume reach: "app_reachable snapshotFrequency 10 (mem_libs enc) mem_js_empty y" and y: "app_db y = ?d"
    and row: "event_row_of (created_event i t (main_create a)) = Inr r" and valid: "valid_row r"
    and b: "mj_stored (app_bus y) = [message_of r]" "mj_acked (app_bus y) = []"
  note fld = event_row_of_fields [OF row]
  have new: "\<not> refused r (app_db y)" using fld(3) by (simp add: y refused_def view_version_def view_of_def)
  have none: "all_acked mem_js_empty" "mj_stored mem_js_empty = []" "mj_acked mem_js_empty = []"
    by (simp_all add: all_acked_def mem_js_empty_def)
  have "project_db enc r ?d = ?d\<lparr>processed_events := [(i, ''ProductProjection'')], product_views := first_views enc a t\<rparr>"
    using project_created [OF row _, of ?d enc] valid assms(2)
    by (simp add: valid_row_def varchar255_def first_views_def split: sum.split)
  note shown = this
  obtain z where z: "app_reachable snapshotFrequency 10 (mem_libs enc) mem_js_empty z" "app_db z = project_db enc r (app_db y)"
    "mj_stored (app_bus z) = mj_stored (app_bus y)" "all_acked (app_bus z)"
    by (rule app_turned [OF reach none(1) _ _ valid new]) (use b none in simp_all)
  show thesis
    by (rule that [OF z(1) _ _ _ row]) (use z(2-) shown b fld(1,2) in \<open>simp_all add: y\<close>)
qed

text \<open>The event of these states fits the columns of the view when its price can be encoded.\<close>

lemma sample_event_fits:
  assumes "event_row_of (created_event i t (main_create a)) = Inr r" "valid_row r"
  shows "fits truncating_enc r"
proof -
  have "row_sized r" using assms(2) by (simp add: valid_row_def)
  then show ?thesis
    using event_row_good [OF assms(1)] event_row_of_fields(3,4) [OF assms(1)]
    by (simp add: fits_def varchar255_def int4_def created_event_def event_accessors encoded_prices)
qed

lemma sample_update_fits:
  assumes "event_row_of (updated_event i t (main_update a) 2) = Inr r" "valid_row r"
  shows "fits truncating_enc r"
proof -
  have "row_sized r" using assms(2) by (simp add: valid_row_def)
  then show ?thesis
    using event_row_good [OF assms(1)] event_row_of_fields(3,4) [OF assms(1)]
    by (simp add: fits_def varchar255_def int4_def updated_event_def event_accessors encoded_prices)
qed

end
