(* ===== verification/Schema.thy ===== *)
theory Schema
  imports System
begin

text \<open>
  The schema in every state of the application: the tables change through the statements of
  theory \<open>Postgres\<close> only, so whatever each statement keeps, every reachable state has. The
  instance is what \<open>schema.sql\<close> and \<open>sample/main.go\<close> declare: column types and keys.
\<close>

section \<open>What statements keep\<close>

definition stmt_stable :: "(db \<Rightarrow> bool) \<Rightarrow> bool" where
  "stmt_stable P \<longleftrightarrow> (\<forall>st d. P d \<longrightarrow> P (run_stmt st d))"

lemma stable_fold: "stmt_stable P \<Longrightarrow> P d \<Longrightarrow> P (fold run_stmt sts d)"
  by (induction sts arbitrary: d) (simp_all add: stmt_stable_def)

lemma stable_view: "stmt_stable P \<Longrightarrow> P (committed s) \<Longrightarrow> P (tx_view s)"
  by (simp add: tx_view_def stable_fold split: option.split)

lemma stable_WithTransaction:
  assumes "WithTransaction fn c s = (r, s')" "stmt_stable P" "P (committed s)"
    and "\<And>s r s'. fn TxCtx s = (r, s') \<Longrightarrow> P (committed s) \<Longrightarrow> P (committed s')"
  shows "P (committed s')"
  using assms(1)
proof (rule pg.tx_invariant [where P = P])
  show "P (committed s)" by (rule assms(3))
  show "\<And>s r s'. fn TxCtx s = (r, s') \<Longrightarrow> P (committed s) \<Longrightarrow> P (tx_view s) \<Longrightarrow>
      P (committed s') \<and> (r = None \<longrightarrow> tx_open s' \<longrightarrow> P (tx_view s'))"
    using assms(4) stable_view [OF assms(2)] by blast
qed

text \<open>A function that runs all its statements in the transaction does not change the tables itself.\<close>

lemma stable_framed:
  assumes "WithTransaction fn c s = (r, s')" "stmt_stable P" "P (committed s)"
    and "\<And>s r s'. fn TxCtx s = (r, s') \<Longrightarrow> same_outside s s'"
  shows "P (committed s')"
  by (rule stable_WithTransaction [OF assms(1-3)]) (use assms(4) same_outsideD(1) in metis)

section \<open>The projection\<close>

lemma stable_handler:
  assumes "ProductProjectionHandler_Handle enc c e s = (r, s')" "stmt_stable P" "P (committed s)"
  shows "P (committed s')"
proof -
  have ex: "P (committed s2)" if "pool_Exec st s1 = (x, s2)" "P (committed s1)" for st x s1 s2
    using pool_Exec_effect [OF that(1)] that(2) assms(2) by (auto simp: stmt_stable_def)
  from assms(1,3) show ?thesis
    by (auto simp: handler_defs split: if_splits sum.splits prod.splits dest: ex)
qed

lemma stable_project_tx:
  assumes "project_tx (productProjection enc) e c s = (r, s')" "stmt_stable P" "P (committed s)"
  shows "P (committed s')"
proof -
  obtain r1 s1 where h: "ProductProjectionHandler_Handle enc c e s = (r1, s1)" by fastforce
  have "P (committed s1)" by (rule stable_handler [OF h assms(2,3)])
  with assms(1) h show ?thesis
    by (auto simp: project_tx_def split: prod.splits option.splits dest!: MarkAsProcessed_frame same_outsideD(1))
qed

lemma stable_attempt:
  assumes "attempt permanent (productProjection enc) c e s = (r, s')" "stmt_stable P" "P (committed s)"
  shows "P (committed s')"
proof -
  obtain v s1 where v: "ProductViewRepository_GetVersion c (oe_AggregateID e) s = (v, s1)" by fastforce
  have s1: "P (committed s1)" using GetVersion_frame [OF v] same_outsideD(1) assms(3) by metis
  obtain r2 s2 where m: "WithTransaction (\<lambda>txCtx. MarkAsProcessed txCtx (oe_EventID e) ''ProductProjection'') c s1 = (r2, s2)"
    by fastforce
  obtain r3 s3 where p: "WithTransaction (project_tx (productProjection enc) e) c s1 = (r3, s3)" by fastforce
  have "P (committed s2)" by (rule stable_framed [OF m assms(2) s1]) (rule MarkAsProcessed_frame)
  moreover have "P (committed s3)"
    by (rule stable_WithTransaction [OF p assms(2) s1]) (rule stable_project_tx [OF _ assms(2)])
  moreover have "s' \<in> {s1, s2, s3}"
    using assms(1) v m p by (auto simp: attempt_def split: sum.splits if_splits option.splits)
  ultimately show ?thesis using s1 by auto
qed

lemma stable_retry_run:
  assumes "retry_run still op s r s'" "P (committed s)" "\<And>s r s'. op s = (r, s') \<Longrightarrow> P (committed s) \<Longrightarrow> P (committed s')"
  shows "P (committed s')"
  using assms(1,2)
proof (induction rule: retry_run.induct)
  case (again s e s1 s2 r s')
  then show ?case using assms(3) [OF again.hyps(1)] by (simp add: still_def)
qed (use assms(3) in blast)+

lemma stable_deliver:
  assumes "backoff_lib still permanent retry" "deliver permanent retry enc e s = (r, s')" "stmt_stable P" "P (committed s)"
  shows "P (committed s')"
proof -
  obtain b s1 where b: "IsProcessed Background (oe_EventID e) ''ProductProjection'' s = (b, s1)" by fastforce
  have s1: "P (committed s1)" using IsProcessed_frame [OF b] same_outsideD(1) assms(4) by metis
  obtain r2 s2 where r2: "retry 60000000000 (attempt permanent (productProjection enc) Background e) s1 = (r2, s2)" by fastforce
  have "P (committed s2)"
    by (rule stable_retry_run [where P = P, OF backoff_libD(3) [OF assms(1) r2] s1]) (rule stable_attempt [OF _ assms(3)])
  moreover have "s' \<in> {s1, s2}"
    using assms(2) b r2 by (auto simp: deliver_def Projection_Handle_def split: sum.splits if_splits option.splits)
  ultimately show ?thesis using s1 by auto
qed

section \<open>The steps of the application\<close>

lemma stable_cmd_step:
  assumes "cmd_step f y y'" "stmt_stable P" "P (sys_db y)"
  shows "P (sys_db y')"
  using assms(1)
proof cases
  case (create i now cmd fs r s')
  then have w: "WithTransaction (create_product_tx f i now cmd) Background (session_on (sys_db y) fs) = (r, s')"
    by (auto simp: CreateProductHandler_Handle_def split: prod.splits option.splits)
  have "P (committed s')"
    by (rule stable_framed [OF w assms(2)]) (use assms(3) create_product_tx_frame in auto)
  then show ?thesis by (simp add: create(1))
next
  case (load k cmd fs p s')
  then show ?thesis using assms(3) by simp
next
  case (finish k cmd p i now fs r s')
  have "P (committed s')"
    by (rule stable_framed [OF finish(3) assms(2)]) (use assms(3) update_product_finish_frame in auto)
  then show ?thesis by (simp add: finish(1))
qed

lemma run_UpdatePublished: "run_stmt (UpdatePublished (map oe_EventID es)) d = d\<lparr>outbox := mark_rows es (outbox d)\<rparr>"
  by (simp add: run_stmt_def mark_rows_def)

lemma stable_batch_rest:
  assumes "batch_rest (processor (on_bus p)) c es s = (r, s')" "fresh_tx s" "stmt_stable P" "P (committed s)"
  shows "P (committed s')"
proof -
  have "P (run_stmt (UpdatePublished (map oe_EventID es)) (committed s))"
    using assms(3,4) by (simp add: stmt_stable_def)
  then have m: "P ((committed s)\<lparr>outbox := mark_rows es (outbox (committed s))\<rparr>)" by (simp add: run_UpdatePublished)
  have "committed s' \<in> {committed s, (committed s)\<lparr>outbox := mark_rows es (outbox (committed s))\<rparr>}"
    by (rule batch_rest_cases [OF assms(1) processor_quiet assms(2)]) blast
  with m assms(4) show ?thesis by (elim insertE) simp_all
qed

lemma stable_turn:
  assumes "fetch_turn js (app_handler l) q w = w'" "libs_ok l stored acks j0" "stmt_stable P" "P (committed w)"
  shows "P (committed w')"
proof -
  have "P (committed (handle_msgs js (app_handler l) ms w1))" if "P (committed w1)" for ms w1
  proof (rule handle_msgs_keeps [where E = UNIV and P = P])
    fix evt w r w'
    assume "app_handler l Background evt w = (r, w')" "P (committed w)"
    then show "P (committed w')"
      using stable_deliver [OF libs_okD(3) [OF assms(2)] _ assms(3)] by (simp add: deliver_app)
  qed (use that in simp_all)
  then show ?thesis
    using assms(1,4) by (auto simp: fetch_turn_def split: prod.splits sum.splits)
qed

lemma stable_app_step:
  assumes "app_step f n l y y'" "libs_ok l stored acks j0" "stmt_stable P" "P (app_db y)"
  shows "P (app_db y')"
  using assms(1)
proof cases
  case (command c)
  then show ?thesis using stable_cmd_step [OF _ assms(3)] assms(4) by fastforce
next
  case (fetch k fs s1 es s2)
  then show ?thesis using assms(4) by simp
next
  case (finish xs k es zs fs r w')
  have "P (committed w')" by (rule stable_batch_rest [OF finish(3) _ assms(3)]) (use assms(4) in simp_all)
  then show ?thesis by (simp add: finish(1))
next
  case (turn q fs w')
  have "P (committed w')" by (rule stable_turn [OF turn(2) assms(2,3)]) (use assms(4) in simp)
  then show ?thesis by (simp add: turn(1))
qed

lemma stable_reachable:
  assumes "app_reachable f n l j0 y" "libs_ok l stored acks j0" "stmt_stable P" "P empty_db"
  shows "P (app_db y)"
  using assms(1)
proof (induction rule: app_reachable.induct)
  case start
  then show ?case using assms(4) by simp
next
  case (step y y')
  then show ?case using stable_app_step [OF _ assms(2,3)] by blast
qed

section \<open>The declared schema\<close>

definition event_typed :: "OutboxEvent \<Rightarrow> bool" where
  "event_typed r \<longleftrightarrow> varchar255 (oe_AggregateType r) \<and> varchar255 (oe_EventType r) \<and> int4 (oe_Version r)"

definition view_typed :: "view_row \<Rightarrow> bool" where
  "view_typed r \<longleftrightarrow> varchar255 (vr_name r) \<and> int4 (vr_price r) \<and> int4 (vr_version r)"

definition columns_typed :: "db \<Rightarrow> bool" where
  "columns_typed d \<longleftrightarrow>
     list_all event_typed (event_store d) \<and> list_all event_typed (map ob_event (outbox d)) \<and>
     list_all (\<lambda>x. varchar255 (sn_aggregate_type x) \<and> int4 (sn_aggregate_version x)) (snapshots d) \<and>
     list_all (\<lambda>(_, sub). varchar255 sub) (processed_events d) \<and> list_all view_typed (product_views d)"

definition keys_unique :: "db \<Rightarrow> bool" where
  "keys_unique d \<longleftrightarrow>
     distinct (map oe_EventID (event_store d)) \<and> distinct (map row_key (event_store d)) \<and>
     distinct (outbox_ids_of d) \<and> distinct (map snapshot_key (snapshots d)) \<and>
     distinct (processed_events d) \<and> distinct (map vr_id (product_views d))"

lemma list_all_update:
  "list_all P xs \<Longrightarrow> (\<And>x. P x \<Longrightarrow> P (f x)) \<Longrightarrow> list_all P (map f xs)"
  by (induction xs) auto

lemma map_update: "(\<And>x. g (f x) = g x) \<Longrightarrow> map g (map f xs) = map g xs"
  by simp

lemma exec_typed: "exec_stmt st d = Inr (n, d') \<Longrightarrow> columns_typed d \<Longrightarrow> columns_typed d'"
proof (cases st)
  case (UpdatePublished ids)
  assume "exec_stmt st d = Inr (n, d')" "columns_typed d"
  moreover have "map ob_event (map (\<lambda>x. if oe_EventID (ob_event x) \<in> set ids then x\<lparr>published := True\<rparr> else x) (outbox d)) =
      map ob_event (outbox d)" by (rule map_update) simp
  ultimately show ?thesis using UpdatePublished by (auto simp: columns_typed_def simp del: map_map)
next
  case (UpsertView r)
  assume "exec_stmt st d = Inr (n, d')" "columns_typed d"
  with UpsertView show ?thesis
    by (auto simp: columns_typed_def view_typed_def split: if_splits intro!: list_all_update)
next
  case (UpdateView i nm p v t)
  assume "exec_stmt st d = Inr (n, d')" "columns_typed d"
  with UpdateView show ?thesis
    by (auto simp: columns_typed_def view_typed_def list_all_iff split: if_splits)
qed (auto simp: columns_typed_def event_typed_def split: if_splits)

lemma exec_keys: "exec_stmt st d = Inr (n, d') \<Longrightarrow> keys_unique d \<Longrightarrow> keys_unique d'"
proof (cases st)
  case (UpdatePublished ids)
  assume "exec_stmt st d = Inr (n, d')" "keys_unique d"
  moreover have "map (oe_EventID \<circ> ob_event) (map (\<lambda>x. if oe_EventID (ob_event x) \<in> set ids then x\<lparr>published := True\<rparr> else x) (outbox d)) =
      outbox_ids_of d" by (rule map_update) simp
  ultimately show ?thesis using UpdatePublished by (auto simp: keys_unique_def simp del: map_map)
next
  case (UpsertView r)
  assume h: "exec_stmt st d = Inr (n, d')" "keys_unique d"
  have "map vr_id (map (\<lambda>x. if vr_id x = vr_id r then x\<lparr>vr_name := vr_name r, vr_price := vr_price r,
      vr_version := vr_version r, vr_updated_at := vr_updated_at r\<rparr> else x) (product_views d)) = map vr_id (product_views d)"
    by (rule map_update) simp
  note upd = this
  show ?thesis
  proof (cases "\<exists>x \<in> set (product_views d). vr_id x = vr_id r")
    case True
    with h UpsertView upd show ?thesis by (auto simp: keys_unique_def simp del: map_map split: if_splits)
  next
    case False
    then have "vr_id r \<notin> vr_id ` set (product_views d)" by (metis imageE)
    moreover have "d' = d\<lparr>product_views := product_views d @ [r]\<rparr>"
      using h(1) False unfolding UpsertView by (simp split: if_splits)
    ultimately show ?thesis using h(2) by (simp add: keys_unique_def)
  qed
next
  case (UpdateView i nm p v t)
  assume h: "exec_stmt st d = Inr (n, d')" "keys_unique d"
  have "map vr_id (map (\<lambda>x. if vr_id x = i then x\<lparr>vr_name := nm, vr_price := p, vr_version := v, vr_updated_at := t\<rparr> else x)
      (product_views d)) = map vr_id (product_views d)"
    by (rule map_update) simp
  with h UpdateView show ?thesis by (auto simp: keys_unique_def simp del: map_map split: if_splits)
qed (auto simp: keys_unique_def notin_image_iff split: if_splits)

lemma schema_stable: "stmt_stable (\<lambda>d. columns_typed d \<and> keys_unique d)"
  unfolding stmt_stable_def run_stmt_def by (auto split: sum.split dest: exec_typed exec_keys)

lemma schema_empty: "columns_typed empty_db \<and> keys_unique empty_db"
  by (simp add: columns_typed_def keys_unique_def empty_db_def)

end
