(* ===== verification/Snapshot_Equivalence.thy ===== *)
theory Snapshot_Equivalence
  imports Write_Properties
begin

text \<open>
  A snapshot is an optimisation of \<open>infra/postgres/event_store.go\<close> and
  \<open>eventsrc/aggregate_repository.go\<close>: loading decodes the newest snapshot and replays only the
  events after it. This theory compares it with the reference, the replay of the whole stream: an
  invariant of the machine of theory \<open>Clients\<close> says what the snapshots hold.
\<close>

section \<open>What the snapshots hold\<close>

definition row_product :: "event_row \<Rightarrow> Product" where
  "row_product r = \<lparr>Product_ID = uuid_Nil, Product_Name = Name (body (event_of_row r)), Product_Price = Price (body (event_of_row r))\<rparr>"

text \<open>
  A snapshot is the product as it was after a stored event of its aggregate. An aggregate that was
  never created has the identity \<open>uuid.Nil\<close>, and so have its snapshots.
\<close>

definition snapshot_ok :: "event_row set \<Rightarrow> snapshot_row \<Rightarrow> bool" where
  "snapshot_ok E x \<longleftrightarrow>
     (\<exists>pr. (\<forall>p. UnmarshalJSON (sn_payload x) p = Inr (NewProductAggregateEmpty\<lparr>pa_Product := pr\<rparr>)) \<and>
        Product_ID pr = uuid_Nil \<and>
        (sn_aggregate_id x = uuid_Nil \<or> (\<exists>r \<in> E. row_key r = snapshot_key x \<and> pr = row_product r)))"

definition snapshots_ok :: "db \<Rightarrow> bool" where
  "snapshots_ok d \<longleftrightarrow> (\<forall>x \<in> set (snapshots d). snapshot_ok (set (event_store d)) x)"

lemma snapshot_ok_mono: "snapshot_ok E x \<Longrightarrow> E \<subseteq> E' \<Longrightarrow> snapshot_ok E' x"
  unfolding snapshot_ok_def by blast

lemma snapshot_of_ok:
  assumes "MarshalJSON a = Inr j" "pa_Product a = row_product r" "ar_version a = oe_Version r"
    and "ar_id a = uuid_Nil \<or> ar_id a = oe_AggregateID r" "r \<in> E"
  shows "snapshot_ok E (snapshot_of a j)"
  using UnmarshalJSON_MarshalJSON [OF assms(1)] assms(2-5)
  by (auto simp: snapshot_ok_def snapshot_of_def row_product_def intro!: exI [of _ "pa_Product a"])

text \<open>A successful save keeps the invariant.\<close>

lemma Save_snapshots_ok:
  assumes "Save f MarshalJSON c a s = (None, s')" "ar_events a = [e]" "registered e" "write_inv (tx_view s)"
    and "1 \<le> Version e" "Version e \<le> stream_len (AggregateID e) (tx_view s) + 1"
    and "ar_version a = Version e" "ar_id a = uuid_Nil \<or> ar_id a = AggregateID e"
    and "pa_Product a = \<lparr>Product_ID = uuid_Nil, Product_Name = Name (body e), Product_Price = Price (body e)\<rparr>"
    and "snapshots_ok (tx_view s)"
  shows "snapshots_ok (tx_view s')"
proof (rule Save_one [OF assms(1-6)])
  fix r sn
  assume r: "event_row_of e = Inr r"
    and v: "tx_view s' = (append_rows [r] (tx_view s))\<lparr>snapshots := snapshots (tx_view s) @ sn\<rparr>" "write_inv (tx_view s')"
    and sn: "sn = [] \<or> (\<exists>j. shouldSnapshot f a \<and> MarshalJSON a = Inr j \<and> sn = [snapshot_of a j])"
  have r': "r \<in> set (event_store (tx_view s'))" by (simp add: v(1) append_rows_def)
  then have "row_sized r" using v(2) by (simp add: write_inv_def store_wf_def valid_row_def)
  then have er: "event_of_row r = e" by (rule event_of_row_eq [OF r assms(3)])
  note fld = event_row_of_fields [OF r]
  have new: "snapshot_ok (set (event_store (tx_view s'))) x" if "x \<in> set sn" for x
    using sn that snapshot_of_ok [OF _ _ _ _ r'] assms(7-9) fld(2,3) by (auto simp: row_product_def er)
  have old: "snapshot_ok (set (event_store (tx_view s'))) x" if "x \<in> set (snapshots (tx_view s))" for x
    by (rule snapshot_ok_mono [of "set (event_store (tx_view s))"])
       (use assms(10) that in \<open>auto simp: snapshots_ok_def v(1) append_rows_def\<close>)
  show ?thesis using new old v(1) by (auto simp: snapshots_ok_def)
qed

lemma create_product_tx_snapshots:
  assumes "create_product_tx f i now cmd c s = (None, s')" "write_inv (tx_view s)" "snapshots_ok (tx_view s)"
  shows "snapshots_ok (tx_view s')"
proof -
  have "valid_data (cp_Name cmd) (cp_Price cmd)"
    using assms(1) create_product_tx_invalid [of cmd f i now c s] by auto
  with assms(1) have sv: "Save f MarshalJSON c (created_aggregate i now cmd) s = (None, s')"
    by (auto simp: create_product_tx_valid split: prod.splits option.splits)
  show ?thesis
    by (rule Save_snapshots_ok [OF sv, of "created_event i now cmd"])
       (use assms(2,3) in \<open>simp_all add: created_aggregate_def created_event_def event_accessors\<close>)
qed

text \<open>What a client holds between the halves of an update, besides what \<open>pending_ok\<close> says.\<close>

definition identity_ok :: "uuid \<Rightarrow> ProductAggregate \<Rightarrow> bool" where
  "identity_ok a p \<longleftrightarrow> (ar_id p = uuid_Nil \<or> ar_id p = a) \<and> Product_ID (pa_Product p) = uuid_Nil"

lemma update_product_finish_snapshots:
  assumes "update_product_finish f i now cmd p c s = (None, s')" "write_inv (tx_view s)" "snapshots_ok (tx_view s)"
    and "ar_events p = []" "0 \<le> ar_version p" "ar_version p \<le> stream_len (up_ID cmd) (tx_view s)"
    and "identity_ok (up_ID cmd) p"
  shows "snapshots_ok (tx_view s')"
proof -
  have "valid_data (up_Name cmd) (up_Price cmd)"
    using assms(1) update_product_finish_invalid [of cmd f i now p c s] by auto
  with assms(1) have sv: "Save f MarshalJSON c (saved_update i now cmd p) s = (None, s')"
    by (auto simp: update_product_finish_valid split: prod.splits option.splits)
  show ?thesis
    by (rule Save_snapshots_ok [OF sv, of "updated_event i now cmd (ar_version p + 1)"])
       (use assms(2-7) in \<open>simp_all add: saved_update_def updated_aggregate_def updated_event_def event_accessors identity_ok_def\<close>)
qed

text \<open>Replay takes the identity from the events, and nothing sets the identity of the product.\<close>

lemma LoadFromHistory_identity:
  assumes "LoadFromHistory Apply es p = (None, q)" "\<And>e. e \<in> set es \<Longrightarrow> AggregateID e = a" "identity_ok a p"
  shows "identity_ok a q"
  using assms
proof (induction es arbitrary: p)
  case Nil
  then show ?case by simp
next
  case (Cons e es)
  from Cons.prems(1) obtain p1 where p1: "Apply e p = (None, p1)" and rest: "LoadFromHistory Apply es p1 = (None, q)"
    by (auto split: prod.splits option.splits)
  have "identity_ok a p1"
    using p1 Cons.prems(2) [of e] Cons.prems(3)
    by (cases e) (auto simp: product_defs identity_ok_def AggregateID_def)
  then show ?case using Cons.IH [OF rest] Cons.prems(2) by simp
qed

lemma stream_identity: "store_wf d \<Longrightarrow> e \<in> set (stream a d) \<Longrightarrow> AggregateID e = a"
  by (auto simp: stream_def set_stream_rows dest!: store_wf_stream_valid valid_row_fields(2))

section \<open>Loading\<close>

lemma case_list_Some: "(case xs of [] \<Rightarrow> None | r # _ \<Rightarrow> Some r) = Some x \<Longrightarrow> x \<in> set xs"
  by (cases xs) auto

lemma latest_snapshot_mem:
  assumes "latest_snapshot a d = Some x"
  shows "x \<in> set (snapshots d) \<and> sn_aggregate_id x = a"
  using case_list_Some [OF assms [unfolded latest_snapshot_def]] by simp

text \<open>The base of a load: a new aggregate, with the product of the snapshot if there is one.\<close>

lemma loaded_base_ok:
  assumes "snapshots_ok d"
  obtains pr where "loaded_base a d = Inr (NewProductAggregateEmpty\<lparr>pa_Product := pr\<rparr>)" "Product_ID pr = uuid_Nil"
    "a = uuid_Nil \<or> (case latest_snapshot a d of
       None \<Rightarrow> pr = pa_Product NewProductAggregateEmpty
     | Some x \<Rightarrow> \<exists>r \<in> set (event_store d). row_key r = (a, sn_aggregate_version x) \<and> pr = row_product r)"
proof (cases "latest_snapshot a d")
  case None
  then show thesis
    by (intro that [of "pa_Product NewProductAggregateEmpty"])
       (simp_all add: loaded_base_def loaded_snapshot_def del: NewProductAggregateEmpty_simps(5),
        simp_all)
next
  case (Some x)
  note x = latest_snapshot_mem [OF Some]
  with assms obtain pr where pr: "\<And>p. UnmarshalJSON (sn_payload x) p = Inr (NewProductAggregateEmpty\<lparr>pa_Product := pr\<rparr>)"
    "Product_ID pr = uuid_Nil"
    "sn_aggregate_id x = uuid_Nil \<or> (\<exists>r \<in> set (event_store d). row_key r = snapshot_key x \<and> pr = row_product r)"
    unfolding snapshots_ok_def snapshot_ok_def by blast
  show thesis
    by (rule that [of pr]) (use pr x Some in \<open>auto simp: loaded_base_def loaded_snapshot_def\<close>)
qed

lemma Load_identity:
  assumes "write_inv (committed s)" "snapshots_ok (committed s)" "ProductRepository_Load c a s = (Inr p, s')"
  shows "identity_ok a p"
proof -
  have wf: "store_wf (committed s)" using assms(1) by (simp add: write_inv_def)
  obtain pr where base: "loaded_base a (committed s) = Inr (NewProductAggregateEmpty\<lparr>pa_Product := pr\<rparr>)"
    and id: "Product_ID pr = uuid_Nil"
    by (rule loaded_base_ok [OF assms(2)])
  obtain a0 where "loaded_base a (committed s) = Inr a0"
    and p: "LoadFromHistory Apply (loaded_events a (committed s)) a0 = (None, p)"
    using ProductRepository_Load_result [OF wf assms(3)] by blast
  with base have p: "LoadFromHistory Apply (loaded_events a (committed s)) (NewProductAggregateEmpty\<lparr>pa_Product := pr\<rparr>) = (None, p)"
    by simp
  show ?thesis
    by (rule LoadFromHistory_identity [OF p])
       (use stream_identity [OF wf] id in \<open>auto simp: loaded_events_def identity_ok_def\<close>)
qed

section \<open>The invariant of the machine\<close>

definition snap_inv :: "system \<Rightarrow> bool" where
  "snap_inv y \<longleftrightarrow> cmd_inv y \<and> snapshots_ok (sys_db y) \<and>
     (\<forall>k cmd p. pending y k = Some (cmd, p) \<longrightarrow> identity_ok (up_ID cmd) p)"

lemma create_snapshots:
  assumes "CreateProductHandler_Handle f i now c cmd s = (r, s')" "write_inv (committed s)" "snapshots_ok (committed s)"
  shows "snapshots_ok (committed s')"
proof -
  have "WithTransaction (create_product_tx f i now cmd) c s = (r, s')"
    using assms(1) by (auto simp: CreateProductHandler_Handle_def split: prod.splits option.splits)
  then have "write_inv (committed s') \<and> snapshots_ok (committed s')"
  proof (rule pg.tx_invariant [where P = "\<lambda>d. write_inv d \<and> snapshots_ok d"])
    show "write_inv (committed s) \<and> snapshots_ok (committed s)" using assms by simp
    fix sa r s'
    assume run: "create_product_tx f i now cmd TxCtx sa = (r, s')"
      and c: "write_inv (committed sa) \<and> snapshots_ok (committed sa)" and v: "write_inv (tx_view sa) \<and> snapshots_ok (tx_view sa)"
    have "write_inv (tx_view s') \<and> snapshots_ok (tx_view s')" if "r = None"
      using run that v create_product_tx_snapshots create_product_tx_keeps [of f i now cmd TxCtx sa s' "tx_view sa"] grown_refl
      by blast
    with c same_outsideD(1) [OF create_product_tx_frame [OF run]]
    show "(write_inv (committed s') \<and> snapshots_ok (committed s')) \<and>
        (r = None \<longrightarrow> tx_open s' \<longrightarrow> write_inv (tx_view s') \<and> snapshots_ok (tx_view s'))" by simp
  qed
  then show ?thesis ..
qed

lemma finish_snapshots:
  assumes "WithTransaction (update_product_finish f i now cmd p) c s = (r, s')" "write_inv (committed s)"
    and "pending_ok (committed s) (cmd, p)" "identity_ok (up_ID cmd) p" "snapshots_ok (committed s)"
  shows "snapshots_ok (committed s')"
proof -
  let ?P = "\<lambda>d. (write_inv d \<and> grown (committed s) d) \<and> snapshots_ok d"
  have p: "ar_events p = []" "0 \<le> ar_version p" "ar_version p \<le> stream_len (up_ID cmd) (committed s)"
    using assms(3) by (simp_all add: pending_ok_def)
  from assms(1) have "?P (committed s')"
  proof (rule pg.tx_invariant [where P = ?P])
    show "?P (committed s)" using assms(2,5) by simp
    fix sa r s'
    assume run: "update_product_finish f i now cmd p TxCtx sa = (r, s')"
      and c: "?P (committed sa)" and v: "?P (tx_view sa)"
    have len: "ar_version p \<le> stream_len (up_ID cmd) (tx_view sa)"
      using p(3) v grown_stream_len [of "committed s" "tx_view sa" "up_ID cmd"] by simp
    have "?P (tx_view s')" if "r = None"
    proof
      show "write_inv (tx_view s') \<and> grown (committed s) (tx_view s')"
        by (rule update_product_finish_keeps [OF run [unfolded that]]) (use v p len in auto)
      show "snapshots_ok (tx_view s')"
        by (rule update_product_finish_snapshots [OF run [unfolded that]]) (use v p len assms(4) in auto)
    qed
    with c same_outsideD(1) [OF update_product_finish_frame [OF run]]
    show "?P (committed s') \<and> (r = None \<longrightarrow> tx_open s' \<longrightarrow> ?P (tx_view s'))" by simp
  qed
  then show ?thesis ..
qed

lemma snap_inv_step:
  assumes "cmd_step f y y'" "snap_inv y"
  shows "snap_inv y'"
proof -
  have inv: "write_inv (sys_db y)" "snapshots_ok (sys_db y)" "cmd_inv y'"
    using assms cmd_step_inv by (auto simp: snap_inv_def cmd_inv_def)
  from assms(1) have "snapshots_ok (sys_db y') \<and> (\<forall>k cmd p. pending y' k = Some (cmd, p) \<longrightarrow> identity_ok (up_ID cmd) p)"
  proof cases
    case (create i now cmd fs r s')
    then show ?thesis using create_snapshots [OF create(2)] inv assms(2) by (simp add: snap_inv_def)
  next
    case (load k cmd fs p s')
    have "identity_ok (up_ID cmd) p" by (rule Load_identity [OF _ _ load(3)]) (use inv in simp_all)
    then show ?thesis using load(1) inv assms(2) by (auto simp: snap_inv_def)
  next
    case (finish k cmd p i now fs r s')
    have "pending_ok (sys_db y) (cmd, p)" "identity_ok (up_ID cmd) p"
      using finish(2) assms(2) by (simp_all add: snap_inv_def cmd_inv_def)
    then show ?thesis
      using finish(1) finish_snapshots [OF finish(3)] inv assms(2) by (auto simp: snap_inv_def)
  qed
  with inv(3) show ?thesis by (simp add: snap_inv_def)
qed

lemma cmd_reachable_snap_inv: "cmd_reachable f y \<Longrightarrow> snap_inv y"
proof (induction rule: cmd_reachable.induct)
  case start
  have "cmd_inv \<lparr>sys_db = empty_db, pending = \<lambda>_. None\<rparr>" by (rule cmd_reachable_inv [OF cmd_reachable.start])
  then show ?case by (simp add: snap_inv_def snapshots_ok_def)
next
  case (step y y')
  then show ?case using snap_inv_step by blast
qed

section \<open>Loading equals replay\<close>

lemma stream_event_unique:
  assumes "write_inv d" "e \<in> set (stream a d)" "e' \<in> set (stream a d)" "Version e = Version e'"
  shows "e = e'"
proof -
  have "distinct (map Version (stream a d))" using stream_versions [OF assms(1), of a] by simp
  then show ?thesis using assms(2-4) by (auto simp: distinct_map dest: inj_onD)
qed

text \<open>The events after the newest snapshot are none, or they end with the last event of the stream.\<close>

lemma loaded_events_end:
  assumes "write_inv d"
  shows "loaded_events a d = [] \<or> stream a d \<noteq> [] \<and> last (loaded_events a d) = last (stream a d)"
proof (cases "loaded_events a d = []")
  case False
  then have ne: "stream a d \<noteq> []" by (auto simp: loaded_events_def)
  have "last (loaded_events a d) \<in> set (loaded_events a d)" using False by simp
  then have "last (loaded_events a d) \<in> set (stream a d)" by (simp add: loaded_events_def)
  moreover have "Version (last (loaded_events a d)) = Version (last (stream a d))"
    using loaded_events_last [OF assms False] last_stream_version [OF assms ne] by simp
  ultimately show ?thesis using ne stream_event_unique [OF assms, of _ a "last (stream a d)"] by simp
qed simp

text \<open>A snapshot that covers the stream is the product after its last event.\<close>

lemma covering_snapshot:
  assumes "write_inv d" "latest_snapshot a d = Some x" "loaded_events a d = []"
    and "r \<in> set (event_store d)" "row_key r = (a, sn_aggregate_version x)"
  shows "stream a d \<noteq> []" "event_of_row r = last (stream a d)" "sn_aggregate_version x = stream_len a d"
proof -
  have wf: "store_wf d" and c: "contiguous d" using assms(1) by (simp_all add: write_inv_def)
  have valid: "valid_row r" using wf assms(4) by (simp add: store_wf_def)
  have mem: "event_of_row r \<in> set (stream a d)"
    using assms(4,5) by (simp add: stream_def set_stream_rows)
  then show ne: "stream a d \<noteq> []" by auto
  have "(a, sn_aggregate_version x) \<in> row_key ` set (event_store d)" using imageI [OF assms(4), of row_key] assms(5) by simp
  then have "sn_aggregate_version x \<le> stream_len a d" using key_taken_iff [OF c] by simp
  moreover have "\<not> sn_aggregate_version x < Version (last (stream a d))"
    using assms(2,3) ne by (auto simp: loaded_events_def loaded_snapshot_def filter_empty_conv)
  ultimately show v: "sn_aggregate_version x = stream_len a d"
    using last_stream_version [OF assms(1) ne] by simp
  show "event_of_row r = last (stream a d)"
    by (rule stream_event_unique [OF assms(1) mem])
       (use ne v assms(5) last_stream_version [OF assms(1) ne] valid_row_fields(3) [OF valid] in auto)
qed

text \<open>The product of a load, by cases: that of the base, or that of the last event.\<close>

lemma replay_product:
  assumes "write_inv d" "LoadFromHistory Apply (stream a d) NewProductAggregateEmpty = (None, q)" "stream a d \<noteq> []"
  shows "pa_Product q = \<lparr>Product_ID = uuid_Nil, Product_Name = Name (body (last (stream a d))),
      Product_Price = Price (body (last (stream a d)))\<rparr>"
    "ar_version q = stream_len a d"
  using LoadFromHistory_Product [OF assms(2,3)] product.LoadFromHistory_version [OF assms(2,3)]
    last_stream_version [OF assms(1,3)] by simp_all

lemma load_product:
  assumes "write_inv d" "snapshots_ok d" "a \<noteq> uuid_Nil" "loaded_base a d = Inr a0"
    and "LoadFromHistory Apply (loaded_events a d) a0 = (None, p)"
    and "LoadFromHistory Apply (stream a d) NewProductAggregateEmpty = (None, q)"
  shows "pa_Product p = pa_Product q \<and> (loaded_events a d = [] \<longrightarrow> snd (loaded_snapshot a d) = ar_version q)"
proof -
  obtain pr where base: "a0 = NewProductAggregateEmpty\<lparr>pa_Product := pr\<rparr>" and id: "Product_ID pr = uuid_Nil"
    and snap: "case latest_snapshot a d of None \<Rightarrow> pr = pa_Product NewProductAggregateEmpty
     | Some x \<Rightarrow> \<exists>r \<in> set (event_store d). row_key r = (a, sn_aggregate_version x) \<and> pr = row_product r"
    using loaded_base_ok [OF assms(2), of a] assms(3,4) by auto
  show ?thesis
  proof (cases "loaded_events a d = []")
    case False
    with loaded_events_end [OF assms(1)] have l: "stream a d \<noteq> []" "last (loaded_events a d) = last (stream a d)" by blast+
    from LoadFromHistory_Product [OF assms(5) False] l(2)
    have "pa_Product p = \<lparr>Product_ID = uuid_Nil, Product_Name = Name (body (last (stream a d))),
        Product_Price = Price (body (last (stream a d)))\<rparr>" by (simp add: base id)
    with False replay_product(1) [OF assms(1,6) l(1)] show ?thesis by simp
  next
    case True
    then have p: "pa_Product p = pr" using assms(5) by (auto simp: base)
    show ?thesis
    proof (cases "latest_snapshot a d")
      case None
      have "0 < Version e" if "e \<in> set (stream a d)" for e
        using stream_versions [OF assms(1), of a] that
        by (metis atLeastAtMost_iff image_eqI set_map set_upto zero_less_one order_less_le_trans)
      then have "stream a d = []"
        using True None by (auto simp: loaded_events_def loaded_snapshot_def filter_empty_conv)
      then have "q = NewProductAggregateEmpty" using assms(6) by simp
      with p None snap show ?thesis by (simp add: loaded_snapshot_def)
    next
      case (Some x)
      with snap obtain r where r: "r \<in> set (event_store d)" "row_key r = (a, sn_aggregate_version x)" "pr = row_product r"
        by auto
      note cov = covering_snapshot [OF assms(1) Some True r(1,2)]
      from replay_product [OF assms(1,6) cov(1)] cov(2,3) p r(3) Some
      show ?thesis by (simp add: row_product_def loaded_snapshot_def)
    qed
  qed
qed



end
