(* ===== verification/Catalogue.thy ===== *)
theory Catalogue
  imports Snapshot_Equivalence
begin

text \<open>
  The abstract specification of the write side: a catalogue that keeps, for every product, the
  list of its changes. A command is one atomic change or none. The clients of theory \<open>Clients\<close>,
  with their transactions, faults, snapshots and halves of updates, implement it.
\<close>

section \<open>The specification\<close>

datatype change = Created string float64 | Updated string float64

type_synonym catalogue = "uuid \<Rightarrow> change list"

fun change_name :: "change \<Rightarrow> string" where
  "change_name (Created n p) = n"
| "change_name (Updated n p) = n"

fun change_price :: "change \<Rightarrow> float64" where
  "change_price (Created n p) = p"
| "change_price (Updated n p) = p"

text \<open>
  A product is created once, at the start of its list; it can be updated at any time, even before
  it has been created. Names are not empty and prices are positive.
\<close>

inductive catalogue_step :: "catalogue \<Rightarrow> catalogue \<Rightarrow> bool" where
  create: "valid_data n p \<Longrightarrow> h a = [] \<Longrightarrow> catalogue_step h (h(a := [Created n p]))"
| update: "valid_data n p \<Longrightarrow> catalogue_step h (h(a := h a @ [Updated n p]))"

inductive_cases catalogue_stepE: "catalogue_step h h'"

section \<open>The abstraction\<close>

fun change_of :: "event \<Rightarrow> change" where
  "change_of (ProductCreated b) = Created (Name b) (Price b)"
| "change_of e = Updated (Name (body e)) (Price (body e))"

definition catalogue_of :: "db \<Rightarrow> catalogue" where
  "catalogue_of d = (\<lambda>a. map change_of (stream a d))"

lemma catalogue_length: "int (length (catalogue_of d a)) = stream_len a d"
  by (simp add: catalogue_of_def length_stream)

lemma change_of_events [simp]:
  "change_of (created_event i now cmd) = Created (cp_Name cmd) (cp_Price cmd)"
  "change_of (updated_event i now cmd' v) = Updated (up_Name cmd') (up_Price cmd')"
  by (simp_all add: created_event_def updated_event_def)

text \<open>A row whose version comes after all others goes to the end of its stream.\<close>

lemma insort_key_snoc: "f y \<le> f x \<Longrightarrow> insort_key f y (ys @ [x]) = insort_key f y ys @ [x]"
  by (induction ys) auto

lemma sort_key_snoc:
  "(\<And>y. y \<in> set xs \<Longrightarrow> f y \<le> f x) \<Longrightarrow> sort_key f (xs @ [x]) = sort_key f xs @ [x]"
  by (induction xs) (simp_all add: insort_key_snoc)

lemma stream_rows_append:
  assumes "contiguous d" "oe_Version r = stream_len (oe_AggregateID r) d + 1"
  shows "stream_rows a ((append_rows [r] d)\<lparr>snapshots := sn\<rparr>) =
    stream_rows a d @ (if a = oe_AggregateID r then [r] else [])"
proof (cases "a = oe_AggregateID r")
  case True
  have "oe_Version y \<le> oe_Version r" if y: "y \<in> set (filter (\<lambda>r. oe_AggregateID r = a) (event_store d))" for y
  proof -
    have "oe_Version y \<in> {1..stream_len a d}"
      using assms(1) y unfolding contiguous_def by (metis (mono_tags, lifting) image_eqI mem_Collect_eq set_filter)
    with assms(2) True show ?thesis by simp
  qed
  then have "sort_key oe_Version (filter (\<lambda>r. oe_AggregateID r = a) (event_store d) @ [r]) = stream_rows a d @ [r]"
    unfolding stream_rows_def by (rule sort_key_snoc)
  with True show ?thesis by (simp add: stream_rows_def append_rows_def)
qed (simp add: stream_rows_def append_rows_def)

lemma catalogue_append:
  assumes "contiguous d" "oe_Version r = stream_len (oe_AggregateID r) d + 1" "event_of_row r = e"
  shows "catalogue_of ((append_rows [r] d)\<lparr>snapshots := sn\<rparr>) =
    (catalogue_of d)(oe_AggregateID r := catalogue_of d (oe_AggregateID r) @ [change_of e])"
  using stream_rows_append [OF assms(1,2)] assms(3) by (auto simp: catalogue_of_def stream_def)

lemma catalogue_cong: "event_store d' = event_store d \<Longrightarrow> catalogue_of d' = catalogue_of d"
  by (simp add: catalogue_of_def stream_def stream_rows_def)

text \<open>What a successful save of one event does to the catalogue.\<close>

lemma Save_catalogue:
  assumes "Save f m c a s = (None, s')" "ar_events a = [e]" "registered e" "write_inv (tx_view s)"
    and "1 \<le> Version e" "Version e \<le> stream_len (AggregateID e) (tx_view s) + 1"
  shows "catalogue_of (tx_view s') = (catalogue_of (tx_view s))(AggregateID e := catalogue_of (tx_view s) (AggregateID e) @ [change_of e])"
    "Version e = stream_len (AggregateID e) (tx_view s) + 1"
proof -
  obtain r sn where r: "event_row_of e = Inr r" "Version e = stream_len (AggregateID e) (tx_view s) + 1"
    and v: "tx_view s' = (append_rows [r] (tx_view s))\<lparr>snapshots := snapshots (tx_view s) @ sn\<rparr>" "write_inv (tx_view s')"
    by (rule Save_one [OF assms])
  show "Version e = stream_len (AggregateID e) (tx_view s) + 1" by (rule r(2))
  have "r \<in> set (event_store (tx_view s'))" by (simp add: v(1) append_rows_def)
  then have "row_sized r" using v(2) by (simp add: write_inv_def store_wf_def valid_row_def)
  then have er: "event_of_row r = e" by (rule event_of_row_eq [OF r(1) assms(3)])
  have "contiguous (tx_view s)" using assms(4) by (simp add: write_inv_def)
  from catalogue_append [OF this _ er] event_row_of_fields [OF r(1)] r(2)
  show "catalogue_of (tx_view s') = (catalogue_of (tx_view s))(AggregateID e := catalogue_of (tx_view s) (AggregateID e) @ [change_of e])"
    by (simp add: v(1))
qed

section \<open>Commands implement changes\<close>

text \<open>
  What a command may do to the tables: nothing, and then it does not return \<open>nil\<close>; or one change
  at the end of the product's list. A command whose reply is lost may return an error and have
  made the change all the same.
\<close>

definition makes_change :: "uuid \<Rightarrow> change \<Rightarrow> db \<Rightarrow> db \<Rightarrow> bool" where
  "makes_change a ch d d' \<longleftrightarrow>
     valid_data (change_name ch) (change_price ch) \<and>
     catalogue_of d' = (catalogue_of d)(a := catalogue_of d a @ [ch])"

lemma create_product_tx_change:
  assumes "create_product_tx f i now cmd c s = (None, s')" "write_inv (tx_view s)"
  shows "makes_change (cp_ID cmd) (Created (cp_Name cmd) (cp_Price cmd)) (tx_view s) (tx_view s')"
    "catalogue_of (tx_view s) (cp_ID cmd) = []"
proof -
  have v: "valid_data (cp_Name cmd) (cp_Price cmd)"
    using assms(1) create_product_tx_invalid [of cmd f i now c s] by auto
  with assms(1) have "Save f MarshalJSON c (created_aggregate i now cmd) s = (None, s')"
    by (auto simp: create_product_tx_valid split: prod.splits option.splits)
  note sv = Save_catalogue [OF this, of "created_event i now cmd"]
  show "makes_change (cp_ID cmd) (Created (cp_Name cmd) (cp_Price cmd)) (tx_view s) (tx_view s')"
    using sv(1) v assms(2) by (simp add: makes_change_def)
  have "stream_len (cp_ID cmd) (tx_view s) = 0" using sv(2) assms(2) by simp
  then show "catalogue_of (tx_view s) (cp_ID cmd) = []"
    using catalogue_length [of "tx_view s" "cp_ID cmd"] by simp
qed

lemma update_product_finish_change:
  assumes "update_product_finish f i now cmd p c s = (None, s')" "write_inv (tx_view s)"
    and "ar_events p = []" "0 \<le> ar_version p" "ar_version p \<le> stream_len (up_ID cmd) (tx_view s)"
  shows "makes_change (up_ID cmd) (Updated (up_Name cmd) (up_Price cmd)) (tx_view s) (tx_view s')"
    "ar_version p = stream_len (up_ID cmd) (tx_view s)"
proof -
  have v: "valid_data (up_Name cmd) (up_Price cmd)"
    using assms(1) update_product_finish_invalid [of cmd f i now p c s] by auto
  with assms(1) have "Save f MarshalJSON c (saved_update i now cmd p) s = (None, s')"
    by (auto simp: update_product_finish_valid split: prod.splits option.splits)
  note sv = Save_catalogue [OF this, of "updated_event i now cmd (ar_version p + 1)"]
  show "makes_change (up_ID cmd) (Updated (up_Name cmd) (up_Price cmd)) (tx_view s) (tx_view s')"
    using sv(1) v assms(2-5) by (simp add: makes_change_def)
  show "ar_version p = stream_len (up_ID cmd) (tx_view s)" using sv(2) assms(2-5) by simp
qed

lemma framed_tx_cases:
  assumes "WithTransaction fn c s = (r, s')" "\<And>s r s'. fn TxCtx s = (r, s') \<Longrightarrow> same_outside s s'"
  obtains "r \<noteq> None" "committed s' = committed s"
  | s1 s2 where "fn TxCtx s1 = (None, s2)" "tx_view s1 = committed s" "committed s' = tx_view s2"
proof -
  have "committed s2 = committed s1" if "fn TxCtx s1 = (r1, s2)" for s1 r1 s2
    using assms(2) [OF that] by (rule same_outsideD)
  note d = this
  have "r \<noteq> None \<and> committed s' = committed s \<or>
    (\<exists>s1 s2. committed s1 = committed s \<and> fresh_tx s1 \<and> fn TxCtx s1 = (None, s2) \<and>
       tx_open s2 \<and> committed s' = tx_view s2)"
    by (rule pg.tx_atomic [OF assms(1)]) (rule d)
  with fresh_tx_view that show thesis by metis
qed

lemma create_change:
  assumes "CreateProductHandler_Handle f i now c cmd s = (r, s')" "write_inv (committed s)"
  shows "r \<noteq> None \<and> committed s' = committed s \<or>
    catalogue_of (committed s) (cp_ID cmd) = [] \<and>
    makes_change (cp_ID cmd) (Created (cp_Name cmd) (cp_Price cmd)) (committed s) (committed s')"
proof -
  have "WithTransaction (create_product_tx f i now cmd) c s = (r, s')"
    using assms(1) by (auto simp: CreateProductHandler_Handle_def split: prod.splits option.splits)
  then show ?thesis
  proof (rule framed_tx_cases)
    fix s1 s2 :: "'a session_scheme"
    assume "create_product_tx f i now cmd TxCtx s1 = (None, s2)" "tx_view s1 = committed s" "committed s' = tx_view s2"
    with create_product_tx_change [of f i now cmd TxCtx s1 s2] assms(2) show ?thesis by simp
  qed (use create_product_tx_frame in auto)
qed

lemma finish_change:
  assumes "WithTransaction (update_product_finish f i now cmd p) c s = (r, s')" "write_inv (committed s)"
    and "pending_ok (committed s) (cmd, p)"
  shows "r \<noteq> None \<and> committed s' = committed s \<or>
    ar_version p = stream_len (up_ID cmd) (committed s) \<and>
    makes_change (up_ID cmd) (Updated (up_Name cmd) (up_Price cmd)) (committed s) (committed s')"
  using assms(1)
proof (rule framed_tx_cases)
  fix s1 s2 :: "'a session_scheme"
  assume "update_product_finish f i now cmd p TxCtx s1 = (None, s2)" "tx_view s1 = committed s" "committed s' = tx_view s2"
  with update_product_finish_change [of f i now cmd p TxCtx s1 s2] assms(2,3) show ?thesis by (simp add: pending_ok_def)
qed (use update_product_finish_frame in auto)

section \<open>The clients implement the catalogue\<close>

text \<open>The specification in one list per product: a creation is never later than first.\<close>

definition created_first :: "catalogue \<Rightarrow> bool" where
  "created_first h \<longleftrightarrow> (\<forall>a n p. Created n p \<notin> set (tl (h a)))"

lemma set_tl_snoc: "y \<in> set (tl (xs @ [x])) \<Longrightarrow> y \<in> set (tl xs) \<or> y = x"
  by (cases xs) auto

lemma catalogue_step_created_first: "catalogue_step h h' \<Longrightarrow> created_first h \<Longrightarrow> created_first h'"
  by (erule catalogue_stepE) (auto simp: created_first_def dest: set_tl_snoc)

lemma catalogue_run_created_first: "catalogue_step\<^sup>*\<^sup>* h h' \<Longrightarrow> created_first h \<Longrightarrow> created_first h'"
  by (induction rule: rtranclp_induct) (auto intro: catalogue_step_created_first)

lemma change_step:
  assumes "makes_change a ch d d'" "(\<exists>n p. ch = Updated n p) \<or> catalogue_of d a = []"
  shows "catalogue_step (catalogue_of d) (catalogue_of d')"
proof (cases ch)
  case (Created n p)
  then have "catalogue_of d' = (catalogue_of d)(a := [Created n p])" "valid_data n p" "catalogue_of d a = []"
    using assms by (auto simp: makes_change_def)
  then show ?thesis using catalogue_step.create by metis
next
  case (Updated n p)
  then have "catalogue_of d' = (catalogue_of d)(a := catalogue_of d a @ [Updated n p])" "valid_data n p"
    using assms(1) by (simp_all add: makes_change_def)
  then show ?thesis using catalogue_step.update by metis
qed

lemma cmd_step_change:
  assumes "cmd_step f y y'" "cmd_inv y"
  shows "catalogue_of (sys_db y') = catalogue_of (sys_db y) \<or> catalogue_step (catalogue_of (sys_db y)) (catalogue_of (sys_db y'))"
  using assms(1)
proof cases
  case (create i now cmd fs r s')
  then show ?thesis using create_change [OF create(2)] change_step assms(2) by (auto simp: cmd_inv_def)
next
  case (load k cmd fs p s')
  then show ?thesis by simp
next
  case (finish k cmd p i now fs r s')
  then have "pending_ok (sys_db y) (cmd, p)" "write_inv (sys_db y)" using assms(2) by (simp_all add: cmd_inv_def)
  then show ?thesis using finish_change [OF finish(3)] change_step finish(1) by auto
qed

interpretation clients: simulation cmd_inv "cmd_step f" catalogue_step "\<lambda>y. catalogue_of (sys_db y)" for f
  by unfold_locales (use cmd_step_inv cmd_step_change in blast)+

lemma cmd_reachable_run:
  "cmd_reachable f y \<Longrightarrow> (cmd_step f)\<^sup>*\<^sup>* \<lparr>sys_db = empty_db, pending = (\<lambda>_. None)\<rparr> y"
  by (induction rule: cmd_reachable.induct) (auto intro: rtranclp.rtrancl_into_rtrancl)

lemma catalogue_empty: "catalogue_of empty_db = (\<lambda>_. [])"
  by (simp add: catalogue_of_def stream_def stream_rows_def)

text \<open>
  C11. The write side implements the catalogue: whatever concurrent clients do, under any faults,
  the history of the streams is a run of the specification, one atomic change or nothing per step
  of the clients; so every stored change has a name and a positive price, and no product is
  created after its first change.
\<close>

theorem clients_refine_catalogue:
  assumes "cmd_reachable f y"
  shows "catalogue_step\<^sup>*\<^sup>* (\<lambda>_. []) (catalogue_of (sys_db y)) \<and> created_first (catalogue_of (sys_db y)) \<and>
    (\<forall>y'. cmd_step f y y' \<longrightarrow> catalogue_of (sys_db y') = catalogue_of (sys_db y) \<or>
       catalogue_step (catalogue_of (sys_db y)) (catalogue_of (sys_db y')))"
proof -
  have "catalogue_step\<^sup>*\<^sup>* (\<lambda>_. []) (catalogue_of (sys_db y))"
    using clients.run_sim [OF cmd_reachable_run [OF assms] cmd_reachable_inv [OF cmd_reachable.start]]
    by (simp add: catalogue_empty)
  moreover from catalogue_run_created_first [OF this] have "created_first (catalogue_of (sys_db y))"
    by (simp add: created_first_def)
  ultimately show ?thesis using clients.step_sim [OF cmd_reachable_inv [OF assms]] by blast
qed

text \<open>A state with one product.\<close>

lemma sample_catalogue:
  "\<exists>y. cmd_reachable f y \<and> catalogue_of (sys_db y) = (\<lambda>_. [])(1 := [Created ''Widget'' (Finite 10)])"
proof -
  let ?s = "session_on empty_db []" and ?start = "\<lparr>sys_db = empty_db, pending = (\<lambda>_. None)\<rparr>"
  obtain s1 where s1: "CreateProductHandler_Handle f 2 0 Background sample_create ?s = (None, s1)" by (rule sample_created)
  have "cmd_step f ?start (?start\<lparr>sys_db := committed s1\<rparr>)" by (rule cmd_step.create) (use s1 in simp)
  then have "cmd_reachable f (?start\<lparr>sys_db := committed s1\<rparr>)" by (rule cmd_reachable.step [OF cmd_reachable.start])
  moreover have "catalogue_of (committed s1) = (\<lambda>_. [])(1 := [Created ''Widget'' (Finite 10)])"
    using create_change [OF s1] write_inv_empty by (simp add: makes_change_def catalogue_empty sample_create_def)
  ultimately show ?thesis by (intro exI [of _ "?start\<lparr>sys_db := committed s1\<rparr>"]) simp
qed

theorem clients_refine_catalogue_witness:
  "\<exists>y. cmd_reachable 5 y \<and> catalogue_of (sys_db y) 1 = [Created ''Widget'' (Finite 10)] \<and>
     catalogue_step\<^sup>*\<^sup>* (\<lambda>_. []) (catalogue_of (sys_db y))"
  using sample_catalogue [of 5] clients_refine_catalogue [of 5] by fastforce

text \<open>
  C4. Each command is atomic on the catalogue, and its result says so: a create that returns
  \<open>nil\<close> found the product's list empty and made the one change; the saving half of an update that
  returns \<open>nil\<close> found the list as long as the version it had loaded and appended its change; a
  command that returns an error has changed nothing, or it has made exactly its change.
\<close>

theorem commands_linearize:
  assumes "cmd_reachable f y" "pending y k = Some (ucmd, p)"
    and "CreateProductHandler_Handle f i now Background cmd (session_on (sys_db y) fs) = (r1, s1)"
    and "WithTransaction (update_product_finish f i now ucmd p) Background (session_on (sys_db y) fs) = (r2, s2)"
  shows "(r1 \<noteq> None \<and> committed s1 = sys_db y \<or>
      catalogue_of (sys_db y) (cp_ID cmd) = [] \<and>
      catalogue_of (committed s1) = (catalogue_of (sys_db y))(cp_ID cmd := [Created (cp_Name cmd) (cp_Price cmd)])) \<and>
    (r2 \<noteq> None \<and> committed s2 = sys_db y \<or>
      int (length (catalogue_of (sys_db y) (up_ID ucmd))) = ar_version p \<and>
      catalogue_of (committed s2) = (catalogue_of (sys_db y))
        (up_ID ucmd := catalogue_of (sys_db y) (up_ID ucmd) @ [Updated (up_Name ucmd) (up_Price ucmd)]))"
proof -
  have inv: "write_inv (sys_db y)" "pending_ok (sys_db y) (ucmd, p)"
    using cmd_reachable_inv [OF assms(1)] assms(2) by (simp_all add: cmd_inv_def)
  with create_change [OF assms(3)] finish_change [OF assms(4)] show ?thesis
    by (auto simp: makes_change_def catalogue_length)
qed

theorem commands_linearize_witness:
  "\<exists>s1 s2. CreateProductHandler_Handle 5 2 0 Background sample_create (session_on empty_db []) = (None, s1) \<and>
     WithTransaction (update_product_finish 5 2 0 sample_update NewProductAggregateEmpty) Background (session_on empty_db []) = (None, s2) \<and>
     catalogue_of (committed s1) 1 = [Created ''Widget'' (Finite 10)] \<and> catalogue_of (committed s2) 1 = [Updated ''Gadget'' (Finite 20)]"
proof (rule sample_pending)
  fix y s2
  assume y: "cmd_reachable 5 y" "sys_db y = empty_db" "pending y 0 = Some (sample_update, NewProductAggregateEmpty)"
    and s2: "WithTransaction (update_product_finish 5 2 0 sample_update NewProductAggregateEmpty) Background
      (session_on (sys_db y) []) = (None, s2)"
  obtain s1 where s1: "CreateProductHandler_Handle 5 2 0 Background sample_create (session_on empty_db []) = (None, s1)"
    by (rule sample_created)
  from commands_linearize [OF y(1,3) s1 [folded y(2)] s2] s1 s2 y(2) show ?thesis
    by (simp add: catalogue_empty sample_create_def sample_update_def)
qed

end
