(* ===== verification/Application.thy ===== *)
theory Application
  imports Sample_Run Schema Catalogue
begin

text \<open>
  The whole application against the catalogue: every step of every part is a change of the
  catalogue or invisible to it, and what a query returns is a state that the product has had. The
  locale \<open>application\<close> is the program with libraries that keep their promises; the in-memory
  libraries of theory \<open>Simulation\<close> are an instance.
\<close>

locale application =
  fixes l :: "('j, 'q, 'm) libs" and stored :: "'j \<Rightarrow> (string \<times> json) list" and acks :: "'j \<Rightarrow> 'm set" and j0 :: 'j
  assumes libs: "libs_ok l stored acks j0"
begin

lemma step_inv: "app_inv l stored acks y \<Longrightarrow> app_step f n l y y' \<Longrightarrow> app_inv l stored acks y'"
  using app_step_inv [OF _ libs] .

lemma step_change:
  assumes "app_inv l stored acks y" "app_step f n l y y'"
  shows "catalogue_of (app_db y') = catalogue_of (app_db y) \<or> catalogue_step (catalogue_of (app_db y)) (catalogue_of (app_db y'))"
  using assms(2)
proof cases
  case (command c)
  then show ?thesis using cmd_step_change [OF command(2) app_invD(1) [OF assms(1)]] by simp
next
  case (fetch k fs s1 es s2)
  then show ?thesis by simp
next
  case (finish xs k es zs fs r w')
  have "event_store (committed w') = event_store (app_db y)"
    by (rule batch_rest_cases [OF finish(3) processor_quiet finish_session_simps(3)]) auto
  then show ?thesis using catalogue_cong [of "committed w'" "app_db y"] finish(1) by simp
next
  case (turn q fs w')
  have "event_store (committed w') = event_store (app_db y)"
    using turn_tables [OF libs turn(2) assms(1)] by (simp add: write_tables_def)
  then show ?thesis using catalogue_cong [of "committed w'" "app_db y"] turn(1) by simp
qed

end

sublocale application \<subseteq> app: simulation "app_inv l stored acks" "app_step f n l" catalogue_step
  "\<lambda>y. catalogue_of (app_db y)" for f n
  by unfold_locales (use step_inv step_change in blast)+

context application begin

text \<open>The initial state, and reachability as a run.\<close>

abbreviation app_start :: "'j app" where
  "app_start \<equiv> \<lparr>app_db = empty_db, app_pending = (\<lambda>_. None), app_held = [], app_bus = j0\<rparr>"

lemma reachable_run: "app_reachable f n l j0 y \<Longrightarrow> (app_step f n l)\<^sup>*\<^sup>* app_start y"
  by (induction rule: app_reachable.induct) (auto intro: rtranclp.rtrancl_into_rtrancl)

lemma reachable_catalogue:
  assumes "app_reachable f n l j0 y"
  shows "catalogue_step\<^sup>*\<^sup>* (\<lambda>_. []) (catalogue_of (app_db y))"
  using app.run_sim [OF reachable_run [OF assms] app_reachable_inv [OF app_reachable.start libs]]
  by (simp add: catalogue_empty)

text \<open>A row of the view is the change of its version.\<close>

lemma row_change:
  assumes "app_reachable f n l j0 y" "row \<in> set (product_views (app_db y))"
  obtains ch where "1 \<le> vr_version row" "nat (vr_version row) \<le> length (catalogue_of (app_db y) (vr_id row))"
    "ch = catalogue_of (app_db y) (vr_id row) ! (nat (vr_version row) - 1)"
    "vr_name row = change_name ch" "lib_enc l (change_price ch) = Inr (vr_price row)"
proof -
  let ?d = "app_db y"
  note inv = app_invD [OF app_reachable_inv [OF assms(1) libs]]
  obtain e where e: "e \<in> set (event_store ?d)" "row_shows (lib_enc l) e row"
    using inv(5) assms(2) unfolding view_inv_def by blast
  have wf: "store_wf ?d" "contiguous ?d" using inv(7) by (simp_all add: write_inv_def)
  have valid: "valid_row e" using wf(1) e(1) by (simp add: store_wf_def)
  have sized: "row_sized e" using valid by (simp add: valid_row_def)
  have key: "oe_AggregateID e = vr_id row" "oe_Version e = vr_version row" using e(2) by (simp_all add: row_shows_def)
  have mem: "event_of_row e \<in> set (stream (vr_id row) ?d)" using e(1) key(1) by (simp add: stream_def set_stream_rows)
  have "(vr_id row, vr_version row) \<in> row_key ` set (event_store ?d)" using imageI [OF e(1), of row_key] key by simp
  then have v: "1 \<le> vr_version row" "vr_version row \<le> stream_len (vr_id row) ?d" using key_taken_iff [OF wf(2)] by simp_all
  have len: "nat (vr_version row) \<le> length (catalogue_of ?d (vr_id row))"
    using v catalogue_length [of ?d "vr_id row"] by linarith
  let ?k = "nat (vr_version row) - 1"
  have k: "?k < length (stream (vr_id row) ?d)" using v len by (simp add: catalogue_of_def)
  have "Version (stream (vr_id row) ?d ! ?k) = map Version (stream (vr_id row) ?d) ! ?k" using k by simp
  also have "\<dots> = vr_version row"
    unfolding stream_versions [OF inv(7)] using v by (subst nth_upto) auto
  also have "\<dots> = Version (event_of_row e)" using valid_row_fields(3) [OF valid] key(2) by simp
  finally have "stream (vr_id row) ?d ! ?k = event_of_row e"
    by (intro stream_event_unique [OF inv(7) _ mem]) (use k in simp_all)
  then have ch: "catalogue_of ?d (vr_id row) ! ?k = change_of (event_of_row e)" using k by (simp add: catalogue_of_def)
  have "event_data e = body (event_of_row e)"
    by (rule event_row_good(2) [OF valid_row_decode(2) [OF valid] sized])
  moreover have "change_name (change_of ev) = Name (body ev)" "change_price (change_of ev) = Price (body ev)" for ev
    by (cases ev; simp)+
  ultimately show thesis
    using that [OF v(1) len refl] e(2) ch by (simp add: row_shows_def)
qed

end

interpretation mem_app: application "mem_libs enc" mj_stored "\<lambda>j. set (mj_acked j)" mem_js_empty for enc
  by unfold_locales (rule mem_libs_ok)

text \<open>A query that succeeds returns a row of the view.\<close>

lemma query_row:
  assumes "GetProductByIDHandler_Query dec c q s = (Inr v, s')"
  obtains row where "row \<in> set (product_views (committed s))" "vr_id row = gp_ID q" "pv_ID v = gp_ID q"
    "pv_Name v = vr_name row" "pv_Version v = vr_version row" "dec (vr_price row) = Inr (pv_Price v)"
proof -
  obtain x s1 where x: "pool_Query (view_of (gp_ID q)) s = (x, s1)" by fastforce
  with assms obtain row where row: "x = Inr (Some row)" "dec (vr_price row) = Inr (pv_Price v)"
    "v = \<lparr>pv_ID = vr_id row, pv_Name = vr_name row, pv_Price = pv_Price v, pv_CreatedAt = vr_created_at row,
      pv_UpdatedAt = vr_updated_at row, pv_Version = vr_version row\<rparr>"
    by (auto simp: GetProductByIDHandler_Query_def GetProductViewByID_def split: prod.splits sum.splits option.splits)
  then have "view_of (gp_ID q) (committed s) = Some row" using pool_Query_ok x by metis
  then have "row \<in> set (product_views (committed s))" "vr_id row = gp_ID q"
    by (auto simp: view_of_def find_Some_iff)
  moreover have "pv_ID v = vr_id row" "pv_Name v = vr_name row" "pv_Version v = vr_version row"
    by (subst row(3), simp)+
  ultimately show thesis using that row(2) by simp
qed

end
