(* ===== verification/Catch_Up.thy ===== *)
theory Catch_Up
  imports Application
begin

text \<open>
  The read model can always be brought up to date: on the in-memory server of theory \<open>Nats\<close> and a
  database that has stopped failing, the turns of the subscriber alone acknowledge every message
  that is stored, and the view shows the last version of every product. The stream must hold the
  events of each product in order: an event that overtakes its predecessor is refused, and enough
  of those at the front of the stream would keep the server from handing out anything else.
\<close>

section \<open>Deliveries that are not refused\<close>

fun accepts :: "(float64 \<Rightarrow> error + int) \<Rightarrow> db \<Rightarrow> OutboxEvent list \<Rightarrow> bool" where
  "accepts enc d [] \<longleftrightarrow> True"
| "accepts enc d (e # es) \<longleftrightarrow> \<not> refused e d \<and> accepts enc (project_db enc e d) es"

text \<open>\<open>e'\<close> is the event before \<open>e\<close> in the stream of its product.\<close>

definition precedes :: "OutboxEvent \<Rightarrow> OutboxEvent \<Rightarrow> bool" where
  "precedes e' e \<longleftrightarrow> oe_AggregateID e' = oe_AggregateID e \<and> oe_Version e' = oe_Version e - 1"

text \<open>Versions of the view are not negative.\<close>

definition versions_nonneg :: "db \<Rightarrow> bool" where
  "versions_nonneg d \<longleftrightarrow> (\<forall>i. 0 \<le> view_version i d)"

lemma project_db_nonneg: "fits enc e \<Longrightarrow> versions_nonneg d \<Longrightarrow> versions_nonneg (project_db enc e d)"
  using project_db_version [of enc e _ d] by (auto simp: versions_nonneg_def fits_def)

lemma not_refused:
  assumes "no_loss E d" "versions_nonneg d" "oe_Version e = 1 \<or> (\<exists>p \<in> E. precedes p e \<and> marked p d)"
  shows "\<not> refused e d"
proof -
  have "oe_Version e \<le> view_version (oe_AggregateID e) d + 1"
    using assms(3)
  proof
    assume "oe_Version e = 1"
    then show ?thesis using assms(2) by (simp add: versions_nonneg_def)
  next
    assume "\<exists>p \<in> E. precedes p e \<and> marked p d"
    then obtain p where p: "p \<in> E" "precedes p e" "marked p d" by blast
    with assms(1) have "oe_Version p \<le> view_version (oe_AggregateID p) d" by (simp add: no_loss_def)
    with p(2) show ?thesis by (simp add: precedes_def)
  qed
  then show ?thesis by (simp add: refused_def)
qed

lemma accepts_in_order:
  assumes "no_loss E d" "versions_nonneg d" "inj_on oe_EventID E" "\<And>e. e \<in> set es \<Longrightarrow> fits enc e \<and> e \<in> E"
    and "\<And>i. i < length es \<Longrightarrow> oe_Version (es ! i) = 1 \<or>
      (\<exists>p \<in> E. precedes p (es ! i) \<and> (marked p d \<or> p \<in> set (take i es)))"
  shows "accepts enc d es"
  using assms
proof (induction es arbitrary: d)
  case Nil
  then show ?case by simp
next
  case (Cons e es)
  let ?d = "project_db enc e d"
  have e: "fits enc e" "e \<in> E" using Cons.prems(4) by simp_all
  have nr: "\<not> refused e d" by (rule not_refused [OF Cons.prems(1,2)]) (use Cons.prems(5) [of 0] in simp)
  have "oe_Version (es ! i) = 1 \<or> (\<exists>p \<in> E. precedes p (es ! i) \<and> (marked p ?d \<or> p \<in> set (take i es)))"
    if "i < length es" for i
    using Cons.prems(5) [of "Suc i"] that nr by (auto simp: project_db_marked)
  with Cons.IH [OF project_db_no_loss [OF Cons.prems(1) e Cons.prems(3)] project_db_nonneg [OF e(1) Cons.prems(2)] Cons.prems(3)]
    Cons.prems(4) nr show ?case by simp
qed

section \<open>One turn of the subscriber\<close>

text \<open>What a message decodes to, and the messages of a batch that the handler does not refuse.\<close>

definition event_in :: "nat \<times> json \<Rightarrow> OutboxEvent" where
  "event_in m = (case unmarshal_outbox (snd m) zero_outbox of Inl err \<Rightarrow> zero_outbox | Inr e \<Rightarrow> e)"

fun taken :: "(float64 \<Rightarrow> error + int) \<Rightarrow> db \<Rightarrow> (nat \<times> json) list \<Rightarrow> (nat \<times> json) list" where
  "taken enc d [] = []"
| "taken enc d (m # ms) =
     (let rest = taken enc (project_db enc (event_in m) d) ms in if refused (event_in m) d then rest else m # rest)"

lemma taken_accepts: "accepts enc d (map event_in ms) \<Longrightarrow> taken enc d ms = ms"
  by (induction ms arbitrary: d) simp_all

lemma set_taken: "set (taken enc d ms) \<subseteq> set ms"
  by (induction ms arbitrary: d) (auto simp: Let_def)

text \<open>A message that is taken is acknowledged; one that is refused stays where it is.\<close>

lemma handle_batch:
  assumes "faults w = []" "\<And>m. m \<in> set ms \<Longrightarrow> unmarshal_outbox (snd m) zero_outbox = Inr (event_in m) \<and> good_event (event_in m)"
  shows "\<exists>w'. handle_msgs mem_jetstream (app_handler (mem_libs enc)) ms w = w' \<and> faults w' = [] \<and> locked w' = locked w \<and>
    committed w' = fold (project_db enc) (map event_in ms) (committed w) \<and>
    bus w' = (bus w)\<lparr>mj_acked := rev (taken enc (committed w) ms) @ mj_acked (bus w)\<rparr>"
  using assms
proof (induction ms arbitrary: w)
  case Nil
  then show ?case by simp
next
  case (Cons m ms)
  let ?e = "event_in m" and ?h = "app_handler (mem_libs enc)"
  have dec: "unmarshal_outbox (js_Data mem_jetstream m) zero_outbox = Inr ?e" and good: "good_event ?e"
    using Cons.prems(2) [of m] by (simp_all add: mem_jetstream_def)
  obtain r w1 where run: "deliver wrap_permanent four_tries enc ?e w = (r, w1)" "faults w1 = []"
    "committed w1 = project_db enc ?e (committed w)" "r = None \<longleftrightarrow> \<not> refused ?e (committed w)"
    using deliver_nofault [OF four_tries_ok Cons.prems(1) good, of enc] by (auto split: if_splits)
  have b: "bus w1 = bus w" "locked w1 = locked w"
    using world_bus [of w1 w] deliver_outside [OF four_tries_still run(1)] by (simp_all add: outside_def)
  have h: "?h Background ?e w = (r, w1)" using run(1) by (simp add: deliver_app)
  let ?w2 = "if r = None then w1\<lparr>bus := (bus w1)\<lparr>mj_acked := m # mj_acked (bus w1)\<rparr>\<rparr> else w1"
  have "handle_msgs mem_jetstream ?h (m # ms) w = handle_msgs mem_jetstream ?h ms ?w2"
    using dec h by (cases r) (simp_all, simp_all add: mem_jetstream_def)
  moreover note Cons.IH [of ?w2] Cons.prems(2) run b
  ultimately show ?case by (auto simp: Let_def)
qed

section \<open>The messages that are not acknowledged yet\<close>

abbreviation msgs_of :: "mem_js \<Rightarrow> (nat \<times> json) list" where
  "msgs_of j \<equiv> enumerate 0 (map snd (mj_stored j))"

definition unacked :: "mem_js \<Rightarrow> (nat \<times> json) list" where
  "unacked j = filter (\<lambda>m. m \<notin> set (mj_acked j)) (msgs_of j)"

text \<open>
  Every event of a list is the first of its product or comes after its predecessor, which may also
  be one of the events that were there before the list.
\<close>

definition chained :: "OutboxEvent list \<Rightarrow> OutboxEvent list \<Rightarrow> bool" where
  "chained before es \<longleftrightarrow>
     list_all (\<lambda>i. oe_Version (es ! i) = 1 \<or> list_ex (\<lambda>p. precedes p (es ! i)) (before @ take i es)) [0..<length es]"

abbreviation in_order :: "OutboxEvent list \<Rightarrow> bool" where
  "in_order \<equiv> chained []"

lemma chained_iff:
  "chained xs es \<longleftrightarrow> (\<forall>i<length es. oe_Version (es ! i) = 1 \<or> (\<exists>p \<in> set xs \<union> set (take i es). precedes p (es ! i)))"
  by (auto simp: chained_def list_all_iff list_ex_iff)

lemma unacked_sorted: "sorted_wrt (\<lambda>m m'. fst m < fst m') (unacked j)"
proof -
  have "sorted_wrt (\<lambda>m m'. fst m < fst m') (msgs_of j)"
    by (simp add: sorted_wrt_iff_nth_less nth_enumerate_eq)
  then show ?thesis unfolding unacked_def by (rule sorted_wrt_filter)
qed

lemma unacked_distinct: "distinct (unacked j)"
  by (simp add: unacked_def)

lemma unacked_ack: "unacked (j\<lparr>mj_acked := rev (take k (unacked j)) @ mj_acked j\<rparr>) = drop k (unacked j)"
proof -
  let ?u = "unacked j"
  have "unacked (j\<lparr>mj_acked := rev (take k ?u) @ mj_acked j\<rparr>) = filter (\<lambda>m. m \<notin> set (take k ?u)) ?u"
    by (simp add: unacked_def conj_commute)
  also have "\<dots> = filter (\<lambda>m. m \<notin> set (take k ?u)) (take k ?u @ drop k ?u)" by simp
  also have "\<dots> = drop k ?u"
    using set_take_disj_set_drop_if_distinct [OF unacked_distinct, of k k j]
    by (simp only: filter_append) (auto simp: filter_id_conv filter_empty_conv)
  finally show ?thesis .
qed

text \<open>In a stream in order, the predecessor of the next message is acknowledged or next before it.\<close>

lemma unacked_in_order:
  assumes "in_order (map event_in (msgs_of j))" "i < length (unacked j)"
  shows "oe_Version (event_in (unacked j ! i)) = 1 \<or>
    (\<exists>m \<in> set (msgs_of j). precedes (event_in m) (event_in (unacked j ! i)) \<and> (m \<in> set (mj_acked j) \<or> m \<in> set (take i (unacked j))))"
proof -
  let ?ms = "msgs_of j" and ?u = "unacked j"
  have "?u ! i \<in> set ?ms" using nth_mem [OF assms(2)] by (simp add: unacked_def)
  then obtain n where n: "n < length ?ms" "?u ! i = ?ms ! n" by (metis in_set_conv_nth)
  then have at: "fst (?u ! i) = n" by (simp add: nth_enumerate_eq)
  have "oe_Version (event_in (?ms ! n)) = 1 \<or> (\<exists>k<n. precedes (event_in (?ms ! k)) (event_in (?ms ! n)))"
    using assms(1) n(1) by (fastforce simp: chained_iff in_set_conv_nth)
  then show ?thesis
  proof
    assume "\<exists>k<n. precedes (event_in (?ms ! k)) (event_in (?ms ! n))"
    then obtain k where k: "k < n" "precedes (event_in (?ms ! k)) (event_in (?u ! i))" using n(2) by auto
    have m: "?ms ! k \<in> set ?ms" using k(1) n(1) by (intro nth_mem) simp
    have "?ms ! k \<in> set (take i ?u)" if "?ms ! k \<notin> set (mj_acked j)"
    proof -
      have "?ms ! k \<in> set ?u" using that m by (simp add: unacked_def)
      then obtain a where a: "a < length ?u" "?u ! a = ?ms ! k" by (metis in_set_conv_nth)
      have "fst (?u ! a) = k" using a(2) k(1) n(1) by (simp add: nth_enumerate_eq)
      then have "a < i"
        using unacked_sorted [of j] a(1) assms(2) at k(1)
        by (metis linorder_less_linear order_less_asym sorted_wrt_nth_less)
      with a assms(2) show ?thesis by (auto simp: in_set_conv_nth)
    qed
    with k(2) m show ?thesis by blast
  qed (use n(2) in simp)
qed

section \<open>Turns until nothing is left\<close>

text \<open>The messages of the stream are those of the events \<open>E\<close>; they are in order.\<close>

definition stream_known :: "(float64 \<Rightarrow> error + int) \<Rightarrow> OutboxEvent set \<Rightarrow> mem_js \<Rightarrow> bool" where
  "stream_known enc E j \<longleftrightarrow> inj_on oe_EventID E \<and> (\<forall>e \<in> E. fits enc e) \<and>
     (\<forall>m \<in> set (msgs_of j). unmarshal_outbox (snd m) zero_outbox = Inr (event_in m) \<and> event_in m \<in> E)"

abbreviation stream_ok :: "(float64 \<Rightarrow> error + int) \<Rightarrow> OutboxEvent set \<Rightarrow> mem_js \<Rightarrow> bool" where
  "stream_ok enc E j \<equiv> stream_known enc E j \<and> in_order (map event_in (msgs_of j))"

definition following :: "OutboxEvent set \<Rightarrow> mem_js world \<Rightarrow> bool" where
  "following E w \<longleftrightarrow> faults w = [] \<and> no_loss E (committed w) \<and> versions_nonneg (committed w) \<and>
     (\<forall>m \<in> set (mj_acked (bus w)). marked (event_in m) (committed w))"

lemma project_all_nonneg:
  "(\<And>e. e \<in> set es \<Longrightarrow> fits enc e) \<Longrightarrow> versions_nonneg d \<Longrightarrow> versions_nonneg (fold (project_db enc) es d)"
  by (induction es arbitrary: d) (simp_all add: project_db_nonneg)

lemma project_all_marked:
  "marked e d \<or> accepts enc d es \<and> e \<in> set es \<Longrightarrow> marked e (fold (project_db enc) es d)"
  by (induction es arbitrary: d) (auto simp: project_db_marked)

lemma taken_marked: "m \<in> set (taken enc d ms) \<Longrightarrow> marked (event_in m) (fold (project_db enc) (map event_in ms) d)"
proof (induction ms arbitrary: d)
  case (Cons m' ms)
  then show ?case
    by (auto simp: Let_def project_db_marked intro: project_all_marked split: if_splits)
qed simp

text \<open>A turn hands out the first ten messages that are not acknowledged.\<close>

lemma turn_effect:
  assumes "stream_known enc E (bus w)" "following E w"
  obtains w' where "fetch_turn mem_jetstream (app_handler (mem_libs enc)) () w = w'" "following E w'"
    "committed w' = fold (project_db enc) (map event_in (take 10 (unacked (bus w)))) (committed w)"
    "bus w' = (bus w)\<lparr>mj_acked := rev (taken enc (committed w) (take 10 (unacked (bus w)))) @ mj_acked (bus w)\<rparr>"
    "locked w' = locked w"
proof -
  let ?ms = "take 10 (unacked (bus w))" and ?h = "app_handler (mem_libs enc)"
  note s = assms(1) [unfolded stream_known_def] and f = assms(2) [unfolded following_def]
  have ms: "m \<in> set (msgs_of (bus w))" if "m \<in> set ?ms" for m
    using that in_set_takeD by (fastforce simp: unacked_def)
  have es: "fits enc e \<and> e \<in> E" if "e \<in> set (map event_in ?ms)" for e using that ms s by auto
  have dec: "unmarshal_outbox (snd m) zero_outbox = Inr (event_in m) \<and> good_event (event_in m)" if "m \<in> set ?ms" for m
    using ms [OF that] s by (auto simp: fits_def)
  obtain w' where w': "handle_msgs mem_jetstream ?h ?ms w = w'" "faults w' = []"
    "committed w' = fold (project_db enc) (map event_in ?ms) (committed w)"
    "bus w' = (bus w)\<lparr>mj_acked := rev (taken enc (committed w) ?ms) @ mj_acked (bus w)\<rparr>" "locked w' = locked w"
    using handle_batch [OF _ dec, of w ?ms enc] f by auto
  have turn: "fetch_turn mem_jetstream ?h () w = w'"
    using w'(1) by (simp add: fetch_turn_def) (simp add: mem_jetstream_def unacked_def)
  have "marked (event_in m) (committed w')" if "m \<in> set (mj_acked (bus w'))" for m
    using that f taken_marked [of m enc "committed w" ?ms] unfolding w'(3) by (auto simp: w'(4) intro: project_all_marked)
  then have "following E w'"
    using w'(2) f s es project_all_no_loss [of E _ "map event_in ?ms" enc] project_all_nonneg [of "map event_in ?ms" enc]
    unfolding following_def w'(3) by simp
  with turn w' show thesis by (intro that [of w']) simp_all
qed

text \<open>In a stream in order all of them are taken.\<close>

lemma stream_accepts:
  assumes "stream_ok enc E (bus w)" "following E w"
  shows "accepts enc (committed w) (map event_in (take 10 (unacked (bus w))))"
proof (rule accepts_in_order [of E])
  let ?u = "unacked (bus w)" and ?es = "map event_in (take 10 (unacked (bus w)))"
  have s: "inj_on oe_EventID E" "in_order (map event_in (msgs_of (bus w)))" "\<And>m. m \<in> set (msgs_of (bus w)) \<Longrightarrow> event_in m \<in> E \<and> fits enc (event_in m)"
    using assms(1) by (auto simp: stream_known_def)
  note f = assms(2) [unfolded following_def]
  show "no_loss E (committed w)" "versions_nonneg (committed w)" "inj_on oe_EventID E" using f s(1) by simp_all
  have "set ?es \<subseteq> event_in ` set (msgs_of (bus w))" using set_take_subset by (fastforce simp: unacked_def)
  with s(3) show "fits enc e \<and> e \<in> E" if "e \<in> set ?es" for e using that by blast
  fix i
  assume i: "i < length ?es"
  then have "oe_Version (event_in (?u ! i)) = 1 \<or>
      (\<exists>m \<in> set (msgs_of (bus w)). precedes (event_in m) (event_in (?u ! i)) \<and>
        (m \<in> set (mj_acked (bus w)) \<or> m \<in> set (take i ?u)))"
    using s(2) by (intro unacked_in_order) simp_all
  moreover have "take i ?es = map event_in (take i ?u)" "?es ! i = event_in (?u ! i)"
    using i by (auto simp: take_map)
  ultimately show "oe_Version (?es ! i) = 1 \<or> (\<exists>p \<in> E. precedes p (?es ! i) \<and> (marked p (committed w) \<or> p \<in> set (take i ?es)))"
    using s(3) f by (metis (no_types, lifting) imageI list.set_map)
qed

lemma turn_catches:
  assumes "stream_ok enc E (bus w)" "following E w"
  obtains w' where "fetch_turn mem_jetstream (app_handler (mem_libs enc)) () w = w'" "following E w'"
    "committed w' = fold (project_db enc) (map event_in (take 10 (unacked (bus w)))) (committed w)"
    "mj_stored (bus w') = mj_stored (bus w)" "unacked (bus w') = drop 10 (unacked (bus w))"
proof (rule turn_effect [of enc E w])
  fix w'
  assume w': "fetch_turn mem_jetstream (app_handler (mem_libs enc)) () w = w'" "following E w'"
    "committed w' = fold (project_db enc) (map event_in (take 10 (unacked (bus w)))) (committed w)"
    "bus w' = (bus w)\<lparr>mj_acked := rev (taken enc (committed w) (take 10 (unacked (bus w)))) @ mj_acked (bus w)\<rparr>"
  note w'(4) [unfolded taken_accepts [OF stream_accepts [OF assms]]]
  then show thesis by (intro that [OF w'(1-3)]) (simp_all add: unacked_ack)
qed (use assms in blast)+

text \<open>Turn after turn, ten messages each.\<close>

lemma turns_catch:
  assumes "stream_ok enc E (bus w)" "following E w"
  shows "\<exists>w'. subscriber_loop mem_jetstream (app_handler (mem_libs enc)) () (replicate k False) w = (False, w') \<and>
    following E w' \<and> committed w' = fold (project_db enc) (map event_in (take (10 * k) (unacked (bus w)))) (committed w) \<and>
    mj_stored (bus w') = mj_stored (bus w) \<and> unacked (bus w') = drop (10 * k) (unacked (bus w))"
  using assms
proof (induction k arbitrary: w)
  case 0
  then show ?case by simp
next
  case (Suc k)
  obtain w1 where w1: "fetch_turn mem_jetstream (app_handler (mem_libs enc)) () w = w1" "following E w1"
    "committed w1 = fold (project_db enc) (map event_in (take 10 (unacked (bus w)))) (committed w)"
    "mj_stored (bus w1) = mj_stored (bus w)" "unacked (bus w1) = drop 10 (unacked (bus w))"
    by (rule turn_catches [OF Suc.prems])
  have "stream_ok enc E (bus w1)" using Suc.prems(1) w1(4) by (simp add: stream_known_def)
  note ih = Suc.IH [OF this w1(2)]
  have "take (10 * Suc k) u = take 10 u @ take (10 * k) (drop 10 u)" "drop (10 * Suc k) u = drop (10 * k) (drop 10 u)"
    for u :: "(nat \<times> json) list" by (simp_all add: take_add add.commute)
  with ih show ?case using w1 by (simp del: mult_Suc_right drop_drop)
qed

lemma unacked_all_acked: "unacked j = [] \<Longrightarrow> m \<in> set (msgs_of j) \<Longrightarrow> m \<in> set (mj_acked j)"
  by (simp add: unacked_def filter_empty_conv)

section \<open>From a reachable state\<close>

text \<open>In a reachable state the messages are stored events, and what is acknowledged is marked.\<close>

lemma message_decodes:
  assumes "messages_known us (mj_stored j) d" "write_inv d" "m \<in> set (msgs_of j)"
  shows "unmarshal_outbox (snd m) zero_outbox = Inr (event_in m) \<and> event_in m \<in> set (event_store d)"
proof -
  have "snd m \<in> snd ` set (mj_stored j)"
    using assms(3) by (metis imageI list.set_map map_snd_enumerate)
  from known_message_decodes [OF assms(1) this assms(2)] show ?thesis by (auto simp: event_in_def)
qed

lemma reachable_follows:
  assumes "app_inv (mem_libs enc) mj_stored (\<lambda>j. set (mj_acked j)) y"
    and "list_all (fits enc) (event_store (app_db y))" "no_loss (set (event_store (app_db y))) (app_db y)"
  shows "stream_known enc (set (event_store (app_db y))) (bus (app_world y []))"
    "following (set (event_store (app_db y))) (app_world y [])"
proof -
  note i = app_invD [OF assms(1)]
  note dec = message_decodes [OF i(4,7)]
  have "inj_on oe_EventID (set (event_store (app_db y)))"
    using i(7) by (simp add: write_inv_def store_wf_def distinct_map)
  with dec assms(2) show "stream_known enc (set (event_store (app_db y))) (bus (app_world y []))"
    by (simp add: stream_known_def list_all_iff)
  have "versions_nonneg (app_db y)"
    unfolding versions_nonneg_def
  proof
    fix a
    show "0 \<le> view_version a (app_db y)"
    proof (cases "view_of a (app_db y)")
      case (Some row)
      then have "row \<in> set (product_views (app_db y))" by (auto simp: view_of_def find_Some_iff)
      with i(5) obtain e where "e \<in> set (event_store (app_db y))" "row_shows (lib_enc (mem_libs enc)) e row"
        unfolding view_inv_def by blast
      with Some assms(2) show ?thesis by (auto simp: view_version_def row_shows_def list_all_iff fits_def)
    qed (simp add: view_version_def)
  qed
  moreover have "marked (event_in m) (app_db y)" if m: "m \<in> set (mj_acked (app_bus y))" for m
  proof -
    obtain e where "unmarshal_outbox (snd m) zero_outbox = Inr e" "recorded e (app_db y)"
      using i(6) m unfolding acks_recorded_def by (auto simp: mem_jetstream_def)
    then show ?thesis by (simp add: event_in_def marked_def)
  qed
  ultimately show "following (set (event_store (app_db y))) (app_world y [])"
    using assms(3) by (simp add: following_def app_world_def)
qed

lemma project_db_write_tables: "write_tables (project_db enc e d) = write_tables d"
  by (auto simp: write_tables_def project_db_def mark_db_def apply_event_def view_stmt_def run_stmt_def Let_def
      split: option.split if_splits sum.splits)

lemma project_all_write_tables: "write_tables (fold (project_db enc) es d) = write_tables d"
  by (induction es arbitrary: d) (simp_all add: project_db_write_tables)

lemma stored_message:
  assumes "x \<in> set (mj_stored j)"
  obtains m where "m \<in> set (msgs_of j)" "snd m = snd x"
proof -
  have "snd x \<in> set (map snd (msgs_of j))" using assms by simp
  then show thesis using that by (auto simp del: map_snd_enumerate)
qed

text \<open>The view is never ahead of the stream, and not behind the events that are marked.\<close>

lemma view_version_stream:
  assumes "view_inv enc (set (event_store d)) d" "contiguous d"
  shows "view_version a d \<le> stream_len a d"
proof (cases "view_of a d")
  case (Some row)
  then have "row \<in> set (product_views d)" "vr_id row = a" by (auto simp: view_of_def find_Some_iff)
  then have "\<exists>e \<in> set (event_store d). row_key e = (a, vr_version row)"
    using assms(1) unfolding view_inv_def by (auto simp: row_shows_def)
  then have "(a, vr_version row) \<in> row_key ` set (event_store d)" by force
  then show ?thesis using key_taken_iff [OF assms(2)] Some by (simp add: view_version_def)
qed (simp add: view_version_def)

lemma all_marked_version:
  assumes "contiguous d" "\<forall>e \<in> set (event_store d). marked e d'" "no_loss (set (event_store d)) d'" "versions_nonneg d'"
  shows "stream_len a d \<le> view_version a d'"
proof (cases "1 \<le> stream_len a d")
  case True
  then have "(a, stream_len a d) \<in> row_key ` set (event_store d)" using key_taken_iff [OF assms(1)] by simp
  then obtain e where "e \<in> set (event_store d)" "oe_AggregateID e = a" "oe_Version e = stream_len a d" by auto
  with assms(2,3) show ?thesis by (auto simp: no_loss_def)
next
  case False
  have "0 \<le> view_version a d'" using assms(4) by (simp add: versions_nonneg_def)
  with False show ?thesis by simp
qed

text \<open>When every stored event is in the streams and all messages are acknowledged, nothing is missing.\<close>

lemma caught_up:
  assumes "view_inv enc (set (event_store d)) d" "contiguous d" "product_views d' = product_views d"
    and "\<And>e. e \<in> set (event_store d) \<Longrightarrow> valid_row e \<and> fits enc e \<and> message_of e \<in> set (mj_stored (bus w'))"
    and "following (set (event_store d)) w'" "unacked (bus w') = []"
    and "committed w' = fold (project_db enc) es d'" "set es \<subseteq> set (event_store d)"
  shows "view_version a (committed w') = stream_len a d"
proof (rule antisym)
  have "marked e (committed w')" if e: "e \<in> set (event_store d)" for e
  proof -
    obtain m where m: "m \<in> set (msgs_of (bus w'))" "snd m = snd (message_of e)"
      using stored_message [of "message_of e" "bus w'"] assms(4) [OF e] by auto
    have "unmarshal_outbox (snd m) zero_outbox = Inr e" using valid_row_message [of e] assms(4) [OF e] m(2) by simp
    then show ?thesis using unacked_all_acked [OF assms(6) m(1)] assms(5) by (auto simp: following_def event_in_def)
  qed
  then show "stream_len a d \<le> view_version a (committed w')"
    using all_marked_version [OF assms(2)] assms(5) by (simp add: following_def)
  have "view_version a d' \<le> stream_len a d"
    using view_version_stream [OF assms(1,2)] assms(3) by (simp add: view_version_def view_of_def)
  moreover have "oe_Version e \<le> stream_len a d" if "e \<in> set es" "oe_AggregateID e = a" for e
    using that assms(8) key_taken_iff [OF assms(2), of a "oe_Version e"] by force
  ultimately show "view_version a (committed w') \<le> stream_len a d"
    unfolding assms(7) by (intro project_all_version_bound) (use assms(4,8) in auto)
qed

end
