(* ===== verification/Eventual_Consistency.thy ===== *)
theory Eventual_Consistency
  imports Catch_Up
begin

text \<open>
  The two halves of the asynchronous path together, on the in-memory server and a database that has
  stopped failing: the ticks of one relay bring the stored events into the streams, in the order of
  their timestamps, and the turns of the subscriber bring them from the streams into the view.
\<close>

section \<open>The events to publish\<close>

definition unpublished :: "db \<Rightarrow> OutboxEvent list" where
  "unpublished d = sort_key oe_Ts (map ob_event (filter (\<lambda>r. \<not> published r) (outbox d)))"

lemma unpublished_batch_eq: "unpublished_batch n [] d = take (nat n) (unpublished d)"
  by (simp add: unpublished_batch_def unpublished_def)

lemma set_unpublished: "e \<in> set (unpublished d) \<longleftrightarrow> (\<exists>r \<in> set (outbox d). ob_event r = e \<and> \<not> published r)"
  by (auto simp: unpublished_def)

lemma unpublished_stored: "map ob_event (outbox d) = es \<Longrightarrow> set (unpublished d) \<subseteq> set es"
  by (auto simp: set_unpublished)

lemma unpublished_sorted: "sorted (map oe_Ts (unpublished d))"
  by (simp add: unpublished_def)

lemma unpublished_distinct:
  assumes "distinct (outbox_ids_of d)"
  shows "distinct (map oe_EventID (unpublished d))"
  using distinct_unpublished_batch [OF assms, of "int (length (unpublished d))" "[]"] by (simp add: unpublished_batch_eq)

lemma filter_mark_rows:
  "filter (\<lambda>r. \<not> published r) (mark_rows es rows) =
     filter (\<lambda>r. oe_EventID (ob_event r) \<notin> oe_EventID ` set es) (filter (\<lambda>r. \<not> published r) rows)"
  by (induction rows) (auto simp: mark_rows_def)

lemma unpublished_mark_rows:
  "unpublished (d\<lparr>outbox := mark_rows es (outbox d)\<rparr>) =
     filter (\<lambda>e. oe_EventID e \<notin> oe_EventID ` set es) (unpublished d)"
  by (simp add: unpublished_def filter_mark_rows filter_sort filter_map comp_def del: filter_filter)

text \<open>A marked batch is gone, and the order of the others has not changed.\<close>

lemma unpublished_mark:
  assumes "distinct (outbox_ids_of d)"
  shows "unpublished (d\<lparr>outbox := mark_rows (take k (unpublished d)) (outbox d)\<rparr>) = drop k (unpublished d)"
proof -
  let ?u = "unpublished d" and ?ids = "oe_EventID ` set (take k (unpublished d))"
  have "unpublished (d\<lparr>outbox := mark_rows (take k ?u) (outbox d)\<rparr>) = filter (\<lambda>e. oe_EventID e \<notin> ?ids) ?u"
    by (rule unpublished_mark_rows)
  also have "\<dots> = filter (\<lambda>e. oe_EventID e \<notin> ?ids) (take k ?u @ drop k ?u)" by simp
  also have "\<dots> = drop k ?u"
  proof -
    have "distinct (map oe_EventID (take k ?u @ drop k ?u))" using unpublished_distinct [OF assms] by simp
    then have "oe_EventID ` set (take k ?u) \<inter> oe_EventID ` set (drop k ?u) = {}" by (simp only: map_append distinct_append set_map)
    then show ?thesis by (simp only: filter_append) (auto simp: filter_id_conv filter_empty_conv)
  qed
  finally show ?thesis .
qed

section \<open>The ticks\<close>

lemma publish_all:
  assumes "\<And>e. e \<in> set es \<Longrightarrow> valid_row e \<and> oe_AggregateType e \<noteq> ''''"
  shows "\<exists>w'. publish_events (on_bus mem_publish) c es w = (None, w') \<and> faults w' = faults w \<and>
    mj_stored (bus w') = mj_stored (bus w) @ map message_of es \<and> mj_acked (bus w') = mj_acked (bus w)"
  using assms
proof (induction es arbitrary: w)
  case Nil
  then show ?case by simp
next
  case (Cons e es)
  have e: "valid_row e" "oe_AggregateType e \<noteq> ''''" using Cons.prems by simp_all
  obtain j where j: "mem_publish c (oe_AggregateType e) e (bus w) = (None, j)"
    "mj_stored j = mj_stored (bus w) @ [message_of e]" "mj_acked j = mj_acked (bus w)"
    by (rule mem_publish_valid [OF e(1)])
  have "on_bus mem_publish c (oe_AggregateType e) e w = (None, w\<lparr>bus := j\<rparr>)" using j(1) by (simp add: on_bus_def)
  with Cons.IH [of "w\<lparr>bus := j\<rparr>"] Cons.prems j(2,3) e(2) show ?case by (auto simp: Let_def)
qed

lemma tick_publishes:
  assumes "faults w = []" "locked w = []" "distinct (outbox_ids_of (committed w))"
    and "\<And>e. e \<in> set (unpublished (committed w)) \<Longrightarrow> valid_row e \<and> oe_AggregateType e \<noteq> ''''"
  obtains w' where "snd (processBatch (pg_relay mem_publish 10) c w) = w'" "faults w' = []" "locked w' = []"
    "committed w' = (committed w)\<lparr>outbox := mark_rows (take 10 (unpublished (committed w))) (outbox (committed w))\<rparr>"
    "mj_stored (bus w') = mj_stored (bus w) @ map message_of (take 10 (unpublished (committed w)))"
    "mj_acked (bus w') = mj_acked (bus w)"
proof (cases "unpublished (committed w) = []")
  case True
  obtain w' where "relay_loop (pg_relay mem_publish 10) c [Tick] w = (False, w')" "faults w' = []" "locked w' = []"
    "committed w' = committed w" "bus w' = bus w"
    by (rule tick_none [OF assms(1,2), of c]) (simp_all add: unpublished_batch_eq True)
  then show thesis by (intro that [of w']) (simp_all add: True mark_rows_def)
next
  case False
  let ?b = "take 10 (unpublished (committed w))"
  have b: "unpublished_batch 10 (locked w) (committed w) = ?b" "?b \<noteq> []"
    using False assms(2) by (simp_all add: unpublished_batch_eq)
  have ok: "valid_row e \<and> oe_AggregateType e \<noteq> ''''" if "e \<in> set ?b" for e
    using assms(4) in_set_takeD [OF that] by blast
  obtain w2 where w2: "publish_events (on_bus mem_publish) c ?b (begun w) = (None, w2)" "faults w2 = []"
    "mj_stored (bus w2) = mj_stored (bus w) @ map message_of ?b" "mj_acked (bus w2) = mj_acked (bus w)"
    using publish_all [of ?b c "begun w"] ok assms(1) by auto
  have "processor (on_bus mem_publish) c ?b (begun w) = (None, w2)" using w2(1) b(2) by (simp add: processor_def del: length_take)
  with ProcessOutboxBatch_nofault [OF assms(1) _ assms(3) processor_quiet [of mem_publish], of 10 c w2] b w2(2) assms(2)
  obtain w' where w': "ProcessOutboxBatch 10 (processor (on_bus mem_publish)) c w = (None, w')" "faults w' = []"
    "locked w' = []" "session.more w' = session.more w2"
    "committed w' = (committed w)\<lparr>outbox := mark_rows ?b (outbox (committed w))\<rparr>" by auto
  have "bus w' = bus w2" by (rule world_bus [OF w'(4)])
  with w' w2(3,4) show thesis by (intro that [of w']) (simp_all add: processBatch_def NewRelay_def)
qed

text \<open>\<open>k\<close> ticks publish the first \<open>10 * k\<close> events, oldest first.\<close>

lemma ticks_publish:
  assumes "faults w = []" "locked w = []" "distinct (outbox_ids_of (committed w))"
    and "\<And>e. e \<in> set (unpublished (committed w)) \<Longrightarrow> valid_row e \<and> oe_AggregateType e \<noteq> ''''"
  shows "\<exists>w'. relay_loop (pg_relay mem_publish 10) c (replicate k Tick) w = (False, w') \<and> faults w' = [] \<and>
    (\<exists>rows. committed w' = (committed w)\<lparr>outbox := rows\<rparr> \<and> map ob_event rows = map ob_event (outbox (committed w))) \<and>
    unpublished (committed w') = drop (10 * k) (unpublished (committed w)) \<and>
    mj_stored (bus w') = mj_stored (bus w) @ map message_of (take (10 * k) (unpublished (committed w))) \<and>
    mj_acked (bus w') = mj_acked (bus w)"
  using assms
proof (induction k arbitrary: w)
  case 0
  then show ?case by (auto intro!: exI [of _ "outbox (committed w)"])
next
  case (Suc k)
  let ?u = "unpublished (committed w)"
  obtain w1 where w1: "snd (processBatch (pg_relay mem_publish 10) c w) = w1" "faults w1 = []" "locked w1 = []"
    "committed w1 = (committed w)\<lparr>outbox := mark_rows (take 10 ?u) (outbox (committed w))\<rparr>"
    "mj_stored (bus w1) = mj_stored (bus w) @ map message_of (take 10 ?u)" "mj_acked (bus w1) = mj_acked (bus w)"
    by (rule tick_publishes [OF Suc.prems])
  have u1: "unpublished (committed w1) = drop 10 ?u" unfolding w1(4) by (rule unpublished_mark [OF Suc.prems(3)])
  have d1: "distinct (outbox_ids_of (committed w1))" unfolding w1(4) outbox_ids_mark by (rule Suc.prems(3))
  have v1: "valid_row e \<and> oe_AggregateType e \<noteq> ''''" if "e \<in> set (unpublished (committed w1))" for e
    using Suc.prems(4) that u1 in_set_dropD by fastforce
  from Suc.IH [OF w1(2,3) d1 v1] obtain w' rows where
    w': "relay_loop (pg_relay mem_publish 10) c (replicate k Tick) w1 = (False, w')" "faults w' = []"
      "committed w' = (committed w1)\<lparr>outbox := rows\<rparr>" "map ob_event rows = map ob_event (outbox (committed w1))"
      "unpublished (committed w') = drop (10 * k) (unpublished (committed w1))"
      "mj_stored (bus w') = mj_stored (bus w1) @ map message_of (take (10 * k) (unpublished (committed w1)))"
      "mj_acked (bus w') = mj_acked (bus w1)" by blast
  have t: "take (10 * Suc k) ?u = take 10 ?u @ take (10 * k) (drop 10 ?u)" "drop (10 * Suc k) ?u = drop (10 * k) (drop 10 ?u)"
    by (simp_all add: take_add add.commute)
  have "relay_loop (pg_relay mem_publish 10) c (replicate (Suc k) Tick) w = (False, w')" using w'(1) w1(1) by simp
  moreover have "committed w' = (committed w)\<lparr>outbox := rows\<rparr>" "map ob_event rows = map ob_event (outbox (committed w))"
    using w'(3,4) w1(4) by simp_all
  moreover have "mj_stored (bus w') = mj_stored (bus w) @ map message_of (take (10 * Suc k) ?u)"
    unfolding t w'(6) w1(5) u1 by simp
  ultimately show ?case using w'(2,5,7) w1(6) u1 t(2) by auto
qed

section \<open>The order of the streams\<close>

lemma chained_append:
  assumes "chained xs ys" "chained (xs @ ys) zs"
  shows "chained xs (ys @ zs)"
  unfolding chained_iff
proof (intro allI impI)
  fix i
  assume i: "i < length (ys @ zs)"
  show "oe_Version ((ys @ zs) ! i) = 1 \<or> (\<exists>p \<in> set xs \<union> set (take i (ys @ zs)). precedes p ((ys @ zs) ! i))"
  proof (cases "i < length ys")
    case True
    with assms(1) show ?thesis by (simp add: chained_iff nth_append)
  next
    case False
    then have "i - length ys < length zs" using i by auto
    with assms(2) False show ?thesis by (auto simp: chained_iff nth_append)
  qed
qed

lemma chained_take: "chained xs ys \<Longrightarrow> chained xs (take k ys)"
  by (auto simp: chained_iff min_absorb1)

text \<open>What the messages of the streams decode to.\<close>

definition stream_events :: "(string \<times> json) list \<Rightarrow> OutboxEvent list" where
  "stream_events ms = map (\<lambda>x. event_in (0, snd x)) ms"

lemma events_of_stream: "map event_in (msgs_of j) = stream_events (mj_stored j)"
proof -
  have "map event_in (msgs_of j) = map (\<lambda>x. event_in (0, x)) (map snd (msgs_of j))"
    by (simp add: event_in_def del: map_snd_enumerate)
  then show ?thesis by (simp add: comp_def stream_events_def)
qed

lemma event_of_message: "valid_row e \<Longrightarrow> event_in (0, snd (nats_msg us t e)) = e"
  using valid_row_message [of e us t] by (simp add: event_in_def)

lemma stream_events_append:
  assumes "\<And>e. e \<in> set es \<Longrightarrow> valid_row e \<and> oe_AggregateType e \<noteq> ''''"
  shows "stream_events (ms @ batch_messages (nats_msg us) es) = stream_events ms @ es"
proof -
  have "filter (\<lambda>e. oe_AggregateType e \<noteq> '''') es = es" using assms by (simp add: filter_id_conv)
  moreover have "map (\<lambda>e. event_in (0, snd (nats_msg us (oe_AggregateType e) e))) es = es"
    using assms by (intro map_idI) (simp add: event_of_message del: prod.sel)
  ultimately show ?thesis by (simp add: stream_events_def comp_def)
qed

lemma published_events:
  assumes "\<And>e. e \<in> set es \<Longrightarrow> valid_row e"
  shows "map event_in (enumerate n (map snd (map message_of es))) = es"
proof -
  have "map event_in (enumerate n xs) = map (\<lambda>x. event_in (0, x)) xs" for xs
    by (induction xs arbitrary: n) (simp_all add: event_in_def)
  then have "map event_in (enumerate n (map snd (map message_of es))) = map (\<lambda>e. event_in (0, snd (message_of e))) es"
    by (simp add: comp_def)
  also have "\<dots> = es" using assms by (intro map_idI) (rule event_of_message)
  finally show ?thesis .
qed

lemma stream_known_append:
  assumes "stream_known enc E j" "mj_stored j' = mj_stored j @ map message_of es" "set es \<subseteq> E" "\<And>e. e \<in> set es \<Longrightarrow> valid_row e"
  shows "stream_known enc E j'"
proof -
  let ?new = "enumerate (length (mj_stored j)) (map snd (map message_of es))"
  have "unmarshal_outbox (snd m) zero_outbox = Inr (event_in m) \<and> event_in m \<in> E" if m: "m \<in> set ?new" for m
  proof -
    have "snd m \<in> set (map snd ?new)" unfolding set_map by (rule imageI [OF m])
    then obtain e where e: "e \<in> set es" "snd m = snd (message_of e)" by auto
    then have "unmarshal_outbox (snd m) zero_outbox = Inr e" using valid_row_message assms(4) by simp
    with e(1) assms(3) show ?thesis by (auto simp: event_in_def)
  qed
  moreover have "msgs_of j' = msgs_of j @ ?new" by (simp add: assms(2) enumerate_append_eq)
  ultimately show ?thesis using assms(1) by (auto simp: stream_known_def)
qed

text \<open>The timestamps of the events of a product that are not published yet increase with their versions.\<close>

definition clocked :: "OutboxEvent list \<Rightarrow> bool" where
  "clocked es \<longleftrightarrow> list_all (\<lambda>e. list_all (\<lambda>p. precedes p e \<longrightarrow> oe_Ts p < oe_Ts e) es) es"

lemma earlier_before:
  assumes "sorted (map oe_Ts es)" "p \<in> set es" "i < length es" "oe_Ts p < oe_Ts (es ! i)"
  shows "p \<in> set (take i es)"
proof -
  obtain j where j: "j < length es" "es ! j = p" using assms(2) by (auto simp: in_set_conv_nth)
  have "j < i"
  proof (rule ccontr)
    assume "\<not> j < i"
    then have "oe_Ts (es ! i) \<le> oe_Ts (es ! j)" using assms(1) j(1) by (auto simp: sorted_iff_nth_mono)
    with j(2) assms(4) show False by simp
  qed
  with j assms(3) show ?thesis by (auto simp: in_set_conv_nth)
qed

lemma unpublished_chained:
  assumes "app_inv l stored acks y" "clocked (unpublished (app_db y))"
    and "list_all (\<lambda>e. oe_AggregateType e \<noteq> '''') (event_store (app_db y))"
  shows "chained (stream_events (stored (app_bus y))) (unpublished (app_db y))"
  unfolding chained_iff
proof (intro allI impI)
  let ?u = "unpublished (app_db y)" and ?E = "set (event_store (app_db y))" and ?s = "stream_events (stored (app_bus y))"
  note i = app_invD [OF assms(1)]
  have contig: "contiguous (app_db y)" using i(7) by (simp add: write_inv_def)
  fix k
  assume k: "k < length ?u"
  let ?e = "?u ! k"
  have e: "?e \<in> set ?u" "?e \<in> ?E" using k unpublished_stored [OF i(8)] by (simp_all add: subset_iff)
  have "row_key ?e \<in> row_key ` ?E" using e(2) by (rule imageI)
  then have v: "1 \<le> oe_Version ?e" "oe_Version ?e \<le> stream_len (oe_AggregateID ?e) (app_db y)"
    using key_taken_iff [OF contig] by simp_all
  show "oe_Version ?e = 1 \<or> (\<exists>p \<in> set ?s \<union> set (take k ?u). precedes p ?e)"
  proof (cases "oe_Version ?e = 1")
    case False
    then have "(oe_AggregateID ?e, oe_Version ?e - 1) \<in> row_key ` ?E" using v key_taken_iff [OF contig] by simp
    then obtain p where p: "p \<in> ?E" "precedes p ?e" by (auto simp: precedes_def)
    have "p \<in> set (map ob_event (outbox (app_db y)))" using p(1) i(8) by simp
    then obtain x where x: "x \<in> set (outbox (app_db y))" "ob_event x = p" by auto
    show ?thesis
    proof (cases "published x")
      case True
      then have "nats_msg (lib_uuid_String l) (oe_AggregateType p) p \<in> set (stored (app_bus y))"
        using i(3) x p(1) assms(3) by (auto simp: all_sent_def list_all_iff)
      then have "event_in (0, snd (nats_msg (lib_uuid_String l) (oe_AggregateType p) p)) \<in> set ?s"
        unfolding stream_events_def set_map by (rule imageI)
      moreover have "valid_row p" using p(1) i(7) by (simp add: write_inv_def store_wf_def)
      ultimately have "p \<in> set ?s" by (simp only: event_of_message)
      with p(2) show ?thesis by blast
    next
      case False
      then have pu: "p \<in> set ?u" using x set_unpublished by blast
      have "oe_Ts p < oe_Ts ?e" using assms(2) pu e(1) p(2) by (simp add: clocked_def list_all_iff)
      from earlier_before [OF unpublished_sorted pu k this] p(2) show ?thesis by blast
    qed
  qed simp
qed

lemma drained_in_order:
  assumes "app_inv (mem_libs enc) mj_stored (\<lambda>j. set (mj_acked j)) y" "in_order (map event_in (msgs_of (app_bus y)))"
    and "clocked (unpublished (app_db y))" "list_all (\<lambda>e. oe_AggregateType e \<noteq> '''' \<and> fits enc e) (event_store (app_db y))"
    and "map event_in (msgs_of j) = map event_in (msgs_of (app_bus y)) @ unpublished (app_db y)"
  shows "in_order (map event_in (msgs_of j))"
proof -
  have "list_all (\<lambda>e. oe_AggregateType e \<noteq> '''') (event_store (app_db y))" using assms(4) by (simp add: list_all_iff)
  with chained_append [OF assms(2)] unpublished_chained [OF assms(1,3)] show ?thesis
    unfolding assms(5) by (simp add: events_of_stream)
qed

lemma unacked_append:
  assumes "mj_stored j' = mj_stored j @ xs" "mj_acked j' = mj_acked j"
  shows "unacked j' = unacked j @ filter (\<lambda>m. m \<notin> set (mj_acked j)) (enumerate (length (mj_stored j)) (map snd xs))"
  by (simp add: unacked_def assms enumerate_append_eq)

lemma unacked_published:
  assumes "mj_stored j' = mj_stored j @ xs" "mj_acked j' = mj_acked j"
  shows "length (unacked j') \<le> length (unacked j) + length xs"
proof -
  note unacked_append [OF assms]
  then show ?thesis using length_filter_le [of _ "enumerate (length (mj_stored j)) (map snd xs)"] by simp
qed

lemma following_outbox:
  assumes "following E w" "faults w' = []" "committed w' = (committed w)\<lparr>outbox := rows\<rparr>" "mj_acked (bus w') = mj_acked (bus w)"
  shows "following E w'"
  using assms by (simp add: following_def no_loss_def versions_nonneg_def marked_def view_version_def view_of_def)

section \<open>The two halves\<close>

text \<open>When the ticks have published everything, the streams hold what they held and the rest.\<close>

lemma ticks_then:
  assumes "app_reachable f n (mem_libs enc) mem_js_empty y" "app_held y = []"
    and "list_all (\<lambda>e. oe_AggregateType e \<noteq> '''' \<and> fits enc e) (event_store (app_db y))"
    and "no_loss (set (event_store (app_db y))) (app_db y)" "length (unpublished (app_db y)) \<le> 10 * k"
  obtains w1 rows where "relay_loop (pg_relay mem_publish 10) Background (replicate k Tick) (app_world y []) = (False, w1)"
    "committed w1 = (app_db y)\<lparr>outbox := rows\<rparr>" "list_all published rows"
    "mj_stored (bus w1) = mj_stored (app_bus y) @ map message_of (unpublished (app_db y))" "mj_acked (bus w1) = mj_acked (app_bus y)"
    "map event_in (msgs_of (bus w1)) = map event_in (msgs_of (app_bus y)) @ unpublished (app_db y)"
    "stream_known enc (set (event_store (app_db y))) (bus w1)" "following (set (event_store (app_db y))) w1"
proof -
  let ?d = "app_db y" and ?u = "unpublished (app_db y)" and ?E = "set (event_store (app_db y))"
  note inv = app_reachable_inv [OF assms(1) mem_libs_ok]
  note i = app_invD [OF inv]
  have wf: "valid_row e" if "e \<in> ?E" for e using that i(7) by (simp add: write_inv_def store_wf_def)
  have all: "\<And>e. e \<in> ?E \<Longrightarrow> oe_AggregateType e \<noteq> '''' \<and> fits enc e" using assms(3) by (simp add: list_all_iff)
  note u = subsetD [OF unpublished_stored [OF i(8)]]
  have dist: "distinct (outbox_ids_of ?d)" using i(2) by (simp add: workers_inv_def)
  obtain w1 rows where w1: "relay_loop (pg_relay mem_publish 10) Background (replicate k Tick) (app_world y []) = (False, w1)"
    "faults w1 = []" "committed w1 = ?d\<lparr>outbox := rows\<rparr>" "unpublished (committed w1) = []"
    "mj_stored (bus w1) = mj_stored (app_bus y) @ map message_of ?u" "mj_acked (bus w1) = mj_acked (app_bus y)"
    using ticks_publish [of "app_world y []" Background k] dist u all wf assms(5) by (auto simp: app_world_def)
  have valid: "valid_row e" if "e \<in> set ?u" for e using u [OF that] wf by blast
  have stream: "map event_in (msgs_of (bus w1)) = map event_in (msgs_of (app_bus y)) @ ?u"
    using published_events [OF valid, of ?u] by (simp only: w1(5) map_append enumerate_append_eq length_map add_0)
  have "list_all (fits enc) (event_store ?d)" using assms(3) by (simp add: list_all_iff)
  note start = reachable_follows [OF inv this assms(4)]
  have known: "stream_known enc ?E (bus w1)"
    by (rule stream_known_append [OF start(1) _ unpublished_stored [OF i(8)] valid]) (simp_all add: w1(5) app_world_def)
  have fol: "following ?E w1" by (rule following_outbox [OF start(2)]) (use w1(2,3,6) in \<open>simp_all add: app_world_def\<close>)
  have "list_all published rows"
    using w1(4) set_unpublished [of _ "committed w1"] by (auto simp: w1(3) list_all_iff)
  from that [OF w1(1,3) this w1(5,6) stream known fol] show thesis .
qed

text \<open>When the turns have acknowledged everything, the view is at the end of every stream.\<close>

lemma turns_then:
  assumes "app_reachable f n (mem_libs enc) mem_js_empty y" "list_all (\<lambda>e. oe_AggregateType e \<noteq> '''' \<and> fits enc e) (event_store (app_db y))"
    and "committed w1 = (app_db y)\<lparr>outbox := rows\<rparr>" "mj_stored (bus w2) = mj_stored (app_bus y) @ map message_of (unpublished (app_db y))"
    and "following (set (event_store (app_db y))) w2" "unacked (bus w2) = []"
    and "committed w2 = fold (project_db enc) es (committed w1)" "set es \<subseteq> set (event_store (app_db y))"
  shows "event_store (committed w2) = event_store (app_db y)" "outbox (committed w2) = rows"
    "view_version a (committed w2) = stream_len a (app_db y)"
proof -
  let ?d = "app_db y" and ?E = "set (event_store (app_db y))"
  note i = app_invD [OF app_reachable_inv [OF assms(1) mem_libs_ok]]
  have wf: "contiguous ?d" "\<And>e. e \<in> ?E \<Longrightarrow> valid_row e" using i(7) by (simp_all add: write_inv_def store_wf_def)
  have all: "\<And>e. e \<in> ?E \<Longrightarrow> oe_AggregateType e \<noteq> '''' \<and> fits enc e" using assms(2) by (simp add: list_all_iff)
  show "event_store (committed w2) = event_store ?d" "outbox (committed w2) = rows"
    using project_all_write_tables [of enc es "committed w1"] assms(3) by (simp_all add: assms(7) write_tables_def)
  show "view_version a (committed w2) = stream_len a ?d"
  proof (rule caught_up [OF _ wf(1) _ _ assms(5-8)])
    show "view_inv enc ?E ?d" using i(5) by simp
    show "product_views (committed w1) = product_views ?d" by (simp add: assms(3))
    show "valid_row e \<and> fits enc e \<and> message_of e \<in> set (mj_stored (bus w2))" if e: "e \<in> ?E" for e
    proof -
      have "e \<in> set (map ob_event (outbox ?d))" using e i(8) by simp
      then obtain x where x: "x \<in> set (outbox ?d)" "ob_event x = e" by auto
      then have "message_of e \<in> set (mj_stored (app_bus y)) \<or> e \<in> set (unpublished ?d)"
        using i(3) all [OF e] set_unpublished by (auto simp: all_sent_def)
      then show ?thesis using assms(4) wf(2) all e by auto
    qed
  qed
qed

section \<open>From the event store to the view\<close>



end
