(* ===== verification/Stream_Order.thy ===== *)
theory Stream_Order
  imports Eventual_Consistency
begin

text \<open>
  The order of the streams. While at most one relay at a time is inside a batch, the streams hold
  the events of each product in order, whatever fails and however often a batch is sent again: this
  is what the subscriber needs in order to follow (theory \<open>Eventual_Consistency\<close>). The timestamps
  of the events of a product must increase with their versions, because the batches are ordered by
  them. With a second relay in between, \<open>SKIP LOCKED\<close> lets it overtake the first.
\<close>

section \<open>Runs with one relay at a time\<close>

inductive solo_reachable :: "int \<Rightarrow> int \<Rightarrow> ('j, 'q, 'm) libs \<Rightarrow> 'j \<Rightarrow> 'j app \<Rightarrow> bool"
  for f :: int and n :: int and l :: "('j, 'q, 'm) libs" and j0 :: 'j where
  solo_start: "solo_reachable f n l j0 \<lparr>app_db = empty_db, app_pending = (\<lambda>_. None), app_held = [], app_bus = j0\<rparr>"
| solo_step: "solo_reachable f n l j0 y \<Longrightarrow> app_step f n l y y' \<Longrightarrow> length (app_held y') \<le> 1 \<Longrightarrow> solo_reachable f n l j0 y'"

lemma solo_is_reachable: "solo_reachable f n l j0 y \<Longrightarrow> app_reachable f n l j0 y"
  by (induction rule: solo_reachable.induct) (auto intro: app_reachable.intros)

lemma solo_held: "solo_reachable f n l j0 y \<Longrightarrow> length (app_held y) \<le> 1"
  by (induction rule: solo_reachable.induct) simp_all

section \<open>What every step keeps\<close>

text \<open>The streams are in order, and what a relay holds can be sent next.\<close>

definition in_step :: "('j \<Rightarrow> (string \<times> json) list) \<Rightarrow> 'j app \<Rightarrow> bool" where
  "in_step stored y \<longleftrightarrow> in_order (stream_events (stored (app_bus y))) \<and>
     (\<forall>(k, es) \<in> set (app_held y). chained (stream_events (stored (app_bus y))) es)"

lemma clocked_mono: "clocked es \<Longrightarrow> set us \<subseteq> set es \<Longrightarrow> clocked us"
  unfolding clocked_def list_all_iff by blast

text \<open>The events of a relay's batch are stored events.\<close>

lemma held_stored:
  assumes "app_inv l stored acks y" "(k, es) \<in> set (app_held y)" "e \<in> set es"
  shows "e \<in> set (event_store (app_db y))"
proof -
  note i = app_invD [OF assms(1)]
  have "e \<in> set (held_events (relays_of y))" using assms(2,3) by (auto simp: held_events_def intro: bexI [of _ "(k, es)"])
  then obtain x where "x \<in> set (outbox (app_db y))" "ob_event x = e" using i(2) by (auto simp: workers_inv_def)
  then have "e \<in> set (map ob_event (outbox (app_db y)))" by auto
  then show ?thesis using i(8) by simp
qed

lemma in_step_fetch:
  assumes "pool_Begin (fetch_session (relays_of y) fs) = (None, s1)" "fetchAndLockUnpublishedInTx n s1 = (Inr es, s2)"
    and "app_held y = []" "app_inv l stored acks y" "in_step stored y"
    and "clocked (event_store (app_db y))" "list_all (\<lambda>e. oe_AggregateType e \<noteq> '''') (event_store (app_db y))"
  shows "in_step stored (y\<lparr>app_held := (k, es) # app_held y\<rparr>)"
proof -
  have "held_events (relays_of y) = []" using assms(3) by (simp add: held_events_def)
  then have "es = take (nat n) (unpublished (app_db y))"
    using fetched_batch [OF assms(1,2)] by (simp add: unpublished_batch_eq)
  moreover have "clocked (unpublished (app_db y))"
    using clocked_mono [OF assms(6) unpublished_stored [OF app_invD(8) [OF assms(4)]]] .
  ultimately have "chained (stream_events (stored (app_bus y))) es"
    using unpublished_chained [OF assms(4) _ assms(7)] chained_take by blast
  with assms(3,5) show ?thesis by (simp add: in_step_def)
qed

lemma in_step_finish:
  assumes "batch_rest (processor (on_bus (app_publish l))) Background es (finish_session (relays_of y) fs) = (r, w')"
    and "app_held y = [(k, es)]" "libs_ok l stored acks j0" "app_inv l stored acks y" "in_step stored y"
    and "list_all (\<lambda>e. oe_AggregateType e \<noteq> '''') (event_store (app_db y))"
  shows "in_step stored (y\<lparr>app_db := committed w', app_held := [], app_bus := bus w'\<rparr>)"
proof -
  let ?us = "nats_msg (lib_uuid_String l)" and ?old = "stored (app_bus y)"
  note finish = finish_effect [OF assms(1) nats_broker [OF libs_okD(1) [OF assms(3)]]]
  obtain c where c: "stored (bus w') = ?old @ batch_messages ?us (take c es)"
    using finish by (elim disjE conjE exE) (auto intro: that [of "length es"])
  have "valid_row e \<and> oe_AggregateType e \<noteq> ''''" if "e \<in> set (take c es)" for e
  proof -
    have "e \<in> set (event_store (app_db y))"
      by (rule held_stored [OF assms(4), of k es]) (use assms(2) in_set_takeD [OF that] in simp_all)
    with app_invD(7) [OF assms(4)] assms(6) show ?thesis by (simp add: write_inv_def store_wf_def list_all_iff)
  qed
  then have "stream_events (stored (bus w')) = stream_events ?old @ take c es"
    unfolding c by (rule stream_events_append)
  moreover have "in_order (stream_events ?old @ take c es)"
    using assms(2,5) by (intro chained_append) (simp_all add: in_step_def chained_take)
  ultimately show ?thesis by (simp add: in_step_def)
qed

lemma step_store_grows:
  assumes "app_step f n l y y'" "libs_ok l stored acks j0" "app_inv l stored acks y"
  shows "set (event_store (app_db y)) \<subseteq> set (event_store (app_db y'))"
  using assms(1)
proof cases
  case (command c)
  then obtain rows where "event_store (sys_db c) = event_store (app_db y) @ rows"
    using grown_fields [OF cmd_step_grown [OF command(2) app_invD(1) [OF assms(3)]]] by auto
  with command(1) show ?thesis by simp
next
  case (finish xs k es zs fs r w')
  have "event_store (committed w') = event_store (app_db y)"
    by (rule batch_rest_cases [OF finish(3) processor_quiet finish_session_simps(3)]) auto
  with finish(1) show ?thesis by simp
next
  case (turn q fs w')
  with turn_tables [OF assms(2) turn(2) assms(3)] show ?thesis by (simp add: write_tables_def)
qed simp

lemma in_step_step:
  assumes "app_step f n l y y'" "libs_ok l stored acks j0" "app_inv l stored acks y" "in_step stored y"
    and "length (app_held y) \<le> 1" "length (app_held y') \<le> 1"
    and "clocked (event_store (app_db y))" "list_all (\<lambda>e. oe_AggregateType e \<noteq> '''') (event_store (app_db y))"
  shows "in_step stored y'"
  using assms(1)
proof cases
  case (command c)
  with assms(4) show ?thesis by (simp add: in_step_def)
next
  case (fetch k fs s1 es s2)
  then have "app_held y = []" using assms(6) by simp
  from in_step_fetch [OF fetch(3,4) this assms(3,4,7,8)] fetch(1) show ?thesis by simp
next
  case (finish xs k es zs fs r w')
  then have held: "xs = []" "zs = []" using assms(5) by simp_all
  from in_step_finish [OF finish(3) _ assms(2-4,8)] finish(1,2) show ?thesis by (simp add: held)
next
  case (turn q fs w')
  with turn_acks [OF assms(2) turn(2) assms(3)] assms(4) show ?thesis by (simp add: in_step_def)
qed

lemma solo_in_step:
  assumes "solo_reachable f n l j0 y" "libs_ok l stored acks j0"
    and "clocked (event_store (app_db y))" "list_all (\<lambda>e. oe_AggregateType e \<noteq> '''') (event_store (app_db y))"
  shows "in_step stored y"
  using assms(1,3,4)
proof (induction rule: solo_reachable.induct)
  case solo_start
  then show ?case using libs_okD(5) [OF assms(2)] by (simp add: in_step_def stream_events_def chained_def)
next
  case (solo_step y y')
  note inv = app_reachable_inv [OF solo_is_reachable [OF solo_step.hyps(1)] assms(2)]
  note sub = step_store_grows [OF solo_step.hyps(2) assms(2) inv]
  have old: "clocked (event_store (app_db y))" "list_all (\<lambda>e. oe_AggregateType e \<noteq> '''') (event_store (app_db y))"
    using clocked_mono [OF solo_step.prems(1) sub] solo_step.prems(2) sub by (simp_all add: list_all_iff subset_iff)
  show ?case
    by (rule in_step_step [OF solo_step.hyps(2) assms(2) inv solo_step.IH [OF old] solo_held [OF solo_step.hyps(1)] solo_step.hyps(3) old])
qed

section \<open>The streams are in order\<close>



section \<open>Two relays\<close>

text \<open>
  With two relays the order is lost, on the same application without any fault: the first relay is
  inside its batch with the first event of a product, the second skips the locked row and publishes
  the second event before it. The subscriber refuses that event until the first is there.
\<close>

lemma overtaking_update:
  assumes "write_inv (app_db y)" "event_store (app_db y) = [r1]" "snapshots (app_db y) = []"
    and "oe_AggregateID r1 = up_ID cmd" "app_pending y = (\<lambda>_. None)" "i \<noteq> oe_EventID r1"
    and "valid_data (up_Name cmd) (up_Price cmd)" "up_Price cmd = Finite q" "year_ok now"
  obtains y' r where "app_reachable f n l j0 y \<Longrightarrow> app_reachable f n l j0 y'"
    "app_held y' = app_held y" "app_bus y' = app_bus y" "event_row_of (updated_event i now cmd 2) = Inr r"
    "event_store (app_db y') = [r1, r]" "outbox (app_db y') = outbox (app_db y) @ [\<lparr>ob_event = r, published = False\<rparr>]"
    "product_views (app_db y') = product_views (app_db y)" "processed_events (app_db y') = processed_events (app_db y)"
    "write_inv (app_db y')"
proof -
  let ?d = "app_db y" and ?s = "session_on (app_db y) []"
  have len: "stream_len (up_ID cmd) ?d = 1" using assms(2,4) by (simp add: stream_len_def stream_rows_def)
  obtain p where p: "ProductRepository_Load TxCtx (up_ID cmd) ?s = (Inr p, ?s)" "ar_version p = stream_len (up_ID cmd) ?d"
    by (rule Load_without_snapshot [of ?s "up_ID cmd" TxCtx]) (use assms(1,3) in simp_all)
  have events: "ar_events p = []" "ar_aggType p = ProductAggregateType"
    using loaded_product(1,2) [OF _ p(1)] assms(1) by simp_all
  have load: "cmd_step f (clients_of y) ((clients_of y)\<lparr>pending := (pending (clients_of y))(0 \<mapsto> (cmd, p))\<rparr>)"
    by (rule cmd_step.load) (use assms(5) p(1) in simp_all)
  let ?y1 = "y\<lparr>app_pending := [0 \<mapsto> (cmd, p)]\<rparr>"
  have y1: "app_step f n l y ?y1" using app_step.command [OF load] assms(5) by simp
  obtain r s' where s': "WithTransaction (update_product_finish f i now cmd p) Background ?s = (None, s')"
    "event_row_of (updated_event i now cmd 2) = Inr r" "event_store (committed s') = [r1, r]"
    "outbox (committed s') = outbox ?d @ [\<lparr>ob_event = r, published = False\<rparr>]"
    using finish_accepted [OF _ _ assms(7-9), of ?s i p f Background] assms(1,2,6) p(2) len events
    by (auto simp: int4_def)
  have inv: "write_inv (committed s')" "grown ?d (committed s')"
    using update_product_finish_tx_keeps [OF s'(1)] assms(1) events p(2) len by simp_all
  have views: "product_views (committed s') = product_views ?d" "processed_events (committed s') = processed_events ?d"
    by (rule grown_fields [OF inv(2)], simp)+
  have "cmd_step f (clients_of ?y1) ((clients_of ?y1)\<lparr>sys_db := committed s', pending := (pending (clients_of ?y1))(0 := None)\<rparr>)"
    by (rule cmd_step.finish) (use s'(1) in simp_all)
  from app_step.command [OF this] have y2: "app_step f n l ?y1 (y\<lparr>app_db := committed s', app_pending := Map.empty\<rparr>)" by simp
  show thesis
  proof (rule that [OF _ _ _ s'(2)])
    show "app_reachable f n l j0 (y\<lparr>app_db := committed s', app_pending := Map.empty\<rparr>)" if "app_reachable f n l j0 y"
      by (rule app_reachable.step [OF app_reachable.step [OF that y1] y2])
  qed (use s'(3,4) inv views in simp_all)
qed

lemma overtaken_state:
  obtains y r1 r2 where "app_reachable snapshotFrequency 10 (mem_libs truncating_enc) mem_js_empty y"
    "event_store (app_db y) = [r1, r2]" "outbox (app_db y) = [\<lparr>ob_event = r1, published = False\<rparr>, \<lparr>ob_event = r2, published = True\<rparr>]"
    "product_views (app_db y) = []" "processed_events (app_db y) = []"
    "event_row_of (created_event 2 0 (main_create 1)) = Inr r1" "event_row_of (updated_event 3 1 (main_update 1) 2) = Inr r2"
    "valid_row r1" "valid_row r2" "oe_AggregateType r1 \<noteq> ''''" "oe_AggregateType r2 \<noteq> ''''"
    "app_held y = [(0, [r1])]" "mj_stored (app_bus y) = [message_of r2]" "mj_acked (app_bus y) = []"
proof (rule sample_created_step [of 0 truncating_enc 2 1])
  fix r1
  let ?l = "mem_libs truncating_enc"
  let ?y = "\<lparr>app_db = first_db r1, app_pending = (\<lambda>_. None), app_held = [], app_bus = mem_js_empty\<rparr>"
  let ?y1 = "?y\<lparr>app_held := (0, [r1]) # app_held ?y\<rparr>"
  assume step: "app_step snapshotFrequency 10 ?l
      \<lparr>app_db = empty_db, app_pending = (\<lambda>_. None), app_held = [], app_bus = mem_js_empty\<rparr> ?y"
    and row: "event_row_of (created_event 2 0 (main_create 1)) = Inr r1" and inv: "write_inv (first_db r1)"
    and r1: "valid_row r1" "oe_AggregateType r1 \<noteq> ''''"
  note f1 = event_row_of_fields [OF row]
  have "app_step snapshotFrequency 10 ?l ?y ?y1"
    by (rule publish_steps [of 0 ?y r1]) (use r1 in \<open>simp_all add: held_events_def unpublished_batch_def\<close>)
  then have reach: "app_reachable snapshotFrequency 10 ?l mem_js_empty ?y1"
    by (rule app_reachable.step [OF app_reachable.step [OF app_reachable.start step]])
  obtain y2 r2 where y2: "app_reachable snapshotFrequency 10 ?l mem_js_empty y2" "app_held y2 = app_held ?y1"
    "app_bus y2 = mem_js_empty" and row2: "event_row_of (updated_event 3 1 (main_update 1) 2) = Inr r2"
    and d2: "event_store (app_db y2) = [r1, r2]" "product_views (app_db y2) = []" "processed_events (app_db y2) = []"
      "outbox (app_db y2) = [\<lparr>ob_event = r1, published = False\<rparr>, \<lparr>ob_event = r2, published = False\<rparr>]" "write_inv (app_db y2)"
    by (rule overtaking_update [of ?y1 r1 "main_update 1" 3 _ 1 snapshotFrequency 10 ?l mem_js_empty])
       (use inv f1 reach main_commands_valid main_prices in \<open>auto simp: year_ok_def\<close>)
  note f2 = event_row_of_fields [OF row2]
  have topic: "oe_AggregateType r2 \<noteq> ''''" by (rule events_of_main(1) [OF row2]) blast
  have r2: "valid_row r2" using d2(1,5) by (simp add: write_inv_def store_wf_def)
  have ids: "oe_EventID r1 = 2" "oe_EventID r2 = 3" using f1(1) f2(1) by simp_all
  obtain w where w: "app_step snapshotFrequency 10 ?l y2 (y2\<lparr>app_held := (1, [r2]) # app_held y2\<rparr>)"
    "app_step snapshotFrequency 10 ?l (y2\<lparr>app_held := (1, [r2]) # app_held y2\<rparr>) w" "app_held w = app_held y2"
    "app_db w = (app_db y2)\<lparr>outbox := mark_rows [r2] (outbox (app_db y2))\<rparr>" "mj_stored (app_bus w) = [message_of r2]"
    "mj_acked (app_bus w) = []"
    by (rule publish_steps [of 1 y2 r2 snapshotFrequency truncating_enc])
       (use r2 topic ids in \<open>simp_all add: held_events_def y2(2,3) d2(4) unpublished_batch_def mem_js_empty_def\<close>)
  have "app_reachable snapshotFrequency 10 ?l mem_js_empty w"
    by (rule app_reachable.step [OF app_reachable.step [OF y2(1) w(1)] w(2)])
  then show thesis
    by (rule that [OF _ _ _ _ _ row row2 r1(1) r2 r1(2) topic])
       (use ids in \<open>simp_all add: w(3-6) d2 y2(2) mark_rows_def\<close>)
qed (simp add: samples_ok)

theorem relays_can_overtake:
  "\<exists>y. app_reachable snapshotFrequency 10 (mem_libs truncating_enc) mem_js_empty y \<and>
     clocked (event_store (app_db y)) \<and> length (app_held y) = 1 \<and>
     map oe_Version (stream_events (mj_stored (app_bus y))) = [2] \<and> \<not> in_order (stream_events (mj_stored (app_bus y)))"
proof (rule overtaken_state)
  fix w r1 r2
  assume reach: "app_reachable snapshotFrequency 10 (mem_libs truncating_enc) mem_js_empty w"
    and row: "event_row_of (created_event 2 0 (main_create 1)) = Inr r1" and row2: "event_row_of (updated_event 3 1 (main_update 1) 2) = Inr r2"
    and r2: "valid_row r2" and w: "event_store (app_db w) = [r1, r2]" "app_held w = [(0, [r1])]" "mj_stored (app_bus w) = [message_of r2]"
  note f1 = event_row_of_fields [OF row] and f2 = event_row_of_fields [OF row2]
  have stream: "stream_events (mj_stored (app_bus w)) = [r2]"
    using event_of_message [OF r2] by (simp add: w(3) stream_events_def del: prod.sel)
  have v: "oe_Version r1 = 1" "oe_Version r2 = 2" "oe_Ts r1 = 0" "oe_Ts r2 = 1" using f1 f2 by (simp_all add: event_accessors created_event_def updated_event_def)
  then have "clocked (event_store (app_db w))" by (simp add: w(1) clocked_def precedes_def)
  moreover have "\<not> in_order (stream_events (mj_stored (app_bus w)))" using v by (simp add: stream chained_def)
  ultimately show ?thesis using reach v stream by (intro exI [of _ w]) (simp add: w(2))
qed

end
