(* ===== verification/Recovery.thy ===== *)
theory Recovery
  imports Stream_Order
begin

text \<open>
  What happens to an event that has overtaken its predecessor (theory \<open>Stream_Order\<close>). The
  projection refuses it, the subscriber gives it back, and the server hands it out again. As long
  as the predecessor is among the ten messages of some turn together with it, every turn
  acknowledges at least one message, and the view reaches the last version of every product, however
  the ticks of the relays and the turns of the subscriber are interleaved: the order that several
  relays lose is restored by refusing.
\<close>

section \<open>Messages that are near their predecessors\<close>

text \<open>
  An earlier event of the same product that the view has not reached comes before, or at most
  \<open>w\<close> places behind. \<open>seen\<close> is what was before the list.
\<close>

definition awaits :: "db \<Rightarrow> OutboxEvent \<Rightarrow> OutboxEvent \<Rightarrow> bool" where
  "awaits d e p \<longleftrightarrow> oe_AggregateID p = oe_AggregateID e \<and> oe_Version p < oe_Version e \<and> \<not> marked p d"

fun nearby :: "nat \<Rightarrow> OutboxEvent list \<Rightarrow> db \<Rightarrow> OutboxEvent list \<Rightarrow> OutboxEvent list \<Rightarrow> bool" where
  "nearby w E d seen [] \<longleftrightarrow> True"
| "nearby w E d seen (e # es) \<longleftrightarrow>
     list_all (\<lambda>p. awaits d e p \<longrightarrow> p \<in> set seen \<or> p \<in> set (take w es)) E \<and> nearby w E d (e # seen) es"

text \<open>When everything that waits fits into one turn, nothing else is needed.\<close>

lemma nearby_few:
  assumes "length es \<le> Suc w" "\<And>p. p \<in> set E \<Longrightarrow> \<not> marked p d \<Longrightarrow> p \<in> set seen \<union> set es"
  shows "nearby w E d seen es"
  using assms
proof (induction es arbitrary: seen)
  case (Cons e es)
  have "list_all (\<lambda>p. awaits d e p \<longrightarrow> p \<in> set seen \<or> p \<in> set (take w es)) E"
    using Cons.prems by (fastforce simp: list_all_iff awaits_def)
  moreover have "nearby w E d (e # seen) es" by (rule Cons.IH) (use Cons.prems in auto)
  ultimately show ?case by simp
qed simp

lemma in_take_filter: "x \<in> set (take w xs) \<Longrightarrow> P x \<Longrightarrow> x \<in> set (take w (filter P xs))"
proof (induction xs arbitrary: w)
  case (Cons y xs)
  then show ?case
  proof (cases w)
    case (Suc w')
    have "x \<in> set (take w' (filter P xs)) \<Longrightarrow> x \<in> set (take (Suc w') (filter P xs))"
      by (rule subsetD [OF set_take_subset_set_take [of w' "Suc w'"]]) simp_all
    with Suc Cons show ?thesis by auto
  qed simp
qed simp

text \<open>What is taken may leave: those that stay are no farther apart.\<close>

lemma nearby_filter:
  assumes "nearby w E d seen (map f ms)" "\<And>p. marked p d \<Longrightarrow> marked p d'"
    and "\<And>m. m \<in> set ms \<Longrightarrow> \<not> keep m \<Longrightarrow> marked (f m) d'" "\<And>s. s \<in> set seen \<Longrightarrow> s \<in> set seen' \<or> marked s d'"
  shows "nearby w E d' seen' (map f (filter keep ms))"
  using assms
proof (induction ms arbitrary: seen seen')
  case (Cons m ms)
  show ?case
  proof (cases "keep m")
    case False
    then have "nearby w E d' seen' (map f (filter keep ms))"
      by (intro Cons.IH [of "f m # seen"]) (use Cons.prems in auto)
    with False show ?thesis by simp
  next
    case True
    have "nearby w E d' (f m # seen') (map f (filter keep ms))"
      by (rule Cons.IH [of "f m # seen"]) (use Cons.prems in auto)
    moreover have "p \<in> set seen' \<or> p \<in> set (take w (map f (filter keep ms)))" if p: "p \<in> set E" "awaits d' (f m) p" for p
    proof -
      have new: "\<not> marked p d'" using p(2) by (simp add: awaits_def)
      have "awaits d (f m) p" using p(2) Cons.prems(2) by (auto simp: awaits_def)
      then have "p \<in> set seen \<or> p \<in> f ` set (take w ms)"
        using Cons.prems(1) p(1) by (auto simp: list_all_iff take_map)
      then show ?thesis
      proof
        assume "p \<in> f ` set (take w ms)"
        then obtain m' where m': "m' \<in> set (take w ms)" "f m' = p" by blast
        then have "keep m'" using Cons.prems(3) [of m'] new in_set_takeD [OF m'(1)] by auto
        then have "m' \<in> set (take w (filter keep ms))" by (rule in_take_filter [OF m'(1)])
        with m'(2) show ?thesis by (auto simp: take_map)
      qed (use Cons.prems(4) new in blast)
    qed
    ultimately show ?thesis using True by (simp add: list_all_iff)
  qed
qed simp

section \<open>A turn takes something\<close>

lemma project_db_refused: "refused e d \<Longrightarrow> project_db enc e d = d"
  by (auto simp: refused_def project_db_def Let_def)

lemma taken_none: "taken enc d ms = [] \<Longrightarrow> m \<in> set ms \<Longrightarrow> refused (event_in m) d"
  by (induction ms) (auto simp: Let_def project_db_refused split: if_splits)

text \<open>
  The first message is refused only when the next event of its product is missing; that one is
  behind it in the same turn, and is not refused.
\<close>

lemma turn_takes:
  assumes "u \<noteq> []" "nearby 9 E d [] (map event_in u)" "no_loss (set E) d" "versions_nonneg d"
    and "\<And>e v. e \<in> set E \<Longrightarrow> 1 \<le> v \<Longrightarrow> v \<le> oe_Version e \<Longrightarrow> \<exists>p \<in> set E. oe_AggregateID p = oe_AggregateID e \<and> oe_Version p = v"
    and "event_in (hd u) \<in> set E"
  shows "taken enc d (take 10 u) \<noteq> []"
proof
  assume none: "taken enc d (take 10 u) = []"
  obtain m ms where u: "u = m # ms" using assms(1) by (cases u) auto
  let ?e = "event_in m"
  let ?v = "view_version (oe_AggregateID ?e) d"
  have first: "refused ?e d" using taken_none [OF none, of m] by (simp add: u)
  then have e: "?v + 1 < oe_Version ?e" by (simp add: refused_def)
  have "0 \<le> ?v" using assms(4) by (simp add: versions_nonneg_def)
  then obtain p where p: "p \<in> set E" "oe_AggregateID p = oe_AggregateID ?e" "oe_Version p = ?v + 1"
    using assms(5) [of ?e "?v + 1"] assms(6) e by (auto simp: u)
  have "\<not> marked p d" using assms(3) p by (auto simp: no_loss_def)
  then have "awaits d ?e p" using p e by (simp add: awaits_def)
  then have "p \<in> event_in ` set (take 9 ms)" using assms(2) p(1) by (auto simp: u list_all_iff take_map)
  then obtain m' where m': "m' \<in> set (take 9 ms)" "event_in m' = p" by blast
  have "refused p d" using taken_none [OF none, of m'] m' by (simp add: u)
  with p show False by (simp add: refused_def)
qed

section \<open>Turns until nothing is left\<close>

text \<open>Before every event of \<open>E\<close> there are all the earlier versions of its product.\<close>

definition gapless :: "OutboxEvent list \<Rightarrow> bool" where
  "gapless E \<longleftrightarrow> (\<forall>e \<in> set E. \<forall>v. 1 \<le> v \<and> v \<le> oe_Version e \<longrightarrow>
     (\<exists>p \<in> set E. oe_AggregateID p = oe_AggregateID e \<and> oe_Version p = v))"

lemma contiguous_gapless:
  assumes "contiguous d"
  shows "gapless (event_store d)"
  unfolding gapless_def
proof (intro ballI allI impI)
  fix e v
  assume e: "e \<in> set (event_store d)" and v: "1 \<le> v \<and> v \<le> oe_Version e"
  have "row_key e \<in> row_key ` set (event_store d)" using e by (rule imageI)
  then have "oe_Version e \<le> stream_len (oe_AggregateID e) d" using key_taken_iff [OF assms] by simp
  then have "(oe_AggregateID e, v) \<in> row_key ` set (event_store d)" using v key_taken_iff [OF assms] by simp
  then show "\<exists>p \<in> set (event_store d). oe_AggregateID p = oe_AggregateID e \<and> oe_Version p = v" by auto
qed

lemma unacked_more: "unacked (j\<lparr>mj_acked := xs @ mj_acked j\<rparr>) = filter (\<lambda>m. m \<notin> set xs) (unacked j)"
  by (simp add: unacked_def) meson

text \<open>The events on their way: in the streams and not acknowledged, or not yet published.\<close>

abbreviation transit :: "mem_js \<Rightarrow> db \<Rightarrow> OutboxEvent list" where
  "transit j d \<equiv> map event_in (unacked j) @ unpublished d"

lemma nearby_leave:
  assumes "nearby w E d [] (map event_in ms @ es)" "\<And>p. marked p d \<Longrightarrow> marked p d'"
    and "\<And>m. m \<in> set ms \<Longrightarrow> \<not> keep m \<Longrightarrow> marked (event_in m) d'"
  shows "nearby w E d' [] (map event_in (filter keep ms) @ es)"
proof -
  let ?f = "case_sum event_in id" and ?keep = "case_sum keep (\<lambda>_. True)"
  have "nearby w E d' [] (map ?f (filter ?keep (map Inl ms @ map Inr es)))"
    by (rule nearby_filter [where seen = "[]" and d = d]) (use assms in \<open>auto simp: comp_def\<close>)
  then show ?thesis by (simp add: filter_map comp_def)
qed

text \<open>What a schedule keeps; \<open>d0\<close> is where it begins.\<close>

definition settling :: "(float64 \<Rightarrow> error + int) \<Rightarrow> db \<Rightarrow> mem_js world \<Rightarrow> bool" where
  "settling enc d0 w \<longleftrightarrow>
     (let E = event_store d0; d = committed w in
      locked w = [] \<and> event_store d = E \<and> distinct (outbox_ids_of d) \<and> set (unpublished d) \<subseteq> set E \<and>
      stream_known enc (set E) (bus w) \<and> following (set E) w \<and> nearby 9 E d [] (transit (bus w) d) \<and>
      (\<forall>e \<in> set E. marked e d \<or> e \<in> set (transit (bus w) d)) \<and> (\<forall>a. view_version a d \<le> stream_len a d0))"

lemma settlingD:
  assumes "settling enc d0 w"
  shows "locked w = []" "event_store (committed w) = event_store d0" "distinct (outbox_ids_of (committed w))"
    "set (unpublished (committed w)) \<subseteq> set (event_store d0)" "stream_known enc (set (event_store d0)) (bus w)"
    "following (set (event_store d0)) w" "nearby 9 (event_store d0) (committed w) [] (transit (bus w) (committed w))"
    "e \<in> set (event_store d0) \<Longrightarrow> marked e (committed w) \<or> e \<in> set (transit (bus w) (committed w))"
    "view_version a (committed w) \<le> stream_len a d0"
  using assms by (simp_all add: settling_def Let_def)

text \<open>A tick moves up to ten events from the outbox to the end of the streams.\<close>

lemma settling_tick:
  assumes "settling enc d0 w" "list_all (\<lambda>e. valid_row e \<and> oe_AggregateType e \<noteq> '''') (event_store d0)"
  obtains w' where "snd (processBatch (pg_relay mem_publish 10) Background w) = w'" "settling enc d0 w'"
    "unpublished (committed w') = drop 10 (unpublished (committed w))"
    "length (transit (bus w') (committed w')) \<le> length (transit (bus w) (committed w))"
proof -
  let ?u = "unpublished (committed w)" and ?E = "set (event_store d0)"
  note J = settlingD [OF assms(1)]
  have ok: "valid_row e \<and> oe_AggregateType e \<noteq> ''''" if "e \<in> set ?u" for e
    using that J(4) assms(2) by (auto simp: list_all_iff)
  have F: "faults w = []" using J(6) by (simp add: following_def)
  obtain w' where w': "snd (processBatch (pg_relay mem_publish 10) Background w) = w'" "faults w' = []" "locked w' = []"
    "committed w' = (committed w)\<lparr>outbox := mark_rows (take 10 ?u) (outbox (committed w))\<rparr>"
    "mj_stored (bus w') = mj_stored (bus w) @ map message_of (take 10 ?u)" "mj_acked (bus w') = mj_acked (bus w)"
    by (rule tick_publishes [OF F J(1,3) ok])
  let ?xs = "map message_of (take 10 (unpublished (committed w)))"
  let ?new = "enumerate (length (mj_stored (bus w))) (map snd ?xs)" and ?keep = "\<lambda>m. m \<notin> set (mj_acked (bus w))"
  have same: "marked e (committed w') = marked e (committed w)" "view_version a (committed w') = view_version a (committed w)" for e a
    by (simp_all add: w'(4) marked_def view_version_def view_of_def)
  have u': "unpublished (committed w') = drop 10 ?u" unfolding w'(4) by (rule unpublished_mark [OF J(3)])
  have valid: "valid_row e" if "e \<in> set (take 10 ?u)" for e using ok in_set_takeD [OF that] by blast
  have new: "map event_in ?new = take 10 ?u" by (rule published_events [OF valid])
  have "filter ?keep (unacked (bus w)) = unacked (bus w)" by (simp add: unacked_def)
  then have rest: "unacked (bus w') = filter ?keep (unacked (bus w) @ ?new)"
    by (simp only: unacked_append [OF w'(5,6)] filter_append)
  have trans: "transit (bus w') (committed w') = map event_in (filter ?keep (unacked (bus w) @ ?new)) @ drop 10 ?u"
    by (simp only: rest u')
  have old: "transit (bus w) (committed w) = map event_in (unacked (bus w) @ ?new) @ drop 10 ?u"
    by (simp only: map_append new append_assoc append_take_drop_id)
  have fol: "following ?E w'" by (rule following_outbox [OF J(6) w'(2,4,6)])
  have "nearby 9 (event_store d0) (committed w') [] (transit (bus w') (committed w'))"
    unfolding trans
    by (rule nearby_leave [OF J(7) [unfolded old]]) (use fol w'(6) same in \<open>auto simp: following_def\<close>)
  moreover have "stream_known enc ?E (bus w')"
    by (rule stream_known_append [OF J(5) w'(5) _ valid]) (rule order_trans [OF set_take_subset J(4)])
  moreover have "marked e (committed w') \<or> e \<in> set (transit (bus w') (committed w'))" if "e \<in> ?E" for e
    using J(8) [OF that] fol w'(6) unfolding old trans same following_def by auto
  moreover have "set (unpublished (committed w')) \<subseteq> ?E" using J(4) set_drop_subset [of 10 ?u] u' by simp
  moreover have "event_store (committed w') = event_store d0" "distinct (outbox_ids_of (committed w'))"
    using J(2,3) by (simp_all only: w'(4) outbox_ids_mark) simp
  ultimately have "settling enc d0 w'"
    using J(9) w'(3) fol same unfolding settling_def Let_def by simp
  moreover have "length (transit (bus w') (committed w')) \<le> length (transit (bus w) (committed w))"
    unfolding trans old using length_filter_le [of ?keep "unacked (bus w) @ ?new"] by (simp del: length_filter_le)
  ultimately show thesis using that [OF w'(1)] u' by blast
qed

text \<open>A turn takes messages from the streams; when nothing is left to publish, at least one.\<close>

lemma settling_turn:
  assumes "settling enc d0 w" "gapless (event_store d0)" "list_all (fits enc) (event_store d0)" "contiguous d0"
  obtains w' where "fetch_turn mem_jetstream (app_handler (mem_libs enc)) () w = w'" "settling enc d0 w'"
    "unpublished (committed w') = unpublished (committed w)"
    "length (transit (bus w') (committed w')) \<le> length (transit (bus w) (committed w))"
    "unpublished (committed w) = [] \<longrightarrow> length (transit (bus w') (committed w')) \<le> length (transit (bus w) (committed w)) - 1"
proof -
  let ?E = "event_store d0" and ?u = "unacked (bus w)" and ?d = "committed w"
  let ?t = "taken enc ?d (take 10 ?u)" and ?es = "map event_in (take 10 (unacked (bus w)))"
  note J = settlingD [OF assms(1)]
  obtain w' where w': "fetch_turn mem_jetstream (app_handler (mem_libs enc)) () w = w'" "following (set ?E) w'"
    "committed w' = fold (project_db enc) ?es ?d" "bus w' = (bus w)\<lparr>mj_acked := rev ?t @ mj_acked (bus w)\<rparr>"
    "locked w' = locked w"
    by (rule turn_effect [OF J(5,6)])
  have u': "unacked (bus w') = filter (\<lambda>m. m \<notin> set ?t) ?u" by (simp add: w'(4) unacked_more)
  have E: "event_in m \<in> set ?E" if "m \<in> set ?u" for m
    using that J(5) by (auto simp: unacked_def stream_known_def)
  then have es: "set ?es \<subseteq> set ?E" using in_set_takeD by fastforce
  have more: "marked p (committed w')" if "marked p ?d" for p
    unfolding w'(3) by (rule project_all_marked) (use that in simp)
  have gone: "marked (event_in m) (committed w')" if "m \<in> set ?t" for m
    unfolding w'(3) by (rule taken_marked [OF that])
  have tables: "event_store (committed w') = event_store ?d" "outbox (committed w') = outbox ?d"
    using project_all_write_tables [of enc ?es ?d] by (simp_all add: w'(3) write_tables_def)
  then have pub: "unpublished (committed w') = unpublished ?d" by (simp add: unpublished_def)
  have "nearby 9 ?E (committed w') [] (transit (bus w') (committed w'))"
    unfolding u' pub by (rule nearby_leave [OF J(7) more]) (use gone in simp_all)
  moreover have "marked e (committed w') \<or> e \<in> set (transit (bus w') (committed w'))" if "e \<in> set ?E" for e
    using J(8) [OF that] more gone unfolding u' pub by auto
  moreover have "view_version a (committed w') \<le> stream_len a d0" for a
  proof -
    have "oe_Version e \<le> stream_len a d0" if "e \<in> set ?es" "oe_AggregateID e = a" for e
      using that es key_taken_iff [OF assms(4), of a "oe_Version e"] by force
    then show ?thesis
      unfolding w'(3) by (intro project_all_version_bound J(9)) (use es assms(3) in \<open>auto simp: list_all_iff\<close>)
  qed
  moreover have "stream_known enc (set ?E) (bus w')" using J(5) by (simp add: stream_known_def w'(4))
  ultimately have settling: "settling enc d0 w'"
    using J(1-4) w'(2,5) tables pub unfolding settling_def Let_def by simp
  have less: "length (transit (bus w') (committed w')) \<le> length (transit (bus w) ?d)" by (simp add: u' pub)
  have "length (transit (bus w') (committed w')) \<le> length (transit (bus w) ?d) - 1" if none: "unpublished ?d = []"
  proof (cases "?u = []")
    case False
    have f: "no_loss (set ?E) ?d" "versions_nonneg ?d" using J(6) by (simp_all add: following_def)
    have near: "nearby 9 ?E ?d [] (map event_in ?u)" using J(7) none by simp
    have gap: "\<exists>p \<in> set ?E. oe_AggregateID p = oe_AggregateID e \<and> oe_Version p = v"
      if "e \<in> set ?E" "1 \<le> v" "v \<le> oe_Version e" for e v
      using that assms(2) by (simp add: gapless_def)
    have "event_in (hd ?u) \<in> set ?E" using E hd_in_set [OF False] by blast
    then have "?t \<noteq> []" by (intro turn_takes [OF False near f gap])
    then obtain m where m: "m \<in> set ?t" by (cases ?t) auto
    then have "m \<in> set ?u" using set_taken in_set_takeD by (metis subsetD)
    with m have "length (unacked (bus w')) < length ?u" unfolding u' by (intro length_filter_less) auto
    then show ?thesis by (simp add: pub none)
  qed (simp add: u' pub none)
  with that [OF w'(1) settling pub less] show thesis by blast
qed

section \<open>Schedules\<close>

text \<open>
  The background of the program without faults: a schedule says in which order the relays tick and
  the subscriber takes its turns. The relays of \<open>main\<close> are all the same, so a tick need not say of
  which.
\<close>

datatype activity = RelayTick | SubscriberTurn

fun background :: "('j, 'q, 'm) libs \<Rightarrow> 'q \<Rightarrow> activity list \<Rightarrow> 'j world \<Rightarrow> 'j world" where
  "background l q [] w = w"
| "background l q (RelayTick # acts) w =
     background l q acts (snd (processBatch (pg_relay (app_publish l) 10) Background w))"
| "background l q (SubscriberTurn # acts) w = background l q acts (fetch_turn (lib_js l) (app_handler l) q w)"

lemma background_append: "background l q (xs @ ys) w = background l q ys (background l q xs w)"
  by (induction l q xs w rule: background.induct) simp_all

text \<open>A round of theory \<open>Sample_Main\<close> is a schedule: a tick of every relay, then a turn.\<close>

lemma background_ticks:
  "background l q (replicate k RelayTick) w = snd (relay_loop (pg_relay (app_publish l) 10) Background (replicate k Tick) w)"
  by (induction k arbitrary: w) simp_all

lemma round_schedule:
  "background_round l (main_relays l) q w = background l q (replicate 3 RelayTick @ [SubscriberTurn]) w"
  by (simp add: background_round_def main_relays_def numeral_3_eq_3)

lemma settling_background:
  assumes "settling enc d0 w" "list_all (\<lambda>e. valid_row e \<and> oe_AggregateType e \<noteq> '''') (event_store d0)"
    and "list_all (fits enc) (event_store d0)" "contiguous d0"
  shows "settling enc d0 (background (mem_libs enc) () acts w) \<and>
    length (unpublished (committed (background (mem_libs enc) () acts w))) \<le>
      length (unpublished (committed w)) - 10 * count_list acts RelayTick \<and>
    length (transit (bus (background (mem_libs enc) () acts w)) (committed (background (mem_libs enc) () acts w))) \<le>
      length (transit (bus w) (committed w)) - (if unpublished (committed w) = [] then count_list acts SubscriberTurn else 0)"
  using assms(1)
proof (induction acts arbitrary: w)
  case Nil
  then show ?case by simp
next
  case (Cons a acts)
  show ?case
  proof (cases a)
    case RelayTick
    obtain w' where w': "snd (processBatch (pg_relay mem_publish 10) Background w) = w'" "settling enc d0 w'"
      "unpublished (committed w') = drop 10 (unpublished (committed w))"
      "length (transit (bus w') (committed w')) \<le> length (transit (bus w) (committed w))"
      by (rule settling_tick [OF Cons.prems assms(2)])
    with RelayTick Cons.IH [OF w'(2)] show ?thesis by (auto split: if_splits)
  next
    case SubscriberTurn
    obtain w' where w': "fetch_turn mem_jetstream (app_handler (mem_libs enc)) () w = w'" "settling enc d0 w'"
      "unpublished (committed w') = unpublished (committed w)"
      "length (transit (bus w') (committed w')) \<le> length (transit (bus w) (committed w))"
      "unpublished (committed w) = [] \<longrightarrow> length (transit (bus w') (committed w')) \<le> length (transit (bus w) (committed w)) - 1"
      by (rule settling_turn [OF Cons.prems contiguous_gapless [OF assms(4)] assms(3,4)])
    with SubscriberTurn Cons.IH [OF w'(2)] show ?thesis by (auto split: if_splits)
  qed
qed

text \<open>An event that the subscriber has not processed is in transit.\<close>

abbreviation in_transit :: "mem_js app \<Rightarrow> OutboxEvent list" where
  "in_transit y \<equiv> transit (app_bus y) (app_db y)"

lemma unmarked_in_transit:
  assumes "app_inv (mem_libs enc) mj_stored (\<lambda>j. set (mj_acked j)) y"
    and "p \<in> set (event_store (app_db y))" "oe_AggregateType p \<noteq> ''''" "\<not> marked p (app_db y)"
  shows "p \<in> set (in_transit y)"
proof -
  note i = app_invD [OF assms(1)]
  have "p \<in> set (map ob_event (outbox (app_db y)))" using assms(2) i(8) by simp
  then obtain x where x: "x \<in> set (outbox (app_db y))" "ob_event x = p" by auto
  show ?thesis
  proof (cases "published x")
    case True
    then have "message_of p \<in> set (mj_stored (app_bus y))" using i(3) x assms(3) by (auto simp: all_sent_def)
    then obtain m where m: "m \<in> set (msgs_of (app_bus y))" "snd m = snd (message_of p)" by (rule stored_message)
    have "valid_row p" using assms(2) i(7) by (simp add: write_inv_def store_wf_def)
    then have dec: "unmarshal_outbox (snd m) zero_outbox = Inr p" using valid_row_message m(2) by simp
    have "m \<notin> set (mj_acked (app_bus y))"
    proof
      assume "m \<in> set (mj_acked (app_bus y))"
      with i(6) dec have "recorded p (app_db y)" by (auto simp: acks_recorded_def mem_jetstream_def)
      with assms(4) show False by (simp add: marked_def)
    qed
    with m(1) have "event_in m \<in> event_in ` set (unacked (app_bus y))" by (simp add: unacked_def)
    with dec show ?thesis by (simp add: event_in_def)
  next
    case False
    with x set_unpublished show ?thesis by auto
  qed
qed

lemma few_in_transit:
  assumes "app_reachable f n (mem_libs enc) mem_js_empty y" "length (in_transit y) \<le> 10"
    and "list_all (\<lambda>e. oe_AggregateType e \<noteq> '''') (event_store (app_db y))"
  shows "nearby 9 (event_store (app_db y)) (app_db y) [] (in_transit y)"
proof (rule nearby_few)
  show "p \<in> set [] \<union> set (in_transit y)" if "p \<in> set (event_store (app_db y))" "\<not> marked p (app_db y)" for p
    using unmarked_in_transit [OF app_reachable_inv [OF assms(1) mem_libs_ok] that(1) _ that(2)] assms(3) that(1)
    by (simp add: list_all_iff)
qed (use assms(2) in simp)

lemma settling_start:
  assumes "app_reachable f n (mem_libs enc) mem_js_empty y"
    and "list_all (\<lambda>e. oe_AggregateType e \<noteq> '''' \<and> fits enc e) (event_store (app_db y))"
    and "no_loss (set (event_store (app_db y))) (app_db y)"
    and "nearby 9 (event_store (app_db y)) (app_db y) [] (in_transit y)"
  shows "settling enc (app_db y) (app_world y [])"
proof -
  let ?d = "app_db y" and ?w = "app_world y []"
  note inv = app_reachable_inv [OF assms(1) mem_libs_ok]
  note i = app_invD [OF inv]
  have w: "committed ?w = ?d" "bus ?w = app_bus y" "locked ?w = []" by (simp_all add: app_world_def)
  have fits: "list_all (fits enc) (event_store ?d)" using assms(2) by (simp add: list_all_iff)
  have "distinct (outbox_ids_of ?d)" using i(2) by (simp add: workers_inv_def)
  moreover have "view_version a ?d \<le> stream_len a ?d" for a
    by (rule view_version_stream) (use i(5,7) in \<open>simp_all add: write_inv_def\<close>)
  moreover have "marked e ?d \<or> e \<in> set (in_transit y)" if "e \<in> set (event_store ?d)" for e
    using unmarked_in_transit [OF inv that] assms(2) that by (auto simp: list_all_iff)
  ultimately show ?thesis
    using reachable_follows [OF inv fits assms(3)] assms(4) unpublished_stored [OF i(8)]
    unfolding settling_def Let_def w by simp
qed



end
