(* ===== verification/Error_Paths.thy ===== *)
theory Error_Paths
  imports Simulation
begin

text \<open>
  The paths on which the code hides an error from its caller, and what is lost there: the snapshot
  of the event store, the replay of the repository, the writes of the projection, and the messages
  that the subscriber cannot decode.
\<close>

section \<open>A failed snapshot\<close>

lemma tx_Commit_dead:
  "\<not> tx_open s \<Longrightarrow> \<exists>e s'. tx_Commit s = (Some e, s') \<and> committed s' = committed s"
  by (auto simp: tx_Commit_def tx_open_def split: option.splits prod.splits fault.splits dest!: next_faultD)

text \<open>
  C36. When the statement of the snapshot fails, \<open>Save\<close> only logs the error and returns \<open>nil\<close>
  although the events have been inserted; but the failed statement has aborted the transaction, so
  the commit that follows fails and nothing of the transaction is kept, the events included.
\<close>

theorem snapshot_error_discards_events:
  assumes "tx_open s" "ar_events a \<noteq> []" "saveEventsInTx (ar_events a) s = (None, s1)"
    and "SaveEvents TxCtx (ar_events a) s1 = (None, s2)" "shouldSnapshot f a" "m a = Inr j"
    and "saveSnapshotInTx m a s2 = (Some err, s3)"
  shows "Save f m TxCtx a s = (None, s3) \<and> (\<exists>e s4. tx_Commit s3 = (Some e, s4) \<and> committed s4 = committed s)"
proof -
  have save: "Save f m TxCtx a s = (None, s3)"
    using assms by (simp add: Save_def GetUncommittedEvents_def)
  obtain e where "tx_Exec (InsertSnapshot (snapshot_of a j)) s2 = (Inl e, s3)"
    using assms(6,7) by (auto simp: saveSnapshotInTx_def snapshot_of_def split: prod.splits sum.splits)
  from tx_Commit_dead [OF tx_Exec_error(1) [OF this]] obtain e s4 where
    "tx_Commit s3 = (Some e, s4)" "committed s4 = committed s3" by blast
  with save same_outsideD(1) [OF Save_frame [OF save]] show ?thesis by simp
qed

text \<open>One call that does not fail, with faults to come.\<close>

lemma next_fault_cons: "faults s = f # fs \<Longrightarrow> next_fault s = (f, s\<lparr>faults := fs\<rparr>)"
  by (simp add: next_fault_def)

lemma tx_view_faults [simp]: "tx_view (s\<lparr>faults := fs\<rparr>) = tx_view s"
  by (simp add: tx_view_def cong: option.case_cong)

lemma batch_next:
  assumes "faults s = None # None # fs" "tx_open s" "exec_stmt st (tx_view s) = Inr (n, d)"
  obtains s1 s2 where "br_Exec_all [st] s = (None, s1)" "br_Close s1 = (None, s2)" "faults s2 = fs" "tx_open s2" "tx_view s2 = d"
proof -
  obtain t where t: "cur_tx s = Some t" "\<not> tx_aborted t" using assms(2) by (auto simp: tx_open_def)
  define s1 where "s1 = s\<lparr>faults := None # fs, cur_tx := Some (t\<lparr>tx_stmts := tx_stmts t @ [st]\<rparr>)\<rparr>"
  have ex: "tx_Exec st s = (Inr n, s1)"
    using t assms(3) by (simp add: tx_Exec_def next_fault_cons [OF assms(1)] s1_def)
  have "faults s1 = None # fs" by (simp add: s1_def)
  then have "br_Close s1 = (None, s1\<lparr>faults := fs\<rparr>)" by (simp add: br_Close_def next_fault_cons)
  moreover have "tx_view s1 = d" "tx_open s1" using tx_Exec_ok [OF ex] assms(3) by simp_all
  ultimately show thesis using ex by (intro that [of s1 "s1\<lparr>faults := fs\<rparr>"]) (simp_all add: tx_open_def)
qed

text \<open>A product that is created with a snapshot after every event; the fifth call of the transaction fails.\<close>

theorem snapshot_error_discards_events_witness:
  "\<exists>s3 e s4. Save 1 MarshalJSON TxCtx (created_aggregate 2 0 sample_create)
       (begun (session_on empty_db [None, None, None, None, Some (Fault DriverError False)])) = (None, s3) \<and>
     tx_Commit s3 = (Some e, s4) \<and> committed s4 = empty_db"
proof -
  let ?a = "created_aggregate 2 0 sample_create"
  let ?s = "begun (session_on empty_db [None, None, None, None, Some (Fault DriverError False)])"
  obtain r where r: "event_row_of (created_event 2 0 sample_create) = Inr r" "row_sized r"
    using created_row [of 0 sample_create 10 2] samples_ok by auto
  have rows: "mapE event_row_of (ar_events ?a) = Inr [r]" using r(1) by (simp add: created_aggregate_def)
  have "faults ?s = None # None # [None, None, Some (Fault DriverError False)]" "tx_open ?s"
    "exec_stmt (InsertEvent r) (tx_view ?s) = Inr (1, empty_db\<lparr>event_store := [r]\<rparr>)"
    using r(2) by (simp_all add: exec_InsertEvent_iff del: exec_stmt.simps)
  then obtain t1 s1 where s1: "br_Exec_all [InsertEvent r] ?s = (None, t1)" "br_Close t1 = (None, s1)"
    "faults s1 = None # None # [Some (Fault DriverError False)]" "tx_open s1" "tx_view s1 = empty_db\<lparr>event_store := [r]\<rparr>"
    by (rule batch_next)
  have "exec_stmt (InsertOutbox r) (tx_view s1) = Inr (1, (tx_view s1)\<lparr>outbox := [\<lparr>ob_event = r, published = False\<rparr>]\<rparr>)"
    using r(2) by (simp add: exec_InsertOutbox_iff s1(5) del: exec_stmt.simps)
  from batch_next [OF s1(3,4) this] obtain t2 s2 where s2: "br_Exec_all [InsertOutbox r] s1 = (None, t2)"
    "br_Close t2 = (None, s2)" "faults s2 = [Some (Fault DriverError False)]" "tx_open s2" by blast
  have ev: "saveEventsInTx (ar_events ?a) ?s = (None, s1)" "SaveEvents TxCtx (ar_events ?a) s1 = (None, s2)"
    using rows s1(1,2) s2(1,2) by (simp_all add: saveEventsInTx_def SaveEvents_def del: br_Exec_all.simps)
  obtain j where j: "MarshalJSON ?a = Inr j"
    using samples_ok(2) by (auto simp: MarshalJSON_def created_aggregate_def marshal_Product_def)
  have "\<exists>err s3. saveSnapshotInTx MarshalJSON ?a s2 = (Some err, s3)"
    using j s2(3,4) by (auto simp: saveSnapshotInTx_def tx_Exec_def next_fault_def tx_open_def)
  then obtain err s3 where s3: "saveSnapshotInTx MarshalJSON ?a s2 = (Some err, s3)" by blast
  have "shouldSnapshot 1 ?a" by (simp add: shouldSnapshot_def)
  from snapshot_error_discards_events [OF begun_simps(1) _ ev this j s3] show ?thesis
    by (auto simp: session_on_def created_aggregate_def)
qed

section \<open>A replay that fails\<close>

lemma LoadFromHistory_stops:
  "LoadFromHistory apply_m pre a = (None, b) \<Longrightarrow> apply_m e b = (Some err, c) \<Longrightarrow>
     LoadFromHistory apply_m (pre @ e # post) a = (Some (Wrap ''apply event from history failed'' err), c)"
  by (induction pre arbitrary: a) (auto split: prod.splits option.splits)

text \<open>
  \<open>Repository.Load\<close> does not look at the error of \<open>LoadFromHistory\<close>: when an event of the
  history cannot be applied, it returns no error but the product in the state before that event,
  as if the stream ended there, whatever the store is.
\<close>

theorem load_ignores_replay_error:
  assumes "store_Load c i s = (Inr (None, v, pre @ e # post), s')"
    and "LoadFromHistory Apply pre newEmptyProduct = (None, p)" "Apply e p = (Some err, p')"
  shows "Repository_Load store_Load newEmptyProduct UnmarshalJSON Apply c i s = (Inr p, s') \<and>
    fst (LoadFromHistory Apply (pre @ e # post) newEmptyProduct) \<noteq> None"
proof -
  have "p' = p" by (rule product.apply_error [OF assms(3)])
  with assms LoadFromHistory_stops [OF assms(2,3), of post] show ?thesis by (simp add: Repository_Load_def)
qed

text \<open>A store that holds an event of a type that the product does not know, between two that it knows.\<close>

theorem load_ignores_replay_error_witness:
  "\<exists>p. Repository_Load
       (\<lambda>c i s. (Inr (None, 0, [created_event 2 0 sample_create, TestProductCreated zero_body, updated_event 3 0 sample_update 2]), s))
       newEmptyProduct UnmarshalJSON Apply Background 1 () = (Inr p, ()) \<and> ar_version p = 1"
proof -
  let ?e = "created_event 2 0 sample_create" and ?store = "\<lambda>(c :: ctx) (i :: uuid) (s :: unit).
      (Inr (None, 0, [created_event 2 0 sample_create, TestProductCreated zero_body, updated_event 3 0 sample_update 2]), s) ::
        (error + json option \<times> int \<times> event list) \<times> unit"
  obtain p where p: "LoadFromHistory Apply [?e] newEmptyProduct = (None, p)" "ar_version p = 1"
    by (auto simp: created_event_def product_defs Version_def empty_product_defs newEmptyProduct_eq)
  have "\<exists>err. Apply (TestProductCreated zero_body) p = (Some err, p)" by (simp add: Apply_def)
  then obtain err where "Apply (TestProductCreated zero_body) p = (Some err, p)" by blast
  with load_ignores_replay_error [of ?store Background 1 "()" 0 "[?e]" "TestProductCreated zero_body"
      "[updated_event 3 0 sample_update 2]" "()" p err p] p
  show ?thesis by auto
qed

section \<open>A view that is written alone\<close>

lemma handler_next:
  assumes "good_event e" "view_stmt enc e = Some st" "faults s = None # fs"
  shows "ProductProjectionHandler_Handle enc c e s = (None, s\<lparr>faults := fs, committed := apply_event enc e (committed s)\<rparr>)"
proof -
  obtain r s' where h: "ProductProjectionHandler_Handle enc c e s = (r, s')" by fastforce
  have "snd (pool_Exec st s) = s\<lparr>faults := fs, committed := run_stmt st (committed s)\<rparr>"
    by (auto simp: pool_Exec_def next_fault_cons [OF assms(3)] run_stmt_def split: sum.split)
  with handler_result [OF assms(1) h] h assms(2) show ?thesis by (simp add: apply_event_def)
qed

text \<open>Whatever the failed insert of the mark makes \<open>MarkAsProcessed\<close> return, the transaction does not commit.\<close>

lemma failed_mark_discards:
  assumes "faults s = None # None # Some (Fault err done) # fs" "fits enc e" "view_stmt enc e = Some st"
  shows "\<exists>txErr s'. WithTransaction (project_tx (productProjection enc) e) c s = (Some txErr, s') \<and>
    committed s' = apply_event enc e (committed s)"
proof -
  let ?fn = "project_tx (productProjection enc) e"
  obtain s1 where start: "pool_Begin s = (None, s1)" "s1 = (begun s)\<lparr>faults := None # Some (Fault err done) # fs\<rparr>"
    using next_fault_cons [OF assms(1)] by (simp add: pool_Begin_def)
  have good: "good_event e" using assms(2) by (simp add: fits_def)
  define s2 where "s2 = s1\<lparr>faults := Some (Fault err done) # fs, committed := apply_event enc e (committed s)\<rparr>"
  have h: "ProductProjectionHandler_Handle enc TxCtx e s1 = (None, s2)"
    using handler_next [OF good assms(3), of s1] start(2) by (simp add: s2_def)
  have "tx_Exec (InsertProcessed (oe_EventID e) ''ProductProjection'') s2 = (Inl err, abort_tx (s2\<lparr>faults := fs\<rparr>))"
    using start(2) by (simp add: tx_Exec_def s2_def next_fault_def)
  then obtain r s3 where run: "?fn TxCtx s1 = (r, s3)" "\<not> tx_open s3" "committed s3 = apply_event enc e (committed s)"
    using h by (cases "as_PgError err = Some ''23505''") (auto simp: project_tx_def MarkAsProcessed_def s2_def)
  show ?thesis
  proof (cases r)
    case None
    with run tx_Commit_dead [OF run(2)] start(1) show ?thesis by (auto simp: WithTransaction_def)
  next
    case (Some txErr)
    with run start(1) show ?thesis by (simp add: WithTransaction_def)
  qed
qed

text \<open>
  C37. The handler of the product projection writes through the pool, so its write and the mark are
  not one transaction: when the insert of the mark fails, the attempt returns an error and the
  event is not recorded, but the view is already at the new version.
\<close>

theorem projection_writes_view_alone:
  assumes "backoff_lib quiet_wait permanent retry" "fits enc e" "\<not> marked e (committed s)"
    and "oe_Version e = view_version (oe_AggregateID e) (committed s) + 1"
    and "faults s = None # None # None # Some (Fault err done) # fs"
  shows "\<exists>r s'. attempt permanent (productProjection enc) c e s = (Some r, s') \<and> \<not> marked e (committed s') \<and>
    view_version (oe_AggregateID e) (committed s') = oe_Version e"
proof -
  let ?s1 = "s\<lparr>faults := None # None # Some (Fault err done) # fs\<rparr>"
  obtain st where st: "view_stmt enc e = Some st"
    using assms(2) by (cases "oe_Version e = 1") (auto simp: view_stmt_def fits_def)
  have gv: "ProductViewRepository_GetVersion c (oe_AggregateID e) s = (Inr (oe_Version e - 1), ?s1)"
    using assms(4) next_fault_cons [OF assms(5)]
    by (auto simp: ProductViewRepository_GetVersion_def pool_Query_def view_version_def split: option.split)
  obtain txErr s' where tx: "WithTransaction (project_tx (productProjection enc) e) c ?s1 = (Some txErr, s')"
    "committed s' = apply_event enc e (committed s)"
    using failed_mark_discards [of ?s1 err "done" fs enc e st c] assms(2) st by auto
  have "\<exists>r. attempt permanent (productProjection enc) c e s = (Some r, s')"
    using gv tx(1) backoff_libD(1,2) [OF assms(1)] by (simp add: attempt_def)
  moreover have "view_version (oe_AggregateID e) (committed s') = oe_Version e" "\<not> marked e (committed s')"
    using view_version_apply [OF assms(2,4)] assms(3) tx(2) by simp_all
  ultimately show ?thesis by blast
qed

theorem projection_writes_view_alone_witness:
  "\<exists>r s'. attempt wrap_permanent (productProjection lossless_enc) Background (created_row_of ''a'' (Finite 3))
       (session_on empty_db [None, None, None, Some (Fault DriverError False)]) = (Some r, s') \<and>
     \<not> marked (created_row_of ''a'' (Finite 3)) (committed s') \<and> view_version 1 (committed s') = 1"
  using projection_writes_view_alone [OF four_tries_ok sample_fits,
      of "session_on empty_db [None, None, None, Some (Fault DriverError False)]" DriverError False "[]" Background]
  by (simp add: created_row_of marked_def view_version_def view_of_def)

section \<open>Messages that do not decode\<close>

lemma turn_acks_decode:
  assumes "libs_ok l stored acks j0" "m \<in> acks (bus (fetch_turn (lib_js l) (app_handler l) q w))" "m \<notin> acks (bus w)"
  shows "\<exists>e. unmarshal_outbox (js_Data (lib_js l) m) zero_outbox = Inr e"
proof -
  note lib = libs_okD [OF assms(1)]
  obtain res j where f: "js_Fetch (lib_js l) q 10 (bus w) = (res, j)" by fastforce
  then have j: "acks j = acks (bus w)" using jetstream_okD(5) [OF lib(1)] by blast
  show ?thesis
  proof (cases res)
    case (Inl err)
    with assms(2,3) f j show ?thesis by (simp add: fetch_turn_def)
  next
    case (Inr ms)
    with assms(2) f have "m \<in> acks (bus (handle_msgs (lib_js l) (app_handler l) ms (w\<lparr>bus := j\<rparr>)))"
      by (simp add: fetch_turn_def)
    from handle_msgs_acked [OF lib(1) _ _ _ this, where Q = "\<lambda>_ _. True"] app_handler_bus [OF assms(1)] assms(3) j
    show ?thesis by auto
  qed
qed

text \<open>
  C38. A message whose data does not decode as an event is never acknowledged: the subscriber logs
  that it skips the message, but asks for its redelivery, in this turn and in every later one.
\<close>

theorem undecodable_never_acked:
  assumes "libs_ok l stored acks j0" "unmarshal_outbox (js_Data (lib_js l) m) zero_outbox = Inl err"
    and "m \<notin> acks (bus w)" "subscriber_loop (lib_js l) (app_handler l) q turns w = (b, w')"
  shows "m \<notin> acks (bus w')"
  using assms(3,4)
proof (induction turns arbitrary: w)
  case Nil
  then show ?case by simp
next
  case (Cons cancelled turns)
  have "m \<notin> acks (bus (fetch_turn (lib_js l) (app_handler l) q w))"
    using turn_acks_decode [OF assms(1), of m q w] assms(2) Cons.prems(1) by auto
  with Cons show ?case by (cases cancelled) auto
qed

text \<open>Ten turns over a stream that holds one such message.\<close>

theorem undecodable_never_acked_witness:
  "\<exists>b w'. subscriber_loop mem_jetstream (app_handler (mem_libs truncating_enc)) () (replicate 10 False)
       (start_world\<lparr>bus := mem_js_empty\<lparr>mj_stored := [(''products.7'', JString ''x'')]\<rparr>\<rparr>) = (b, w') \<and>
     (0, JString ''x'') \<notin> set (mj_acked (bus w'))"
proof -
  let ?w = "start_world\<lparr>bus := mem_js_empty\<lparr>mj_stored := [(''products.7'', JString ''x'')]\<rparr>\<rparr>"
  obtain b w' where run: "subscriber_loop mem_jetstream (app_handler (mem_libs truncating_enc)) () (replicate 10 False) ?w = (b, w')"
    by (metis prod.collapse)
  have "\<exists>err. unmarshal_outbox (JString ''x'') zero_outbox = Inl err" by simp
  then obtain err where "unmarshal_outbox (JString ''x'') zero_outbox = Inl err" by blast
  with undecodable_never_acked [OF mem_libs_ok [of truncating_enc], of "(0, JString ''x'')" err ?w "()" "replicate 10 False" b w'] run
  show ?thesis by (simp add: mem_jetstream_def mem_js_empty_def)
qed

section \<open>Connections of constructors that fail\<close>

text \<open>
  What the client libraries promise of the numbers of open pools and connections: a successful
  \<open>New\<close> or \<open>Connect\<close> opens one, \<open>Close\<close> closes one, and nothing else changes the numbers.
\<close>

definition start_libs_ok :: "('p, 'c, 's) start_libs \<Rightarrow> ('s \<Rightarrow> int) \<Rightarrow> ('s \<Rightarrow> int) \<Rightarrow> bool" where
  "start_libs_ok sl pools conns \<longleftrightarrow>
     (\<forall>dsn s r s'. pgxpool_New sl dsn s = (r, s') \<longrightarrow> pools s' = pools s + (if isl r then 0 else 1) \<and> conns s' = conns s) \<and>
     (\<forall>p s r s'. pool_Ping sl p s = (r, s') \<longrightarrow> pools s' = pools s \<and> conns s' = conns s) \<and>
     (\<forall>p s. pools (pool_Close sl p s) = pools s - 1 \<and> conns (pool_Close sl p s) = conns s) \<and>
     (\<forall>url s r s'. nats_Connect sl url s = (r, s') \<longrightarrow> conns s' = conns s + (if isl r then 0 else 1) \<and> pools s' = pools s) \<and>
     (\<forall>c s r s'. conn_JetStream sl c s = (r, s') \<longrightarrow> pools s' = pools s \<and> conns s' = conns s) \<and>
     (\<forall>c s. conns (conn_Close sl c s) = conns s - 1 \<and> pools (conn_Close sl c s) = pools s)"

lemma start_libs_okD:
  assumes "start_libs_ok sl pools conns"
  shows "pgxpool_New sl dsn s = (Inl e, s') \<Longrightarrow> pools s' = pools s \<and> conns s' = conns s"
    "pgxpool_New sl dsn s = (Inr p, s') \<Longrightarrow> pools s' = pools s + 1 \<and> conns s' = conns s"
    "pool_Ping sl p s = (r, s') \<Longrightarrow> pools s' = pools s \<and> conns s' = conns s"
    "nats_Connect sl url s = (Inl e, s') \<Longrightarrow> conns s' = conns s \<and> pools s' = pools s"
    "nats_Connect sl url s = (Inr c, s') \<Longrightarrow> conns s' = conns s + 1 \<and> pools s' = pools s"
    "conn_JetStream sl c s = (r', s') \<Longrightarrow> pools s' = pools s \<and> conns s' = conns s"
    "conns (conn_Close sl c s) = conns s - 1 \<and> pools (conn_Close sl c s) = pools s"
    "pools (pool_Close sl p s) = pools s - 1 \<and> conns (pool_Close sl p s) = conns s"
  using assms by (fastforce simp: start_libs_ok_def)+

text \<open>
  \<open>NewNATSBroker\<close> leaves no connection behind when it fails, but \<open>NewDB\<close> does: when the ping
  fails, the pool that it created stays open, and the caller has no handle to close it. After a
  success, \<open>DB.Close\<close> and \<open>NATSBroker.Close\<close> give back what the constructors opened.
\<close>

theorem constructors_release:
  assumes "start_libs_ok sl pools conns" "NewDB sl dsn s = (r, s')" "NewNATSBroker sl url t = (q, t')"
  shows "conns t' = conns t + (if isl q then 0 else 1) \<and> pools t' = pools t \<and> conns s' = conns s \<and>
    pools s' = pools s + (if \<exists>e. r = Inl (Wrap ''unable to create connection pool'' e) then 0 else 1) \<and>
    pools (DB_Close sl p s') = pools s' - 1 \<and> conns (NATSBroker_Close sl (Some c) t') = conns t' - 1"
proof (intro conjI)
  note d = start_libs_okD [OF assms(1)]
  show "conns t' = conns t + (if isl q then 0 else 1)" "pools t' = pools t"
    using assms(3) by (auto simp: NewNATSBroker_def d(7) split: prod.splits sum.splits option.splits dest!: d(4,5,6))
  show "conns s' = conns s" "pools s' = pools s + (if \<exists>e. r = Inl (Wrap ''unable to create connection pool'' e) then 0 else 1)"
    using assms(2) by (auto simp: NewDB_def split: prod.splits sum.splits option.splits dest!: d(1,2,3))
  show "pools (DB_Close sl p s') = pools s' - 1" "conns (NATSBroker_Close sl (Some c) t') = conns t' - 1"
    by (simp_all add: DB_Close_def NATSBroker_Close_def d(7,8))
qed

text \<open>Servers that accept every connection, but not the ping.\<close>

definition counting_libs :: "(unit, unit, int \<times> int) start_libs" where
  "counting_libs =
     \<lparr>os_Getenv = (\<lambda>_. ''''), pgxpool_New = (\<lambda>_ (p, c). (Inr (), (p + 1, c))), pool_Ping = (\<lambda>_ s. (Some DriverError, s)),
      pool_Close = (\<lambda>_ (p, c). (p - 1, c)), nats_Connect = (\<lambda>_ (p, c). (Inr (), (p, c + 1))),
      conn_JetStream = (\<lambda>_ s. (Some DriverError, s)), conn_Close = (\<lambda>_ (p, c). (p, c - 1))\<rparr>"

theorem constructors_release_witness:
  "\<exists>e e'. NewDB counting_libs ''dsn'' (0, 0) = (Inl e, (1, 0)) \<and> NewNATSBroker counting_libs ''url'' (0, 0) = (Inl e', (0, 0)) \<and>
     fst (DB_Close counting_libs () (1, 0)) = 0"
proof -
  have ok: "start_libs_ok counting_libs fst snd" by (auto simp: start_libs_ok_def counting_libs_def)
  obtain r s' q t' where run: "NewDB counting_libs ''dsn'' (0, 0) = (r, s')" "NewNATSBroker counting_libs ''url'' (0, 0) = (q, t')"
    by (metis prod.collapse)
  have "isl r" "isl q" "\<nexists>e. r = Inl (Wrap ''unable to create connection pool'' e)"
    using run by (auto simp: NewDB_def NewNATSBroker_def counting_libs_def)
  then obtain e e' where rq: "r = Inl e" "q = Inl e'" by (auto simp: isl_def)
  with constructors_release [OF ok run] \<open>\<nexists>e. r = Inl (Wrap ''unable to create connection pool'' e)\<close>
  have "fst s' = 1" "snd s' = 0" "fst t' = 0" "snd t' = 0" "fst (DB_Close counting_libs () s') = 0" by auto
  then have "s' = (1, 0)" "t' = (0, 0)" by (simp_all add: prod_eq_iff)
  with run rq \<open>fst (DB_Close counting_libs () s') = 0\<close> show ?thesis by simp
qed

end
