(* ===== verification/Test_Support.thy ===== *)
theory Test_Support
  imports Idempotency
begin

text \<open>
  The package \<open>testutil\<close>: the suite of \<open>db_util.go\<close> that runs the tests against a PostgreSQL
  server in a container, and the rest of \<open>versioned_store.go\<close>. The container library is the
  parameter \<open>container_libs\<close>; its wait strategy belongs to \<open>postgres_Run\<close>. A call of \<open>log.Fatalf\<close>
  ends the process, a failed requirement the test: both are an error result here.
\<close>

section \<open>Paths\<close>

text \<open>
  \<open>path/filepath\<close> on a system with \<open>/\<close> as separator: a path is split at the separators, and
  \<open>Clean\<close> drops empty elements and \<open>.\<close>, and resolves \<open>..\<close> where it can.
\<close>

fun split_path :: "string \<Rightarrow> string list" where
  "split_path [] = [[]]"
| "split_path (c # cs) =
     (if c = CHR ''/'' then [] # split_path cs
      else (case split_path cs of [] \<Rightarrow> [[c]] | p # ps \<Rightarrow> (c # p) # ps))"

fun join_path :: "string list \<Rightarrow> string" where
  "join_path [] = ''''"
| "join_path [p] = p"
| "join_path (p # ps) = p @ ''/'' @ join_path ps"

fun clean_elems :: "bool \<Rightarrow> string list \<Rightarrow> string list \<Rightarrow> string list" where
  "clean_elems rooted out [] = rev out"
| "clean_elems rooted out (p # ps) =
     (if p = '''' \<or> p = ''.'' then clean_elems rooted out ps
      else if p = ''..'' then
        (case out of
           [] \<Rightarrow> clean_elems rooted (if rooted then [] else [p]) ps
         | q # qs \<Rightarrow> clean_elems rooted (if q = ''..'' then p # out else qs) ps)
      else clean_elems rooted (p # out) ps)"

definition filepath_Clean :: "string \<Rightarrow> string" where
  "filepath_Clean path =
     (let rooted = (take 1 path = ''/'');
          s = (if rooted then ''/'' else '''') @ join_path (clean_elems rooted [] (split_path path)) in
      if s = '''' then ''.'' else s)"

definition filepath_Join :: "string \<Rightarrow> string \<Rightarrow> string" where
  "filepath_Join a b =
     (if a = '''' \<and> b = '''' then ''''
      else if a = '''' then filepath_Clean b
      else if b = '''' then filepath_Clean a
      else filepath_Clean (a @ ''/'' @ b))"

text \<open>\<open>Dir\<close>: what comes before the last separator, with it, cleaned.\<close>

definition filepath_Dir :: "string \<Rightarrow> string" where
  "filepath_Dir path = filepath_Clean (rev (dropWhile (\<lambda>c. c \<noteq> CHR ''/'') (rev path)))"

section \<open>The suite\<close>

record ('c, 'p, 's) container_libs =
  runtime_Caller :: string
  postgres_Run :: "string \<Rightarrow> string \<Rightarrow> string \<Rightarrow> string \<Rightarrow> string \<Rightarrow> 's \<Rightarrow> (error + 'c) \<times> 's"
  container_ConnectionString :: "'c \<Rightarrow> string \<Rightarrow> 's \<Rightarrow> (error + string) \<times> 's"
  test_pgxpool_New :: "string \<Rightarrow> 's \<Rightarrow> (error + 'p) \<times> 's"
  container_Terminate :: "'c \<Rightarrow> 's \<Rightarrow> error option \<times> 's"

record ('c, 'p) DBIntegrationSuite =
  suite_Pool :: "'p option"
  suite_pgContainer :: "'c option"
  suite_ConnectionString :: string

text \<open>The file that the server runs when it starts; the argument is the path of \<open>db_util.go\<close>.\<close>

definition init_script :: "string \<Rightarrow> string" where
  "init_script b =
     (let projectRoot = filepath_Join (filepath_Dir b) ''../'';
          schemaPath = filepath_Join projectRoot ''./infra/postgres'' in
      filepath_Join schemaPath ''schema.sql'')"

definition SetupSuite ::
  "('c, 'p, 's) container_libs \<Rightarrow> ('c, 'p) DBIntegrationSuite \<Rightarrow> 's
     \<Rightarrow> (error + ('c, 'p) DBIntegrationSuite) \<times> 's" where
  "SetupSuite cl s st =
     (case postgres_Run cl ''postgres:16-alpine'' ''testdb'' ''testuser'' ''testpassword''
             (init_script (runtime_Caller cl)) st of
        (Inl err, st1) \<Rightarrow> (Inl (Wrap ''could not start postgres container'' err), st1)
      | (Inr container, st1) \<Rightarrow>
          (case container_ConnectionString cl container ''sslmode=disable'' st1 of
             (Inl err, st2) \<Rightarrow> (Inl (Wrap ''could not get connection string'' err), st2)
           | (Inr connStr, st2) \<Rightarrow>
               (case test_pgxpool_New cl connStr st2 of
                  (Inl err, st3) \<Rightarrow> (Inl (Wrap ''could not connect to test database'' err), st3)
                | (Inr pool, st3) \<Rightarrow>
                    (Inr (s\<lparr>suite_Pool := Some pool, suite_pgContainer := Some container,
                            suite_ConnectionString := connStr\<rparr>), st3))))"

definition TearDownSuite ::
  "('c, 'p, 's) container_libs \<Rightarrow> ('c, 'p) DBIntegrationSuite \<Rightarrow> 's \<Rightarrow> error option \<times> 's" where
  "TearDownSuite cl s st =
     (case suite_pgContainer s of
        None \<Rightarrow> (None, st)
      | Some container \<Rightarrow>
          (case container_Terminate cl container st of
             (Some err, st1) \<Rightarrow> (Some (Wrap ''failed to terminate postgres container'' err), st1)
           | (None, st1) \<Rightarrow> (None, st1)))"

section \<open>Emptying tables\<close>

text \<open>
  \<open>TRUNCATE TABLE <name> RESTART IDENTITY\<close> for a name of a table; no table has an identity
  column. Any other name is taken to be that of a table that does not exist (SQLSTATE \<open>42P01\<close>).
\<close>

definition exec_truncate :: "string \<Rightarrow> db \<Rightarrow> string + db" where
  "exec_truncate table d =
     (if table = ''event_store'' then Inr (d\<lparr>event_store := []\<rparr>)
      else if table = ''snapshots'' then Inr (d\<lparr>snapshots := []\<rparr>)
      else if table = ''outbox'' then Inr (d\<lparr>outbox := []\<rparr>)
      else if table = ''processed_events'' then Inr (d\<lparr>processed_events := []\<rparr>)
      else if table = ''product_views'' then Inr (d\<lparr>product_views := []\<rparr>)
      else if table = ''versioned_views'' then Inr (d\<lparr>versioned_views := []\<rparr>)
      else Inl ''42P01'')"

definition pool_Truncate :: "string \<Rightarrow> 'x session_scheme \<Rightarrow> error option \<times> 'x session_scheme" where
  "pool_Truncate table s =
     (case next_fault s of
        (Some (Fault e done), s1) \<Rightarrow>
          (Some e, s1\<lparr>committed :=
             (case exec_truncate table (committed s1) of
                Inr d \<Rightarrow> if done then d else committed s1 | Inl _ \<Rightarrow> committed s1)\<rparr>)
      | (None, s1) \<Rightarrow>
          (case exec_truncate table (committed s1) of
             Inl code \<Rightarrow> (Some (PgError code), s1)
           | Inr d \<Rightarrow> (None, s1\<lparr>committed := d\<rparr>)))"

fun TruncateTables :: "string list \<Rightarrow> 'x session_scheme \<Rightarrow> error option \<times> 'x session_scheme" where
  "TruncateTables [] s = (None, s)"
| "TruncateTables (table # tables) s =
     (case pool_Truncate table s of
        (Some err, s1) \<Rightarrow> (Some (Wrap (''failed to truncate table '' @ table) err), s1)
      | (None, s1) \<Rightarrow> TruncateTables tables s1)"

section \<open>The rest of \<open>versioned_store.go\<close>\<close>

text \<open>The table is part of the type \<open>db\<close>, so creating it where it exists already changes nothing.\<close>

definition VersionedRepository_CreateTable :: "'x session_scheme \<Rightarrow> error option \<times> 'x session_scheme" where
  "VersionedRepository_CreateTable s =
     (case next_fault s of (Some (Fault err _), s1) \<Rightarrow> (Some err, s1) | (None, s1) \<Rightarrow> (None, s1))"

section \<open>Where the schema is found\<close>

text \<open>Names that \<open>Clean\<close> keeps, and the absolute path through them.\<close>

definition path_name :: "string \<Rightarrow> bool" where
  "path_name p \<longleftrightarrow> p \<noteq> '''' \<and> p \<noteq> ''.'' \<and> p \<noteq> ''..'' \<and> CHR ''/'' \<notin> set p"

definition path_of :: "string list \<Rightarrow> string" where
  "path_of ps = ''/'' @ join_path ps"

lemma split_path_append: "split_path (a @ ''/'' @ b) = split_path a @ split_path b"
proof (induction a)
  case (Cons c a)
  have "split_path a \<noteq> []" by (cases a) (auto split: list.splits)
  with Cons show ?case by (auto split: list.splits simp: Cons_eq_append_conv)
qed simp

lemma split_path_name: "path_name p \<Longrightarrow> split_path p = [p]"
proof -
  have "CHR ''/'' \<notin> set p \<Longrightarrow> split_path p = [p]" by (induction p) auto
  then show "path_name p \<Longrightarrow> split_path p = [p]" by (simp add: path_name_def)
qed

lemma split_join: "list_all path_name ps \<Longrightarrow> split_path (join_path ps) = (if ps = [] then [''''] else ps)"
proof (induction ps rule: join_path.induct)
  case (3 p q ps)
  then show ?case using split_path_append [of p "join_path (q # ps)"] by (simp add: split_path_name)
qed (simp_all add: split_path_name)

lemma clean_names: "list_all path_name ps \<Longrightarrow> clean_elems rooted out (ps @ qs) = clean_elems rooted (rev ps @ out) qs"
  by (induction ps arbitrary: out) (auto simp: path_name_def)

lemma clean_path: "filepath_Clean (''/'' @ a) = path_of (clean_elems True [] (split_path a))"
  by (simp add: filepath_Clean_def path_of_def)

lemma clean_under:
  assumes "list_all path_name ps"
  shows "filepath_Clean (path_of ps @ ''/'' @ rest) = path_of (clean_elems True (rev ps) (split_path rest))"
proof -
  have "filepath_Clean (path_of ps @ ''/'' @ rest) = path_of (clean_elems True [] (split_path (join_path ps @ ''/'' @ rest)))"
    using clean_path [of "join_path ps @ ''/'' @ rest"] by (simp add: path_of_def)
  also have "split_path (join_path ps @ ''/'' @ rest) = split_path (join_path ps) @ split_path rest" by (rule split_path_append)
  also have "clean_elems True [] \<dots> = clean_elems True (rev ps) (split_path rest)"
    using clean_names [OF assms, of True "[]"] split_join [OF assms] by (cases "ps = []") simp_all
  finally show ?thesis .
qed

lemma join_under:
  assumes "list_all path_name ps" "rest \<noteq> ''''"
  shows "filepath_Join (path_of ps) rest = path_of (clean_elems True (rev ps) (split_path rest))"
  using clean_under [OF assms(1), of rest] assms(2) by (simp add: filepath_Join_def path_of_def)

lemma join_path_snoc: "ps \<noteq> [] \<Longrightarrow> join_path (ps @ [p]) = join_path ps @ ''/'' @ p"
  by (induction ps rule: join_path.induct) auto

lemma dir_of:
  assumes "list_all path_name ps" "ps \<noteq> []" "path_name p"
  shows "filepath_Dir (path_of (ps @ [p])) = path_of ps"
proof -
  have "CHR ''/'' \<notin> set (rev p)" using assms(3) by (simp add: path_name_def)
  then have "dropWhile (\<lambda>c. c \<noteq> CHR ''/'') (rev p @ CHR ''/'' # q) = CHR ''/'' # q" for q
    by (subst dropWhile_append2) auto
  then have "filepath_Dir (path_of (ps @ [p])) = filepath_Clean (path_of ps @ ''/'' @ '''')"
    using join_path_snoc [OF assms(2), of p] by (simp add: filepath_Dir_def path_of_def)
  also have "\<dots> = path_of ps" using clean_under [OF assms(1), of "''''"] by simp
  finally show ?thesis .
qed

lemma init_script_found:
  assumes "list_all path_name pre"
  shows "init_script (path_of (pre @ [''testutil'', ''db_util.go''])) = path_of (pre @ [''infra'', ''postgres'', ''schema.sql''])"
proof -
  have n: "list_all path_name (pre @ [''testutil''])" "path_name ''db_util.go''" "list_all path_name (pre @ [''infra'', ''postgres''])"
    using assms by (simp_all add: path_name_def)
  have "filepath_Dir (path_of (pre @ [''testutil'', ''db_util.go''])) = path_of (pre @ [''testutil''])"
    using dir_of [OF n(1) _ n(2)] by simp
  moreover have "filepath_Join (path_of (pre @ [''testutil''])) ''../'' = path_of pre"
    using join_under [OF n(1), of "''../''"] by simp
  moreover have "filepath_Join (path_of pre) ''./infra/postgres'' = path_of (pre @ [''infra'', ''postgres''])"
    using join_under [OF assms, of "''./infra/postgres''"] by simp
  moreover have "filepath_Join (path_of (pre @ [''infra'', ''postgres''])) ''schema.sql'' = path_of (pre @ [''infra'', ''postgres'', ''schema.sql''])"
    using join_under [OF n(3), of "''schema.sql''"] by simp
  ultimately show ?thesis by (simp add: init_script_def)
qed

section \<open>What \<open>TruncateTables\<close> leaves\<close>

text \<open>The tables with those of a list emptied.\<close>

definition keep_unless :: "string list \<Rightarrow> string \<Rightarrow> 'r list \<Rightarrow> 'r list" where
  "keep_unless ts t rows = (if t \<in> set ts then [] else rows)"

definition cleared :: "string list \<Rightarrow> db \<Rightarrow> db" where
  "cleared ts d =
     \<lparr>event_store = keep_unless ts ''event_store'' (event_store d), snapshots = keep_unless ts ''snapshots'' (snapshots d),
      outbox = keep_unless ts ''outbox'' (outbox d),
      processed_events = keep_unless ts ''processed_events'' (processed_events d),
      product_views = keep_unless ts ''product_views'' (product_views d),
      versioned_views = keep_unless ts ''versioned_views'' (versioned_views d)\<rparr>"

definition table_names :: "string list" where
  "table_names = [''event_store'', ''snapshots'', ''outbox'', ''processed_events'', ''product_views'', ''versioned_views'']"

lemma cleared_none [simp]: "cleared [] d = d"
  by (simp add: cleared_def keep_unless_def)

lemma cleared_cleared: "cleared us (cleared ts d) = cleared (ts @ us) d"
  by (simp add: cleared_def keep_unless_def)

lemma cleared_all: "cleared table_names d = empty_db"
  by (simp add: cleared_def keep_unless_def table_names_def empty_db_def)

lemma exec_truncate_cleared:
  "exec_truncate t d = (if t \<in> set table_names then Inr (cleared [t] d) else Inl ''42P01'')"
  by (simp add: exec_truncate_def cleared_def keep_unless_def table_names_def)

lemma pool_Truncate_cleared:
  assumes "pool_Truncate t s = (r, s')"
  shows "committed s' = committed s \<and> r \<noteq> None \<or> committed s' = cleared [t] (committed s) \<and> t \<in> set table_names"
    "locked s' = locked s \<and> session.more s' = session.more s \<and> cur_tx s' = cur_tx s"
  using assms
  by (auto simp: pool_Truncate_def exec_truncate_cleared split: prod.splits option.splits fault.splits sum.splits if_splits
      dest!: next_faultD)

text \<open>
  \<open>TruncateTables\<close> empties tables from the front of its list and nothing else: when it returns
  without a failed requirement, exactly the named tables are empty and all of them exist; otherwise
  it stopped at the table after, or with, the last one it emptied. Without faults it succeeds on
  every list of existing tables.
\<close>

theorem TruncateTables_clears:
  assumes "TruncateTables ts s = (r, s')"
  shows "(\<exists>us vs. ts = us @ vs \<and> committed s' = cleared us (committed s) \<and> set us \<subseteq> set table_names \<and>
      (r = None \<longrightarrow> vs = [])) \<and> (faults s = [] \<longrightarrow> set ts \<subseteq> set table_names \<longrightarrow> r = None)"
  using assms
proof (induction ts arbitrary: s)
  case Nil
  then show ?case by auto
next
  case (Cons t ts)
  obtain r1 s1 where s1: "pool_Truncate t s = (r1, s1)" by fastforce
  note one = pool_Truncate_cleared(1) [OF s1]
  have nofault: "r1 = None \<and> faults s1 = []" if "faults s = []" "t \<in> set table_names"
    using that s1 by (auto simp: pool_Truncate_def exec_truncate_cleared)
  show ?case
  proof (cases r1)
    case None
    then have "TruncateTables ts s1 = (r, s')" using Cons.prems s1 by simp
    from Cons.IH [OF this] obtain us vs where ih: "ts = us @ vs" "committed s' = cleared us (committed s1)"
      "set us \<subseteq> set table_names" "r = None \<longrightarrow> vs = []" "faults s1 = [] \<longrightarrow> set ts \<subseteq> set table_names \<longrightarrow> r = None" by blast
    from one None have t: "t \<in> set table_names" "committed s1 = cleared [t] (committed s)" by auto
    have "t # ts = (t # us) @ vs" "committed s' = cleared (t # us) (committed s)" "set (t # us) \<subseteq> set table_names"
      using ih(1-3) t by (simp_all add: cleared_cleared)
    with ih(4) have "\<exists>us vs. t # ts = us @ vs \<and> committed s' = cleared us (committed s) \<and> set us \<subseteq> set table_names \<and>
        (r = None \<longrightarrow> vs = [])" by blast
    moreover have "faults s = [] \<longrightarrow> set (t # ts) \<subseteq> set table_names \<longrightarrow> r = None" using ih(5) nofault by simp
    ultimately show ?thesis by blast
  next
    case (Some e)
    then have "r \<noteq> None" "s' = s1" using Cons.prems s1 by auto
    moreover have "\<exists>us vs. t # ts = us @ vs \<and> committed s1 = cleared us (committed s) \<and> set us \<subseteq> set table_names"
      using one
    proof
      assume "committed s1 = committed s \<and> r1 \<noteq> None"
      then show ?thesis by (intro exI [of _ "[]"] exI [of _ "t # ts"]) simp
    next
      assume "committed s1 = cleared [t] (committed s) \<and> t \<in> set table_names"
      then show ?thesis by (intro exI [of _ "[t]"] exI [of _ ts]) simp
    qed
    moreover have "\<not> (faults s = [] \<and> t \<in> set table_names)" using nofault Some by auto
    ultimately show ?thesis by auto
  qed
qed

text \<open>The tables that the suites of the repository name.\<close>

definition used_session :: session where
  "used_session = \<lparr>committed = empty_db\<lparr>processed_events := [(7, ''p'')], versioned_views := [(1, 2)]\<rparr>,
     cur_tx = None, faults = [], locked = []\<rparr>"

theorem TruncateTables_clears_witness:
  "\<exists>s'. TruncateTables [''processed_events''] used_session = (None, s') \<and>
     committed s' = empty_db\<lparr>versioned_views := [(1, 2)]\<rparr>"
proof -
  obtain r s' where run: "TruncateTables [''processed_events''] used_session = (r, s')" by fastforce
  from TruncateTables_clears [OF run] have "r = None" "committed s' = cleared [''processed_events''] (committed used_session)"
    by (auto simp: table_names_def used_session_def)
  then show ?thesis using run by (simp add: cleared_def keep_unless_def empty_db_def used_session_def)
qed

section \<open>The life of the container\<close>

text \<open>
  A suite that was set up holds the container that was started, with the schema of the repository
  as its script, and \<open>TearDownSuite\<close> terminates that container; a suite that was not set up has
  nothing to terminate.
\<close>

lemma SetupSuite_ok:
  assumes "SetupSuite cl s st = (Inr s', st')" "list_all path_name pre"
    and "runtime_Caller cl = path_of (pre @ [''testutil'', ''db_util.go''])"
  obtains c st1 where "postgres_Run cl ''postgres:16-alpine'' ''testdb'' ''testuser'' ''testpassword''
      (path_of (pre @ [''infra'', ''postgres'', ''schema.sql''])) st = (Inr c, st1)"
    "suite_pgContainer s' = Some c" "suite_Pool s' \<noteq> None"
    "\<And>st2. TearDownSuite cl s' st2 = (case container_Terminate cl c st2 of (r, st3) \<Rightarrow>
       (map_option (Wrap ''failed to terminate postgres container'') r, st3))"
  using assms init_script_found [OF assms(2)]
  by (auto simp: SetupSuite_def TearDownSuite_def split: prod.splits sum.splits option.splits)

lemma TearDownSuite_unset: "suite_pgContainer s = None \<Longrightarrow> TearDownSuite cl s st = (None, st)"
  by (simp add: TearDownSuite_def)

end
