(* ===== verification/Spec2Isabelle.thy ===== *)
theory Spec2Isabelle
  imports Recovery Error_Paths Test_Support
begin

text \<open>
  A model of the Go repository \<open>eventus\<close> (directory \<open>src\<close>): a small framework for event sourcing
  and CQRS on PostgreSQL and NATS JetStream, with a sample application that manages products.

  \<^bold>\<open>The program.\<close> A command handler (\<open>sample/command\<close>) loads an aggregate through a repository
  (\<open>eventsrc/aggregate_repository.go\<close>), lets it record an event, and saves it in a transaction
  (\<open>infra/postgres/db.go\<close>): \<open>infra/postgres/event_store.go\<close> appends the events to the tables
  \<open>event_store\<close> and \<open>outbox\<close> and takes a snapshot now and then. Relays (\<open>outbox/relay.go\<close>) lock
  batches of unpublished outbox rows, publish them (\<open>infra/nats/broker.go\<close>) and mark them. The
  subscriber hands each message to a projection (\<open>cqrs/projection.go\<close>), which makes the handler of
  the sample (\<open>sample/query/projection\<close>) idempotent and ordered and writes the table
  \<open>product_views\<close>, which the query handler reads. \<open>sample/main.go\<close> wires the parts together.

  \<^bold>\<open>The theories\<close>, in the order in which they build on each other.
  \<^item> \<open>Go_Prelude\<close>: Go values and errors, lemmas on lists, the shared collections of facts.
    \<open>Go_Json\<close>: the part of \<open>encoding/json\<close> that is used.
  \<^item> \<open>Events\<close>: \<open>eventsrc/event.go\<close>, \<open>event_registry.go\<close>, \<open>sample/domain/event\<close>.
    \<open>Aggregates\<close>: \<open>eventsrc/aggregate.go\<close>, with the locale of what a concrete aggregate provides.
    \<open>Products\<close>: \<open>sample/domain/aggregate\<close> and \<open>sample/domain/domain\<close>.
  \<^item> \<open>Postgres\<close>: the tables of \<open>schema.sql\<close> and \<open>main.go\<close> as the record \<open>db\<close>, one constructor of
    \<open>stmt\<close> per SQL statement, \<open>exec_stmt\<close> with column types and keys, sessions with faults,
    \<open>DB.WithTransaction\<close>. \<open>Transactions\<close>: the contract of the interface \<open>Transactor\<close> as a locale.
  \<^item> \<open>Event_Store\<close>: \<open>infra/postgres/event_store.go\<close> and the writing half of \<open>outbox.go\<close>.
    \<open>Repositories\<close>: \<open>eventsrc/aggregate_repository.go\<close>, generic in store and aggregate.
  \<^item> \<open>Commands\<close>: \<open>sample/command\<close>. \<open>Write_Side\<close>: the invariant of the tables that the handlers
    write. \<open>Clients\<close>: concurrent clients as a step relation. \<open>Command_Results\<close>,
    \<open>Write_Properties\<close>: what commands return and commit. \<open>Snapshot_Equivalence\<close>: loading through
    snapshots against the replay of the whole stream. \<open>Catalogue\<close>: the specification that the
    write side implements, a list of changes for each product, and the simulation between them.
  \<^item> \<open>Idempotency\<close>: \<open>infra/postgres/idempotency.go\<close> and the interfaces of stores that the
    projection uses. \<open>Projections\<close>: \<open>cqrs/projection.go\<close>, for any handler. \<open>Product_View\<close>:
    \<open>sample/query\<close>. \<open>View_Consistency\<close>, \<open>View_Progress\<close>, \<open>Read_Properties\<close>: the view under any
    deliveries and faults, and without faults.
  \<^item> \<open>Outbox_Store\<close>: the reading half of \<open>outbox.go\<close>. \<open>Relays\<close>: \<open>outbox/relay.go\<close> over the
    interfaces of store and broker. \<open>Nats\<close>: \<open>infra/nats/broker.go\<close> over JetStream as a parameter.
    \<open>Relay_Workers\<close>, \<open>Relay_Progress\<close>: several relays at once, and their progress.
  \<^item> \<open>System\<close>: the whole application as a step relation with its invariant. \<open>Schema\<close>: what every
    statement keeps, every reachable state has. \<open>Sample_Main\<close>: \<open>sample/main.go\<close>, with \<open>NewDB\<close> and
    \<open>NewNATSBroker\<close>. \<open>Simulation\<close>, \<open>Sample_Run\<close>: the simulated work of \<open>main\<close> run to its end.
    \<open>Application\<close>: the whole application against the catalogue. \<open>Catch_Up\<close>: the turns of the
    subscriber that bring the view up to date. \<open>Eventual_Consistency\<close>: the ticks of a relay before
    them, from the event store to the view. \<open>Stream_Order\<close>: when the streams hold the events of
    each product in order. \<open>Recovery\<close>: what becomes of events that have overtaken others.
  \<^item> \<open>Error_Paths\<close>: the paths on which the code hides an error. \<open>Test_Support\<close>: the suite of
    \<open>testutil/db_util.go\<close>, with the part of \<open>path/filepath\<close> that it uses, and the rest of
    \<open>testutil/versioned_store.go\<close>.

  \<^bold>\<open>What the lemmas show.\<close> The write side: streams are numbered without gaps, no update is lost,
  events and outbox agree, in every state that concurrent clients reach under any faults; the
  handlers refine the catalogue, each command in one atomic step. The relays: at least once in
  general, exactly once while no error is seen, a batch is all or nothing, the outbox drains, the
  streams are in order while one relay at a time is inside a batch. The read side: the view is
  always some version of the product and catches up; one delivery refines a function on tables. The application (this theory): the view against the
  event store, the acknowledgements, the streams and the schema, for all parts together; a query
  returns a state that the product has had; without faults the view catches up with the event
  store, in a number of ticks and turns that depends on what is waiting only, also when relays have
  published events out of order, and however ticks and turns are interleaved. Some
  theorems prove what is surprising: a snapshot at the end of a stream blocks every later update, an
  event that the view cannot store freezes it, a failed snapshot discards the events, the view is
  written although its event is not recorded, a message that does not decode stays forever, a second
  relay can overtake the first, the unique violation that \<open>MarkAsProcessed\<close> hides discards the
  transaction, the update of a product that does not exist succeeds, and the
  simulation of \<open>main\<close> may end at its first query.

  \<^bold>\<open>Conventions.\<close> An \<open>error\<close> that may be \<open>nil\<close> is an \<open>error option\<close>, a pair of a value and an error
  is a sum. State is passed explicitly; a session of the database is a record with the committed
  tables, the open transaction, and two parameters: the faults that are to come and the rows that
  others have locked. A fault is an error of one call to the driver, together with whether the
  server has executed the call all the same; a finite list of them covers every finite run, and
  theorems that need a database that does not fail assume that the list is empty. Recursion is
  structural everywhere; the loops that select on channels recurse over the list of signals
  received. Safety theorems quantify over every retry function and server that keep the promises
  of \<open>backoff_lib\<close> and \<open>jetstream_ok\<close>, which state the documented behaviour of the two libraries;
  the four tries of the retry function and the in-memory server are their witnesses. How many turns
  or ticks are enough depends on what the server hands out, so the theorems of \<open>Simulation\<close> and
  \<open>Eventual_Consistency\<close> are about the in-memory server; their bounds are one tick per ten
  unpublished events and one turn per ten messages, the sizes of the batches in the code, or one
  turn per message when the streams are out of order, because a turn then takes at least one. In
  \<open>Recovery\<close> an event may be at most nine places before one that it waits for, so that a turn of
  ten messages sees both.

  \<^bold>\<open>Interleaving.\<close> A handler is split where another part can change what it has read: an update
  between loading (the pool sees committed rows) and saving, a relay between locking its batch and
  the rest. A turn of the subscriber is one step, because nobody else writes the tables that the
  projection reads or writes. A relay that has fetched an empty batch is kept in the machine as one
  that holds nothing; what it does later changes nothing.

  \<^bold>\<open>Not modelled.\<close> Logging, except for what the simulation logs of its queries; opening and closing
  of connections beyond the order of the calls and their errors; waiting for signals, the relays'
  interval and the wait strategy of the test container. Constructors that only store their
  arguments in a struct have no definition, since an operation takes what the struct holds as its
  arguments. PostgreSQL's refusal of the NUL character in \<open>JSONB\<close> and \<open>TEXT\<close>, the order
  that \<open>ORDER BY ts\<close> gives to equal times (the model takes insertion order), digits of times below
  a microsecond. The text forms of identifiers and times inside JSON are abstract values. How the
  driver encodes a \<open>float64\<close> for an \<open>INT\<close> column, and decodes it, is a parameter, because it is
  code of the driver; the theorems hold for every choice. A snapshot is never the JSON document
  \<open>null\<close>, since \<open>MarshalJSON\<close> never writes it.
\<close>

section \<open>The application as a whole\<close>

text \<open>
  C1. Consistency of the read model with the event store, end to end: in every state that the
  application can reach, with any clients, relays and turns of the subscriber, under any faults of
  the database, the view table has at most one row per product; every row has a version between 1
  and the length of the product's stream, shows name, price and time of the stored event of that
  version, and carries the creation time of the stored first event.
\<close>

theorem app_read_model_sound:
  assumes "libs_ok l stored acks j0" "app_reachable f n l j0 y"
  shows "distinct (map vr_id (product_views (app_db y))) \<and>
    (\<forall>row \<in> set (product_views (app_db y)).
       1 \<le> vr_version row \<and> vr_version row \<le> stream_len (vr_id row) (app_db y) \<and>
       (\<exists>e \<in> set (event_store (app_db y)). row_shows (lib_enc l) e row) \<and>
       (\<exists>e \<in> set (event_store (app_db y)). row_created_by e row))"
proof -
  note inv = app_invD [OF app_reachable_inv [OF assms(2,1)]]
  have contig: "contiguous (app_db y)" using inv(7) by (simp add: write_inv_def)
  have "1 \<le> vr_version row \<and> vr_version row \<le> stream_len (vr_id row) (app_db y)"
    if "e \<in> set (event_store (app_db y))" "row_shows (lib_enc l) e row" for e row
  proof -
    have "(vr_id row, vr_version row) \<in> row_key ` set (event_store (app_db y))"
      using that by (auto simp: row_shows_def image_iff intro!: bexI [of _ e])
    then show ?thesis using key_taken_iff [OF contig] by simp
  qed
  with inv(5) show ?thesis unfolding view_inv_def by blast
qed

theorem app_read_model_sound_witness:
  "\<exists>y row. app_reachable snapshotFrequency 10 (mem_libs truncating_enc) mem_js_empty y \<and>
     product_views (app_db y) = [row] \<and> vr_price row = 199 \<and> vr_version row \<le> stream_len (vr_id row) (app_db y)"
proof (rule sample_app_state [of 0 truncating_enc 2 1])
  fix y r
  assume reach: "app_reachable snapshotFrequency 10 (mem_libs truncating_enc) mem_js_empty y"
    and "product_views (app_db y) = first_views truncating_enc 1 0"
  then obtain row where "product_views (app_db y) = [row]" "vr_price row = 199"
    by (simp add: first_views_def encoded_prices)
  with app_read_model_sound [OF mem_libs_ok reach] reach show ?thesis by auto
qed (auto simp: samples_ok encoded_prices int4_def)

text \<open>
  C9. No event is acknowledged before it is processed: in every reachable state of the
  application, each acknowledged message decodes to an event of the event store that is recorded
  as processed by the product projection.
\<close>

theorem app_acks_recorded:
  assumes "libs_ok l stored acks j0" "app_reachable f n l j0 y" "m \<in> acks (app_bus y)"
  shows "\<exists>e \<in> set (event_store (app_db y)). unmarshal_outbox (js_Data (lib_js l) m) zero_outbox = Inr e \<and>
    (oe_EventID e, ''ProductProjection'') \<in> set (processed_events (app_db y))"
  using app_invD(6) [OF app_reachable_inv [OF assms(2,1)]] assms(3) unfolding acks_recorded_def by blast

theorem app_acks_recorded_witness:
  "\<exists>y m e. app_reachable snapshotFrequency 10 (mem_libs truncating_enc) mem_js_empty y \<and>
     m \<in> set (mj_acked (app_bus y)) \<and> e \<in> set (event_store (app_db y)) \<and>
     (oe_EventID e, ''ProductProjection'') \<in> set (processed_events (app_db y))"
proof (rule sample_app_state [of 0 truncating_enc 2 1])
  fix y r
  assume reach: "app_reachable snapshotFrequency 10 (mem_libs truncating_enc) mem_js_empty y"
    and "mj_stored (app_bus y) = [message_of r]" "all_acked (app_bus y)"
  then have "(0, snd (message_of r)) \<in> set (mj_acked (app_bus y))" by (simp add: all_acked_def)
  with app_acks_recorded [OF mem_libs_ok reach] reach show ?thesis by blast
qed (auto simp: samples_ok encoded_prices int4_def)

text \<open>
  C10. The streams and the event store agree: in every reachable state of the application, each
  message of the streams has the subject of a stored event and decodes to that event, and each
  event whose outbox row is marked as published has its message in the streams.
\<close>

theorem app_streams_match_store:
  assumes "libs_ok l stored acks j0" "app_reachable f n l j0 y"
  shows "(\<forall>x \<in> set (stored (app_bus y)). \<exists>e \<in> set (event_store (app_db y)).
       fst x = oe_AggregateType e @ ''.'' @ lib_uuid_String l (oe_AggregateID e) \<and>
       unmarshal_outbox (snd x) zero_outbox = Inr e) \<and>
    (\<forall>x \<in> set (outbox (app_db y)). published x \<longrightarrow> oe_AggregateType (ob_event x) \<noteq> '''' \<longrightarrow>
       nats_msg (lib_uuid_String l) (oe_AggregateType (ob_event x)) (ob_event x) \<in> set (stored (app_bus y)))"
proof (intro conjI ballI)
  note inv = app_invD [OF app_reachable_inv [OF assms(2,1)]]
  fix x
  assume "x \<in> set (stored (app_bus y))"
  with inv(4) obtain e where e: "e \<in> set (event_store (app_db y))"
    "x = nats_msg (lib_uuid_String l) (oe_AggregateType e) e" unfolding messages_known_def by blast
  have "valid_row e" using inv(7) e(1) by (simp add: write_inv_def store_wf_def)
  from valid_row_message [OF this] e
  show "\<exists>e \<in> set (event_store (app_db y)). fst x = oe_AggregateType e @ ''.'' @ lib_uuid_String l (oe_AggregateID e) \<and>
       unmarshal_outbox (snd x) zero_outbox = Inr e" by (intro bexI [of _ e]) (simp_all add: nats_msg_def)
next
  fix x
  assume "x \<in> set (outbox (app_db y))"
  with app_invD(3) [OF app_reachable_inv [OF assms(2,1)]]
  show "published x \<longrightarrow> oe_AggregateType (ob_event x) \<noteq> '''' \<longrightarrow>
      nats_msg (lib_uuid_String l) (oe_AggregateType (ob_event x)) (ob_event x) \<in> set (stored (app_bus y))"
    unfolding all_sent_def by simp
qed

theorem app_streams_match_store_witness:
  "\<exists>y r x. app_reachable snapshotFrequency 10 (mem_libs truncating_enc) mem_js_empty y \<and>
     event_store (app_db y) = [r] \<and> mj_stored (app_bus y) = [x] \<and> unmarshal_outbox (snd x) zero_outbox = Inr r"
proof (rule sample_app_state [of 0 truncating_enc 2 1])
  fix y r
  assume reach: "app_reachable snapshotFrequency 10 (mem_libs truncating_enc) mem_js_empty y"
    and "event_store (app_db y) = [r]" "mj_stored (app_bus y) = [message_of r]"
  with app_streams_match_store [OF mem_libs_ok reach] reach show ?thesis
    by (intro exI [of _ y] exI [of _ r] exI [of _ "message_of r"]) simp
qed (auto simp: samples_ok encoded_prices int4_def)





end
